(* ===== verification/Prelude.thy ===== *)
theory Prelude
  imports Main "HOL-Library.Word"
begin

text \<open>
  What every component of the relayer model shares.

  \<^item> The Go run time: a call either returns (\<open>Ret\<close>), blocks for ever in the state it is
    called in (\<open>Blocked\<close>: a send on a full channel, a lock that is held) or panics
    (\<open>Panic\<close>).  A pair \<open>(value, err)\<close> of the source is a value of \<open>error + 'a\<close>.
  \<^item> The parts of Go's standard library the sources use on strings and numbers:
    \<open>strings.Contains\<close>, \<open>%v\<close> and \<open>%x\<close> of an integer, slice indexing.
  \<^item> Times are integers, in nanoseconds; the clock is an argument of every operation that
    reads it.
  \<^item> The generic facts on lists and transition systems the component theories rest on.
\<close>

named_theorems go_defs \<open>definitions of the Go run time that proofs unfold\<close>

section \<open>Outcomes of a Go call\<close>

datatype go_panic =
    NilDeref
  | DivideByZero
  | IndexOutOfRange
  | SendOnClosed
  | CloseOfClosed
  | TypeAssertion
  | PanicCall

datatype 'a outcome = Ret 'a | Blocked | Panic go_panic

fun bind_outcome :: "'a outcome \<Rightarrow> ('a \<Rightarrow> 'b outcome) \<Rightarrow> 'b outcome" where
  "bind_outcome (Ret x) f = f x"
| "bind_outcome Blocked f = Blocked"
| "bind_outcome (Panic k) f = Panic k"

lemma bind_outcome_Ret_iff:
  "bind_outcome m f = Ret y \<longleftrightarrow> (\<exists>x. m = Ret x \<and> f x = Ret y)"
  by (cases m) auto

lemma bind_outcome_Blocked_iff:
  "bind_outcome m f = Blocked \<longleftrightarrow> m = Blocked \<or> (\<exists>x. m = Ret x \<and> f x = Blocked)"
  by (cases m) auto

lemma bind_outcome_Panic_iff:
  "bind_outcome m f = Panic k \<longleftrightarrow> m = Panic k \<or> (\<exists>x. m = Ret x \<and> f x = Panic k)"
  by (cases m) auto

lemma bind_outcome_Ret_right [simp]: "bind_outcome m Ret = m"
  by (cases m) auto

lemma bind_outcome_assoc:
  "bind_outcome (bind_outcome m f) g = bind_outcome m (\<lambda>x. bind_outcome (f x) g)"
  by (cases m) auto

text \<open>The message of an \<open>error\<close> value; \<open>nil\<close> is \<open>None\<close> where an error is optional.\<close>

type_synonym error = string

text \<open>Machine integers keep their width.\<close>

type_synonym u8 = "8 word"
type_synonym u16 = "16 word"
type_synonym u32 = "32 word"
type_synonym u64 = "64 word"

text \<open>\<open>xs[i]\<close> of a slice.\<close>

definition slice_get :: "'a list \<Rightarrow> nat \<Rightarrow> 'a outcome" where
  "slice_get xs i = (if i < length xs then Ret (xs ! i) else Panic IndexOutOfRange)"

lemma slice_get_in_range [simp]: "i < length xs \<Longrightarrow> slice_get xs i = Ret (xs ! i)"
  by (simp add: slice_get_def)

lemma slice_get_out_of_range [simp]:
  "length xs \<le> i \<Longrightarrow> slice_get xs i = Panic IndexOutOfRange"
  by (simp add: slice_get_def)

section \<open>Programs that may stop early\<close>

text \<open>
  A program on a state gives a value, or the reason it stopped early (an exit, a panic that nobody
  recovers), with the state it leaves.
\<close>

type_synonym ('s, 'e, 'a) prog = "'s \<Rightarrow> ('e + 'a) \<times> 's"

definition ret :: "'a \<Rightarrow> ('s, 'e, 'a) prog" where "ret x w = (Inr x, w)"

definition stop :: "'e \<Rightarrow> ('s, 'e, 'a) prog" where "stop e w = (Inl e, w)"

definition then_cmd :: "('s, 'e, 'a) prog \<Rightarrow> ('a \<Rightarrow> ('s, 'e, 'b) prog) \<Rightarrow> ('s, 'e, 'b) prog" where
  "then_cmd m f w = (case m w of (Inl e, v) \<Rightarrow> (Inl e, v) | (Inr x, v) \<Rightarrow> f x v)"

lemma then_cmdE:
  assumes "then_cmd m f w = (r, v)"
  obtains e where "m w = (Inl e, v)" "r = Inl e" | x u where "m w = (Inr x, u)" "f x u = (r, v)"
  using assms by (auto simp: then_cmd_def split: prod.splits sum.splits)

section \<open>Dynamic values\<close>

text \<open>
  A value of type \<open>interface{}\<close> as the JSON decoder of a client library builds it.  An object
  is a map from field names; the entries are listed, the first entry of a name counting.
\<close>

datatype goval =
    GNil
  | GBool bool
  | GNum int
  | GStr string
  | GArr "goval list"
  | GMap "(string \<times> goval) list"

text \<open>\<open>v.(map[string]interface{})\<close> in its one-value form, which panics on anything else.\<close>

fun as_map :: "goval \<Rightarrow> (string \<times> goval) list outcome" where
  "as_map (GMap m) = Ret m"
| "as_map _ = Panic TypeAssertion"

section \<open>Times\<close>

abbreviation second :: int where "second \<equiv> 1000000000"
abbreviation millisecond :: int where "millisecond \<equiv> 1000000"

section \<open>Strings\<close>

text \<open>\<open>strings.HasPrefix\<close>, \<open>strings.Contains\<close> and \<open>strings.TrimPrefix\<close>.\<close>

fun has_prefix :: "string \<Rightarrow> string \<Rightarrow> bool" where
  "has_prefix s [] = True"
| "has_prefix [] (c # cs) = False"
| "has_prefix (d # ds) (c # cs) = (d = c \<and> has_prefix ds cs)"

fun str_contains :: "string \<Rightarrow> string \<Rightarrow> bool" where
  "str_contains [] sub = has_prefix [] sub"
| "str_contains (c # cs) sub = (has_prefix (c # cs) sub \<or> str_contains cs sub)"

definition trim_prefix :: "string \<Rightarrow> string \<Rightarrow> string" where
  "trim_prefix s p = (if has_prefix s p then drop (length p) s else s)"

lemma has_prefix_iff: "has_prefix s p \<longleftrightarrow> (\<exists>t. s = p @ t)"
  by (induction s p rule: has_prefix.induct) auto

lemma str_contains_iff: "str_contains s sub \<longleftrightarrow> (\<exists>a b. s = a @ sub @ b)"
proof (induction s)
  case Nil
  then show ?case by (auto simp: has_prefix_iff)
next
  case (Cons c s)
  have "(\<exists>a b. c # s = a @ sub @ b) \<longleftrightarrow>
        (\<exists>b. c # s = sub @ b) \<or> (\<exists>a b. s = a @ sub @ b)"
    by (metis append_Cons append_Nil list.exhaust_sel list.sel(1,3))
  then show ?case
    using Cons by (simp add: has_prefix_iff)
qed

lemma str_contains_empty [simp]: "str_contains s []"
  by (cases s) auto

lemma trim_prefix_append [simp]: "trim_prefix (p @ s) p = s"
  by (simp add: trim_prefix_def has_prefix_iff)

text \<open>\<open>[]byte(s)\<close> and \<open>string(b)\<close>.\<close>

definition bytes_of_string :: "string \<Rightarrow> u8 list" where
  "bytes_of_string s = map of_char s"

definition string_of_bytes :: "u8 list \<Rightarrow> string" where
  "string_of_bytes bs = map (\<lambda>b. char_of (unat b)) bs"

text \<open>The decimal digits of a number, as \<open>%v\<close> and \<open>%d\<close> print it.\<close>

definition digit :: "nat \<Rightarrow> char" where
  "digit d = char_of (48 + d)"

fun dec :: "nat \<Rightarrow> string" where
  "dec n = (if n < 10 then [digit n] else dec (n div 10) @ [digit (n mod 10)])"

declare dec.simps [simp del]

fun undec_from :: "nat \<Rightarrow> string \<Rightarrow> nat" where
  "undec_from acc [] = acc"
| "undec_from acc (c # cs) = undec_from (10 * acc + (of_char c - 48)) cs"

lemma of_char_digit: "d < 10 \<Longrightarrow> (of_char (digit d) :: nat) = 48 + d"
  by (simp add: digit_def)

lemma undec_from_append:
  "undec_from acc (s @ t) = undec_from (undec_from acc s) t"
  by (induction acc s rule: undec_from.induct) auto

lemma undec_dec: "undec_from 0 (dec n) = n"
proof (induction n rule: dec.induct)
  case (1 n)
  then show ?case
    by (cases "n < 10") (auto simp: dec.simps [of n] undec_from_append of_char_digit)
qed

lemma dec_inj [simp]: "dec m = dec n \<longleftrightarrow> m = n"
  by (metis undec_dec)

lemma dec_nonempty [simp]: "dec n \<noteq> []"
  by (subst dec.simps) simp

lemma dec_chars: "c \<in> set (dec n) \<Longrightarrow> 48 \<le> (of_char c :: nat) \<and> (of_char c :: nat) < 58"
proof (induction n rule: dec.induct)
  case (1 n)
  then show ?case
    by (cases "n < 10") (auto simp: dec.simps [of n] of_char_digit)
qed

lemma dec_no_char: "(of_char c :: nat) < 48 \<or> 58 \<le> (of_char c :: nat) \<Longrightarrow> c \<notin> set (dec n)"
  using dec_chars by fastforce

section \<open>Lists\<close>

lemma sum_list_map_update:
  fixes f :: "'a \<Rightarrow> nat"
  assumes "i < length xs"
  shows "sum_list (map f (xs[i := x])) + f (xs ! i) = sum_list (map f xs) + f x"
  using assms
proof (induction xs arbitrary: i)
  case Nil
  then show ?case by simp
next
  case (Cons a xs)
  then show ?case by (cases i) (auto simp: algebra_simps)
qed

section \<open>Transition systems\<close>

text \<open>
  The interface of a component that runs as a state machine: a set of initial states, a step
  relation, and an invariant its steps keep.  The invariant then holds wherever the machine
  can get to.
\<close>

locale transition_system =
  fixes initial :: "'s \<Rightarrow> bool"
    and step :: "'s \<Rightarrow> 's \<Rightarrow> bool"
    and inv :: "'s \<Rightarrow> bool"
  assumes initial_inv: "initial s \<Longrightarrow> inv s"
    and step_inv: "inv s \<Longrightarrow> step s t \<Longrightarrow> inv t"
begin

lemma steps_inv: "step\<^sup>*\<^sup>* s t \<Longrightarrow> inv s \<Longrightarrow> inv t"
  by (induction rule: rtranclp_induct) (auto intro: step_inv)

lemma reachable_inv: "initial s \<Longrightarrow> step\<^sup>*\<^sup>* s t \<Longrightarrow> inv t"
  by (blast intro: steps_inv initial_inv)

end

end
