(* ===== verification/TxnQueue.thy ===== *)
theory TxnQueue
  imports Prelude
begin

text \<open>
  \<open>account/txnQ.go\<close>: the bounded queue of transaction requests, a Go channel of a fixed
  capacity with one worker goroutine, and the protocol by which \<open>Close\<close> waits for the
  worker.  The channel is a list (oldest first) with its capacity; \<open>closed\<close> records
  \<open>close(q.q)\<close> and \<open>cancelled\<close> the state of the queue's context.
\<close>

section \<open>The queue\<close>

record 'a txnq =
  buffer :: "'a list"
  capacity :: nat
  closed :: bool
  cancelled :: bool

definition NewTxnQ :: "nat \<Rightarrow> 'a txnq" where
  "NewTxnQ c = \<lparr>buffer = [], capacity = c, closed = False, cancelled = False\<rparr>"

text \<open>
  \<open>select { case q.q <- d: ... default: ... }\<close>: the send case is taken when there is room.
  On a closed channel the send case is the ready one, and it panics.
\<close>

definition TryEnqueue :: "'a txnq \<Rightarrow> 'a \<Rightarrow> (bool \<times> 'a txnq) outcome" where
  "TryEnqueue tq d =
     (if closed tq then Panic SendOnClosed
      else if length (buffer tq) < capacity tq
        then Ret (True, tq\<lparr>buffer := buffer tq @ [d]\<rparr>)
      else Ret (False, tq))"

definition Enqueue :: "'a txnq \<Rightarrow> 'a \<Rightarrow> 'a txnq outcome" where
  "Enqueue tq d =
     (if closed tq then Panic SendOnClosed
      else if length (buffer tq) < capacity tq then Ret (tq\<lparr>buffer := buffer tq @ [d]\<rparr>)
      else Blocked)"

text \<open>
  \<open>data := <-q.q\<close>: a closed channel delivers what it still holds and then \<open>nil\<close>, here
  \<open>None\<close>.  The relayer never enqueues \<open>nil\<close>.
\<close>

definition receive :: "'a txnq \<Rightarrow> ('a option \<times> 'a txnq) outcome" where
  "receive tq =
     (case buffer tq of
        x # xs \<Rightarrow> Ret (Some x, tq\<lparr>buffer := xs\<rparr>)
      | [] \<Rightarrow> if closed tq then Ret (None, tq) else Blocked)"

text \<open>The first half of \<open>Close\<close>; the second, \<open>q.wg.Wait()\<close>, is a step of the system below.\<close>

definition close_queue :: "'a txnq \<Rightarrow> 'a txnq outcome" where
  "close_queue tq = (if closed tq then Panic CloseOfClosed else Ret (tq\<lparr>closed := True\<rparr>))"

definition Cancel :: "'a txnq \<Rightarrow> 'a txnq" where
  "Cancel tq = tq\<lparr>cancelled := True\<rparr>"

lemmas queue_defs = NewTxnQ_def TryEnqueue_def Enqueue_def receive_def close_queue_def Cancel_def

declare NewTxnQ_def [go_defs] TryEnqueue_def [go_defs] Enqueue_def [go_defs]
  receive_def [go_defs] close_queue_def [go_defs] Cancel_def [go_defs]

lemma receive_Some_iff:
  "receive tq = Ret (Some x, tq') \<longleftrightarrow>
     (\<exists>xs. buffer tq = x # xs \<and> tq' = tq\<lparr>buffer := xs\<rparr>)"
  by (auto simp: receive_def split: list.splits)

lemma receive_None_iff:
  "receive tq = Ret (None, tq') \<longleftrightarrow> buffer tq = [] \<and> closed tq \<and> tq' = tq"
  by (auto simp: receive_def split: list.splits)

lemma TryEnqueue_True_iff:
  "TryEnqueue tq d = Ret (True, tq') \<longleftrightarrow>
     \<not> closed tq \<and> length (buffer tq) < capacity tq \<and> tq' = tq\<lparr>buffer := buffer tq @ [d]\<rparr>"
  by (auto simp: TryEnqueue_def)

lemma TryEnqueue_False_iff:
  "TryEnqueue tq d = Ret (False, tq') \<longleftrightarrow>
     \<not> closed tq \<and> capacity tq \<le> length (buffer tq) \<and> tq' = tq"
  by (auto simp: TryEnqueue_def)

lemma Enqueue_Ret_iff:
  "Enqueue tq d = Ret tq' \<longleftrightarrow>
     \<not> closed tq \<and> length (buffer tq) < capacity tq \<and> tq' = tq\<lparr>buffer := buffer tq @ [d]\<rparr>"
  by (auto simp: Enqueue_def)

section \<open>The interface of a bounded FIFO queue\<close>

text \<open>
  A history of a queue: what producers put in and what consumers took out, in order, between
  two states of it.
\<close>

inductive queue_history ::
  "('q \<Rightarrow> 'a \<Rightarrow> 'q \<Rightarrow> bool) \<Rightarrow> ('q \<Rightarrow> 'a \<Rightarrow> 'q \<Rightarrow> bool) \<Rightarrow> 'q \<Rightarrow> 'a list \<Rightarrow> 'a list \<Rightarrow> 'q \<Rightarrow> bool"
  for put take_out where
  history_start: "queue_history put take_out s [] [] s"
| history_put: "queue_history put take_out s ins outs t \<Longrightarrow> put t x u \<Longrightarrow>
     queue_history put take_out s (ins @ [x]) outs u"
| history_take: "queue_history put take_out s ins outs t \<Longrightarrow> take_out t x u \<Longrightarrow>
     queue_history put take_out s ins (outs @ [x]) u"

locale fifo_queue =
  fixes put :: "'q \<Rightarrow> 'a \<Rightarrow> 'q \<Rightarrow> bool"
    and take_out :: "'q \<Rightarrow> 'a \<Rightarrow> 'q \<Rightarrow> bool"
    and content :: "'q \<Rightarrow> 'a list"
  assumes put_content: "put s x t \<Longrightarrow> content t = content s @ [x]"
    and take_content: "take_out s x t \<Longrightarrow> content s = x # content t"
begin

lemma history_order:
  "queue_history put take_out s ins outs t \<Longrightarrow> content s @ ins = outs @ content t"
  by (induction rule: queue_history.induct) (auto simp: put_content dest: take_content)

lemma delivered_prefix:
  "queue_history put take_out s ins outs t \<Longrightarrow> outs = take (length outs) (content s @ ins)"
  by (metis history_order append_eq_conv_conj)

end

locale bounded_queue = fifo_queue +
  fixes bound :: "'q \<Rightarrow> nat"
  assumes put_room: "put s x t \<Longrightarrow> length (content s) < bound s"
    and put_bound: "put s x t \<Longrightarrow> bound t = bound s"
    and take_bound: "take_out s x t \<Longrightarrow> bound t = bound s"
begin

lemma history_bound:
  "queue_history put take_out s ins outs t \<Longrightarrow> length (content s) \<le> bound s \<Longrightarrow>
     length (content t) \<le> bound t \<and> bound t = bound s"
  by (induction rule: queue_history.induct)
     (auto simp: put_content put_bound take_bound dest: put_room take_content)

lemma undelivered_bound:
  assumes "queue_history put take_out s ins outs t" "length (content s) \<le> bound s"
  shows "length (content s) + length ins \<le> length outs + bound s"
proof -
  from assms(1) have "length (content s @ ins) = length (outs @ content t)"
    by (simp add: history_order)
  with history_bound [OF assms] show ?thesis by simp
qed

end

text \<open>The relayer's queue provides it, by either of its two ways to push.\<close>

definition pushes :: "'a txnq \<Rightarrow> 'a \<Rightarrow> 'a txnq \<Rightarrow> bool" where
  "pushes s d t \<longleftrightarrow> TryEnqueue s d = Ret (True, t) \<or> Enqueue s d = Ret t"

definition pops :: "'a txnq \<Rightarrow> 'a \<Rightarrow> 'a txnq \<Rightarrow> bool" where
  "pops s d t \<longleftrightarrow> receive s = Ret (Some d, t)"

lemmas push_pop_iff = pushes_def pops_def TryEnqueue_True_iff Enqueue_Ret_iff receive_Some_iff

interpretation txnq: bounded_queue pushes pops buffer capacity
  by unfold_locales (auto simp: push_pop_iff)

section \<open>The queue, its worker and its closer\<close>

text \<open>
  One worker goroutine consumes a queue (\<open>NewTxnProcessor\<close> starts exactly one per queue).
  \<open>StartWorker\<close> only spawns it: \<open>q.wg.Add(1)\<close> is the goroutine's own first statement, so
  there is a phase in which the worker exists and the wait group does not know it.
  \<open>accepted\<close> and \<open>handled\<close> record what was pushed and what the worker function was given.
\<close>

datatype 'a worker_phase = Spawned | Looping | Handling 'a | Exited

datatype closer_phase = NotCalled | Waiting | Returned

record 'a qsys =
  queue :: "'a txnq"
  wg :: nat
  worker :: "'a worker_phase"
  closer :: closer_phase
  accepted :: "'a list"
  handled :: "'a list"

definition StartWorker :: "'a txnq \<Rightarrow> 'a qsys" where
  "StartWorker tq =
     \<lparr>queue = tq, wg = 0, worker = Spawned, closer = NotCalled, accepted = buffer tq, handled = []\<rparr>"

inductive qstep :: "'a qsys \<Rightarrow> 'a qsys \<Rightarrow> bool" where
  q_push: "pushes (queue s) d tq \<Longrightarrow>
     qstep s (s\<lparr>queue := tq, accepted := accepted s @ [d]\<rparr>)"
| q_register: "worker s = Spawned \<Longrightarrow> qstep s (s\<lparr>wg := wg s + 1, worker := Looping\<rparr>)"
| q_done: "worker s = Looping \<Longrightarrow> cancelled (queue s) \<Longrightarrow>
     qstep s (s\<lparr>wg := wg s - 1, worker := Exited\<rparr>)"
| q_receive: "worker s = Looping \<Longrightarrow> receive (queue s) = Ret (Some d, tq) \<Longrightarrow>
     qstep s (s\<lparr>queue := tq, worker := Handling d\<rparr>)"
| q_receive_nil: "worker s = Looping \<Longrightarrow> receive (queue s) = Ret (None, tq) \<Longrightarrow>
     qstep s (s\<lparr>queue := tq, wg := wg s - 1, worker := Exited\<rparr>)"
| q_handled: "worker s = Handling d \<Longrightarrow> \<not> cancelled (queue s) \<Longrightarrow>
     qstep s (s\<lparr>worker := Looping, handled := handled s @ [d]\<rparr>)"
| q_handled_last: "worker s = Handling d \<Longrightarrow> cancelled (queue s) \<Longrightarrow>
     qstep s (s\<lparr>worker := Exited, wg := wg s - 1, handled := handled s @ [d]\<rparr>)"
| q_close: "closer s = NotCalled \<Longrightarrow> close_queue (queue s) = Ret tq \<Longrightarrow>
     qstep s (s\<lparr>queue := tq, closer := Waiting\<rparr>)"
| q_close_return: "closer s = Waiting \<Longrightarrow> wg s = 0 \<Longrightarrow> qstep s (s\<lparr>closer := Returned\<rparr>)"
| q_cancel: "qstep s (s\<lparr>queue := Cancel (queue s)\<rparr>)"

fun in_hand :: "'a worker_phase \<Rightarrow> 'a list" where
  "in_hand (Handling d) = [d]"
| "in_hand _ = []"

fun counted :: "'a worker_phase \<Rightarrow> nat" where
  "counted Spawned = 0"
| "counted Exited = 0"
| "counted _ = 1"

text \<open>Order and accounting, whatever the worker's phase.\<close>

definition queue_inv :: "'a qsys \<Rightarrow> bool" where
  "queue_inv s \<longleftrightarrow>
     accepted s = handled s @ in_hand (worker s) @ buffer (queue s) \<and>
     wg s = counted (worker s) \<and>
     (worker s = Exited \<and> \<not> cancelled (queue s) \<longrightarrow> closed (queue s) \<and> buffer (queue s) = []) \<and>
     (closer s \<noteq> NotCalled \<longrightarrow> closed (queue s)) \<and>
     length (buffer (queue s)) \<le> capacity (queue s)"

lemma queue_inv_step: "queue_inv s \<Longrightarrow> qstep s t \<Longrightarrow> queue_inv t"
  by (erule qstep.cases)
     (auto simp: queue_inv_def push_pop_iff receive_None_iff Cancel_def close_queue_def
       split: if_splits)

interpretation qsys: transition_system
  "\<lambda>s. \<exists>c. s = StartWorker (NewTxnQ c)" qstep queue_inv
proof
  show "queue_inv s" if "\<exists>c. s = StartWorker (NewTxnQ c)" for s :: "'a qsys"
    using that by (auto simp: queue_inv_def StartWorker_def NewTxnQ_def)
qed (rule queue_inv_step)

text \<open>Once the worker has registered, \<open>Close\<close> returns only after it has left.\<close>

definition registered_inv :: "'a qsys \<Rightarrow> bool" where
  "registered_inv s \<longleftrightarrow>
     queue_inv s \<and> worker s \<noteq> Spawned \<and> (closer s = Returned \<longrightarrow> worker s = Exited)"

lemma registered_inv_step: "registered_inv s \<Longrightarrow> qstep s t \<Longrightarrow> registered_inv t"
proof -
  assume s: "registered_inv s" and st: "qstep s t"
  then have "queue_inv t" by (auto simp: registered_inv_def elim: queue_inv_step)
  moreover from st s have "worker t \<noteq> Spawned \<and> (closer t = Returned \<longrightarrow> worker t = Exited)"
  proof cases
    case q_close_return
    with s show ?thesis
      by (cases "worker s") (auto simp: registered_inv_def queue_inv_def)
  qed (auto simp: registered_inv_def)
  ultimately show ?thesis by (simp add: registered_inv_def)
qed

interpretation registered: transition_system
  "\<lambda>s. queue_inv s \<and> worker s = Looping \<and> closer s = NotCalled" qstep registered_inv
proof
  show "registered_inv s"
    if "queue_inv s \<and> worker s = Looping \<and> closer s = NotCalled" for s :: "'a qsys"
    using that by (auto simp: registered_inv_def)
qed (rule registered_inv_step)

section \<open>What the queue promises\<close>

text \<open>
  C24. A queue hands its worker exactly what was pushed, in the order it was pushed, one
  request at a time, and never holds more than its capacity: in every state reachable from a
  fresh queue with its worker, the accepted requests are those handled, then the one in hand,
  then the buffer.
\<close>

theorem txnq_fifo:
  assumes "qstep\<^sup>*\<^sup>* (StartWorker (NewTxnQ c)) s"
  shows "accepted s = handled s @ in_hand (worker s) @ buffer (queue s) \<and>
    length (buffer (queue s)) \<le> capacity (queue s)"
  using qsys.reachable_inv [OF _ assms] by (auto simp: queue_inv_def)

definition demo_running :: "nat qsys" where
  "demo_running =
     \<lparr>queue = \<lparr>buffer = [7], capacity = 2, closed = False, cancelled = False\<rparr>, wg = 1,
      worker = Looping, closer = NotCalled, accepted = [7], handled = []\<rparr>"

lemma demo_running_reachable: "qstep\<^sup>*\<^sup>* (StartWorker (NewTxnQ 2)) demo_running"
proof -
  let ?a = "(StartWorker (NewTxnQ 2) :: nat qsys)\<lparr>wg := 1, worker := Looping\<rparr>"
  have "qstep (StartWorker (NewTxnQ 2)) ?a"
    using q_register [of "StartWorker (NewTxnQ 2)"] by (simp add: StartWorker_def)
  moreover have "qstep ?a demo_running"
    using q_push [of ?a 7 "queue demo_running"]
    by (simp add: demo_running_def StartWorker_def NewTxnQ_def push_pop_iff)
  ultimately show ?thesis by (meson r_into_rtranclp rtranclp.rtrancl_into_rtrancl)
qed

theorem txnq_fifo_witness: "accepted demo_running = [] @ in_hand Looping @ [7]"
  using txnq_fifo [OF demo_running_reachable] by (simp add: demo_running_def)

text \<open>
  C25. \<open>Close\<close> drains, under two conditions: the worker had registered with the wait group before
  \<open>Close\<close> was called, and the queue was not cancelled.  A \<open>Close\<close> that returns then leaves nothing
  behind; the worker has handled every accepted request, in order.
\<close>

theorem txnq_close_drains:
  assumes "queue_inv s" "worker s = Looping" "closer s = NotCalled"
    and "qstep\<^sup>*\<^sup>* s t" "closer t = Returned" "\<not> cancelled (queue t)"
  shows "handled t = accepted t \<and> buffer (queue t) = []"
proof -
  have "registered_inv t"
    using assms by (blast intro: registered.reachable_inv)
  with assms show ?thesis by (auto simp: registered_inv_def queue_inv_def)
qed

definition demo_drained :: "nat qsys" where
  "demo_drained =
     \<lparr>queue = \<lparr>buffer = [], capacity = 2, closed = True, cancelled = False\<rparr>, wg = 0,
      worker = Exited, closer = Returned, accepted = [7], handled = [7]\<rparr>"

lemma demo_drained_reachable: "qstep\<^sup>*\<^sup>* demo_running demo_drained"
proof -
  let ?tq = "\<lparr>buffer = [], capacity = 2, closed = True, cancelled = False\<rparr>"
  let ?b = "demo_running\<lparr>queue := ?tq\<lparr>buffer := [7]\<rparr>, closer := Waiting\<rparr>"
  let ?c = "?b\<lparr>queue := ?tq, worker := Handling 7\<rparr>"
  let ?d = "?c\<lparr>worker := Looping, handled := [7]\<rparr>"
  let ?e = "?d\<lparr>wg := 0, worker := Exited\<rparr>"
  note ds = demo_running_def demo_drained_def
  have "qstep demo_running ?b"
    using q_close [of demo_running] by (simp add: ds close_queue_def)
  moreover have "qstep ?b ?c"
    using q_receive [of ?b 7 ?tq] by (simp add: ds receive_Some_iff)
  moreover have "qstep ?c ?d"
    using q_handled [of ?c 7] by (simp add: ds)
  moreover have "qstep ?d ?e"
    using q_receive_nil [of ?d ?tq] by (simp add: ds receive_None_iff)
  moreover have "qstep ?e demo_drained"
    using q_close_return [of ?e] by (simp add: ds)
  ultimately show ?thesis by (meson r_into_rtranclp rtranclp_trans)
qed

theorem txnq_close_drains_witness: "handled demo_drained = accepted demo_drained"
proof -
  have "queue_inv demo_running"
    by (simp add: queue_inv_def demo_running_def)
  from txnq_close_drains [OF this _ _ demo_drained_reachable] show ?thesis
    by (simp add: demo_running_def demo_drained_def)
qed

text \<open>
  The wait group does not protect a worker that is still starting: because
  \<open>q.wg.Add(1)\<close> runs inside the goroutine, a \<open>Close\<close> that comes before the goroutine's
  first statement returns at once, with a request still in the queue.
\<close>

theorem txnq_close_can_miss_worker:
  "\<exists>s :: nat qsys. qstep\<^sup>*\<^sup>* (StartWorker (NewTxnQ 100)) s \<and>
     closer s = Returned \<and> \<not> cancelled (queue s) \<and> buffer (queue s) = [7] \<and> handled s = []"
proof -
  let ?s = "StartWorker (NewTxnQ 100) :: nat qsys"
  let ?tq = "\<lparr>buffer = [7], capacity = 100, closed = False, cancelled = False\<rparr>"
  let ?a = "?s\<lparr>queue := ?tq, accepted := [7]\<rparr>"
  let ?b = "?a\<lparr>queue := ?tq\<lparr>closed := True\<rparr>, closer := Waiting\<rparr>"
  let ?c = "?b\<lparr>closer := Returned\<rparr>"
  note ds = StartWorker_def NewTxnQ_def
  have "qstep ?s ?a"
    using q_push [of ?s 7 ?tq] by (simp add: ds push_pop_iff)
  moreover have "qstep ?a ?b"
    using q_close [of ?a] by (simp add: ds close_queue_def)
  moreover have "qstep ?b ?c"
    using q_close_return [of ?b] by (simp add: ds)
  ultimately have "qstep\<^sup>*\<^sup>* ?s ?c" by (meson r_into_rtranclp rtranclp_trans)
  then show ?thesis by (intro exI [of _ ?c]) (simp add: ds)
qed

end
