(* ===== verification/TxnMapper.thy ===== *)
theory TxnMapper
  imports Prelude
begin

unbundle bit_operations_syntax

text \<open>
  \<open>account/txnMapper.go\<close>: the mapping of transaction senders to the indices of the function
  call keys, with the checksum of \<open>hash/crc32\<close> it uses.
\<close>

section \<open>The IEEE checksum\<close>

definition crc32_poly :: u32 where
  "crc32_poly = 0xEDB88320"

definition crc32_bit :: "u32 \<Rightarrow> u32" where
  "crc32_bit c = (if c AND 1 = 1 then drop_bit 1 c XOR crc32_poly else drop_bit 1 c)"

definition crc32_byte :: "u32 \<Rightarrow> u8 \<Rightarrow> u32" where
  "crc32_byte c b = (crc32_bit ^^ 8) (c XOR ucast b)"

definition ChecksumIEEE :: "u8 list \<Rightarrow> u32" where
  "ChecksumIEEE bs = NOT (foldl crc32_byte (NOT 0) bs)"

section \<open>The mappers\<close>

text \<open>
  \<open>uint32(totalNumKeys)\<close> keeps the low 32 bits, and Go's \<open>%\<close> panics on 0.
\<close>

definition mod_keys :: "u32 \<Rightarrow> nat \<Rightarrow> nat outcome" where
  "mod_keys x totalNumKeys =
     (if (of_nat totalNumKeys :: u32) = 0 then Panic DivideByZero
      else Ret (unat (x mod of_nat totalNumKeys)))"

definition CRC32Mapper_Map :: "string \<Rightarrow> nat \<Rightarrow> nat outcome" where
  "CRC32Mapper_Map s totalNumKeys = mod_keys (ChecksumIEEE (bytes_of_string s)) totalNumKeys"

text \<open>
  \<open>rrMap\<close> has a value receiver: it increments the offset of its own copy.  The function
  returns the index and that copy.
\<close>

definition rrMap :: "u32 \<Rightarrow> nat \<Rightarrow> (nat \<times> u32) outcome" where
  "rrMap m_offset totalNumKeys =
     (let m_offset' = m_offset + 1; off = m_offset' - 1
      in bind_outcome (mod_keys off totalNumKeys) (\<lambda>idx. Ret (idx, m_offset')))"

text \<open>\<open>Map\<close> has a value receiver too and drops the copy, so the caller's mapper stays as it is.\<close>

definition RoundRobinMapper_Map :: "u32 \<Rightarrow> string \<Rightarrow> nat \<Rightarrow> nat outcome" where
  "RoundRobinMapper_Map m_offset s totalNumKeys =
     bind_outcome (rrMap m_offset totalNumKeys) (\<lambda>(idx, _). Ret idx)"

datatype TxnMapper = CRC32Mapper | RoundRobinMapper u32

text \<open>A call through the interface value; \<open>None\<close> is the nil interface.\<close>

fun mapper_Map :: "TxnMapper option \<Rightarrow> string \<Rightarrow> nat \<Rightarrow> nat outcome" where
  "mapper_Map None s n = Panic NilDeref"
| "mapper_Map (Some CRC32Mapper) s n = CRC32Mapper_Map s n"
| "mapper_Map (Some (RoundRobinMapper off)) s n = RoundRobinMapper_Map off s n"

section \<open>The interface of a mapper\<close>

locale key_mapper =
  fixes map_key :: "string \<Rightarrow> nat \<Rightarrow> nat outcome"
  assumes map_key_returns: "0 < n \<Longrightarrow> n < 2 ^ 32 \<Longrightarrow> \<exists>i<n. map_key s n = Ret i"
begin

lemma map_key_in_range: "0 < n \<Longrightarrow> n < 2 ^ 32 \<Longrightarrow> map_key s n = Ret i \<Longrightarrow> i < n"
  using map_key_returns [of n s] by auto

lemma selected_key: "keys \<noteq> [] \<Longrightarrow> length keys < 2 ^ 32 \<Longrightarrow>
    \<exists>k. bind_outcome (map_key s (length keys)) (slice_get keys) = Ret k \<and> k \<in> set keys"
  using map_key_returns [of "length keys" s] by fastforce

end

lemma mod_keys_returns:
  assumes "0 < n" "n < 2 ^ 32"
  shows "mod_keys x n = Ret (unat x mod n)"
proof -
  have n: "unat (of_nat n :: u32) = n"
    using assms by (simp add: unat_of_nat)
  then have "(of_nat n :: u32) \<noteq> 0"
    using assms by auto
  then show ?thesis
    by (simp add: mod_keys_def unat_mod n)
qed

interpretation crc32: key_mapper CRC32Mapper_Map
  by unfold_locales (auto simp: CRC32Mapper_Map_def mod_keys_returns)

interpretation round_robin: key_mapper "RoundRobinMapper_Map off" for off
  by unfold_locales (auto simp: RoundRobinMapper_Map_def rrMap_def mod_keys_returns)

interpretation configured: key_mapper "mapper_Map (Some m)" for m
proof (cases m)
  case CRC32Mapper
  then show "key_mapper (mapper_Map (Some m))"
    using crc32.key_mapper_axioms by (simp add: key_mapper_def)
next
  case (RoundRobinMapper off)
  then show "key_mapper (mapper_Map (Some m))"
    using round_robin.key_mapper_axioms by (simp add: key_mapper_def)
qed

section \<open>What the mappers do\<close>

lemma funpow_8: "(f ^^ 8) x = f (f (f (f (f (f (f (f x)))))))"
  by (simp add: numeral_eq_Suc)

text \<open>The check value of the checksum, which pins the polynomial, the bit order and the masks.\<close>

lemma ChecksumIEEE_check: "ChecksumIEEE (bytes_of_string ''123456789'') = 0xCBF43926"
  by (simp add: ChecksumIEEE_def bytes_of_string_def crc32_byte_def crc32_bit_def crc32_poly_def
      funpow_8)

text \<open>
  Whatever mapper is configured, a request of any sender is mapped to the index of an
  existing key: with at least one key (and fewer than \<open>2^32\<close>) the call returns and the index
  selects a member of the key list.
\<close>

theorem mapper_selects_key:
  assumes "keys \<noteq> []" "length keys < 2 ^ 32" "m \<noteq> None"
  shows "\<exists>i. mapper_Map m s (length keys) = Ret i \<and> i < length keys \<and>
           bind_outcome (mapper_Map m s (length keys)) (slice_get keys) = Ret (keys ! i)"
proof -
  obtain m' where "m = Some m'" using assms(3) by auto
  then show ?thesis
    using assms(1,2) configured.map_key_returns [of "length keys" m' s] by auto
qed

theorem mapper_selects_key_witness:
  "\<exists>i. mapper_Map (Some CRC32Mapper) ''0xab'' (length [''k0'', ''k1'']) = Ret i \<and>
     i < length [''k0'', ''k1'']"
proof -
  have "[''k0'', ''k1''] \<noteq> []" "length [''k0'', ''k1''] < 2 ^ 32" "Some CRC32Mapper \<noteq> None"
    by simp_all
  from mapper_selects_key [OF this, of "''0xab''"] show ?thesis by blast
qed

text \<open>
  With no mapper configured (the configuration names neither \<open>CRC32\<close> nor \<open>RoundRobin\<close>),
  or with no key, the mapping panics instead of returning.
\<close>

theorem mapper_panics:
  "mapper_Map None s n = Panic NilDeref \<and>
   mapper_Map (Some CRC32Mapper) s 0 = Panic DivideByZero \<and>
   mapper_Map (Some (RoundRobinMapper off)) s 0 = Panic DivideByZero"
  by (simp add: CRC32Mapper_Map_def RoundRobinMapper_Map_def rrMap_def mod_keys_def)

text \<open>
  A run of mappings through one interface value, and the sequence a round robin is meant to
  give.
\<close>

definition map_all :: "TxnMapper option \<Rightarrow> string list \<Rightarrow> nat \<Rightarrow> nat outcome list" where
  "map_all m senders n = map (\<lambda>s. mapper_Map m s n) senders"

text \<open>
  The round-robin mapper does not distribute: its receiver is a copy, the offset it
  increments is lost, and every sender of every sequence is mapped to key 0, however many keys
  there are.
\<close>

theorem round_robin_always_first_key:
  assumes "0 < n" "n < 2 ^ 32"
  shows "map_all (Some (RoundRobinMapper 0)) senders n = replicate (length senders) (Ret 0)"
  using assms
  by (induction senders)
     (auto simp: map_all_def RoundRobinMapper_Map_def rrMap_def mod_keys_returns)

theorem round_robin_always_first_key_witness:
  "map_all (Some (RoundRobinMapper 0)) [''a'', ''b'', ''c''] 4 =
     replicate (length [''a'', ''b'', ''c'']) (Ret 0)"
  by (rule round_robin_always_first_key) simp_all

end
