(* ===== verification/TxnError.thy ===== *)
theory TxnError
  imports Prelude
begin

text \<open>
  \<open>account/txnError.go\<close> and the two functions of \<open>account/txnProcessor.go\<close> that read a
  response of the NEAR client: the transaction statuses, the action table, the failure table,
  \<open>isTxnResponseFailure\<close> and \<open>getTxnStatusForFailureType\<close>.
\<close>

section \<open>Statuses and actions\<close>

text \<open>
  The constants of \<open>txnStatus\<close>, and the type's zero value, which no constant names.
\<close>

datatype txnStatus =
    txnStatus_zero
  | txnStatus_Any
  | txnStatus_Reorder
  | txnStatus_NearNonceError
  | txnStatus_NearNonceTooLarge
  | txnStatus_EthNonceError
  | txnStatus_EthNonceTooLow
  | txnStatus_Exhausted
  | txnStatus_UnhandledError
  | txnStatus_NearTimeOutError
  | txnStatus_AuroraContractPanicked
  | txnStatus_TimeOutError1
  | txnStatus_TimeOutError2
  | txnStatus_TimeOutError3

text \<open>
  The numbers \<open>iota\<close> gives them; the string constant in front of the block takes number 0.
\<close>

primrec status_code :: "txnStatus \<Rightarrow> nat" where
  "status_code txnStatus_zero = 0"
| "status_code txnStatus_Any = 1"
| "status_code txnStatus_Reorder = 2"
| "status_code txnStatus_NearNonceError = 3"
| "status_code txnStatus_NearNonceTooLarge = 4"
| "status_code txnStatus_EthNonceError = 5"
| "status_code txnStatus_EthNonceTooLow = 6"
| "status_code txnStatus_Exhausted = 7"
| "status_code txnStatus_UnhandledError = 8"
| "status_code txnStatus_NearTimeOutError = 9"
| "status_code txnStatus_AuroraContractPanicked = 10"
| "status_code txnStatus_TimeOutError1 = 11"
| "status_code txnStatus_TimeOutError2 = 12"
| "status_code txnStatus_TimeOutError3 = 13"

lemma status_code_inj: "status_code a = status_code b \<Longrightarrow> a = b"
  by (cases a; cases b) auto

text \<open>Statuses are integers in the source and are ordered as integers.\<close>

instantiation txnStatus :: linorder
begin

definition less_eq_txnStatus :: "txnStatus \<Rightarrow> txnStatus \<Rightarrow> bool" where
  "less_eq_txnStatus a b \<longleftrightarrow> status_code a \<le> status_code b"

definition less_txnStatus :: "txnStatus \<Rightarrow> txnStatus \<Rightarrow> bool" where
  "less_txnStatus a b \<longleftrightarrow> status_code a < status_code b"

instance
  by standard (auto simp: less_eq_txnStatus_def less_txnStatus_def intro: status_code_inj)

end

definition success_case_for_retransmit :: string where
  "success_case_for_retransmit = ''Success_Retransmit''"

record action =
  retry :: bool
  updateNearCache :: bool
  updateEthCache :: bool
  backoffMs :: int
  action_error :: "error option"

definition make_action :: "int \<Rightarrow> bool \<Rightarrow> bool \<Rightarrow> bool \<Rightarrow> error option \<Rightarrow> action" where
  "make_action backoff re eth near err =
     \<lparr>retry = re, updateNearCache = near, updateEthCache = eth, backoffMs = backoff,
      action_error = err\<rparr>"

text \<open>\<open>statusActions[s]\<close>; a status without an entry gives the zero action.\<close>

fun statusActions :: "txnStatus \<Rightarrow> action" where
  "statusActions txnStatus_zero = make_action 0 False False False None"
| "statusActions txnStatus_Any = make_action 0 False False False None"
| "statusActions txnStatus_UnhandledError =
     make_action 0 False True False (Some ''ERR_INVALID_TXN_RESPONSE'')"
| "statusActions txnStatus_Exhausted =
     make_action 0 False False False (Some ''ERR_ENQUEUE_TXN_R'')"
| "statusActions txnStatus_AuroraContractPanicked = make_action 0 False True False None"
| "statusActions txnStatus_TimeOutError1 =
     make_action 0 False True False (Some ''ERR_TXN_TIMEOUT_1_R'')"
| "statusActions txnStatus_TimeOutError2 =
     make_action 0 False True False (Some ''ERR_TXN_TIMEOUT_2_R'')"
| "statusActions txnStatus_TimeOutError3 =
     make_action 0 False False False (Some ''ERR_TXN_TIMEOUT_3_R'')"
| "statusActions txnStatus_EthNonceError =
     make_action 0 True True False (Some ''ERR_INCORRECT_NONCE'')"
| "statusActions txnStatus_EthNonceTooLow =
     make_action 0 True True False (Some ''ERR_INCORRECT_NONCE_R'')"
| "statusActions txnStatus_NearNonceError =
     make_action 0 True True False (Some ''ERR_INCORRECT_NEAR_NONCE_R'')"
| "statusActions txnStatus_NearNonceTooLarge =
     make_action 0 True True True (Some ''ERR_INCORRECT_NEAR_NONCE_LARGE_R'')"
| "statusActions txnStatus_Reorder =
     make_action 0 True False False (Some ''ERR_TXN_ORDER_R'')"
| "statusActions txnStatus_NearTimeOutError = make_action 0 True False False None"

lemma backoff_zero [simp]: "backoffMs (statusActions s) = 0"
  by (cases s) (auto simp: make_action_def)

lemma near_update_implies_eth_update:
  "updateNearCache (statusActions s) \<Longrightarrow> updateEthCache (statusActions s)"
  by (cases s) (auto simp: make_action_def)

section \<open>The failure table\<close>

record txnFailureMapping =
  fm_fields :: "string list"
  mapped_status :: txnStatus

text \<open>The array has length 6 and two initialised entries; the rest are zero values.\<close>

definition statusMappingArray :: "txnFailureMapping list" where
  "statusMappingArray =
     [\<lparr>fm_fields = [''ActionError'', ''kind'', ''FunctionCallError'', ''ExecutionError'',
                 ''ERR_INCORRECT_NONCE''],
       mapped_status = txnStatus_EthNonceError\<rparr>,
      \<lparr>fm_fields = [''ActionError'', ''kind'', ''FunctionCallError'', ''ExecutionError'', ''*''],
       mapped_status = txnStatus_AuroraContractPanicked\<rparr>]
     @ replicate 4 \<lparr>fm_fields = [], mapped_status = txnStatus_zero\<rparr>"

section \<open>Reading a response\<close>

text \<open>
  \<open>Inl e\<close> is \<open>(false, nil, e)\<close>, \<open>Inr (Some v)\<close> is \<open>(true, v, nil)\<close> and \<open>Inr None\<close> is
  \<open>(false, nil, nil)\<close>.
\<close>

definition isTxnResponseFailure :: "goval \<Rightarrow> (error + goval option) outcome" where
  "isTxnResponseFailure resp =
     bind_outcome (as_map resp) (\<lambda>m.
       case map_of m ''status'' of
         Some status \<Rightarrow>
           bind_outcome (as_map status) (\<lambda>sm.
             case map_of sm ''Failure'' of
               Some val \<Rightarrow> Ret (Inr (Some val))
             | None \<Rightarrow>
                 (case map_of sm ''SuccessValue'' of
                    Some _ \<Rightarrow> Ret (Inr None)
                  | None \<Rightarrow> Ret (Inl ''ERR_INVALID_TXN_RESPONSE'')))
       | None \<Rightarrow> Ret (Inl ''ERR_INVALID_TXN_RESPONSE''))"

text \<open>
  The inner loop of \<open>getTxnStatusForFailureType\<close>: \<open>st\<close> is the entry's status, \<open>rs\<close> the
  value of \<open>returnStatus\<close>, \<open>p\<close> the position in the failure value.
\<close>

fun match_fields :: "txnStatus \<Rightarrow> txnStatus \<Rightarrow> goval \<Rightarrow> string list \<Rightarrow> txnStatus outcome" where
  "match_fields st rs p [] = Ret rs"
| "match_fields st rs p [v] =
     (case p of
        GStr errMsg \<Rightarrow>
          Ret (if v = ''*'' then st else if str_contains errMsg v then st else txnStatus_Any)
      | _ \<Rightarrow> Ret rs)"
| "match_fields st rs p (v # w # vs) =
     bind_outcome (as_map p) (\<lambda>m.
       case map_of m v of
         Some child \<Rightarrow> match_fields st rs child (w # vs)
       | None \<Rightarrow> Ret txnStatus_Any)"

fun scan_mappings :: "txnStatus \<Rightarrow> goval \<Rightarrow> txnFailureMapping list \<Rightarrow> txnStatus outcome" where
  "scan_mappings rs mapFailure [] = Ret rs"
| "scan_mappings rs mapFailure (entry # entries) =
     bind_outcome (match_fields (mapped_status entry) rs mapFailure (fm_fields entry)) (\<lambda>rs'.
       if rs' \<noteq> txnStatus_Any then Ret rs' else scan_mappings rs' mapFailure entries)"

definition getTxnStatusForFailureType :: "goval \<Rightarrow> txnStatus outcome" where
  "getTxnStatusForFailureType mapFailure =
     scan_mappings txnStatus_Any mapFailure statusMappingArray"

section \<open>What they compute\<close>

text \<open>Following a path of field names, with the three ways it can end.\<close>

datatype path_result = Found goval | Missing | NotAMap

fun follow :: "string list \<Rightarrow> goval \<Rightarrow> path_result" where
  "follow [] p = Found p"
| "follow (v # vs) (GMap m) =
     (case map_of m v of Some c \<Rightarrow> follow vs c | None \<Rightarrow> Missing)"
| "follow (v # vs) p = NotAMap"

lemma match_fields_follow:
  "match_fields st rs p (vs @ [v]) =
     (case follow vs p of
        Found q \<Rightarrow> match_fields st rs q [v]
      | Missing \<Rightarrow> Ret txnStatus_Any
      | NotAMap \<Rightarrow> Panic TypeAssertion)"
proof (induction vs arbitrary: p)
  case Nil
  then show ?case by simp
next
  case (Cons u us)
  obtain w ws where ws: "us @ [v] = w # ws" by (cases us) auto
  show ?case
  proof (cases p)
    case (GMap m)
    with Cons ws show ?thesis by (cases "map_of m u") auto
  qed (auto simp: ws)
qed

lemma scan_zero_entries:
  "scan_mappings txnStatus_Any f (replicate n \<lparr>fm_fields = [], mapped_status = st\<rparr>) =
     Ret txnStatus_Any"
  by (induction n) auto

definition execution_error_path :: "string list" where
  "execution_error_path = [''ActionError'', ''kind'', ''FunctionCallError'', ''ExecutionError'']"

text \<open>
  C20. The status of a failed transaction, on every failure value: a string under
  \<open>ActionError/kind/FunctionCallError/ExecutionError\<close> that mentions \<open>ERR_INCORRECT_NONCE\<close> is
  \<open>EthNonceError\<close>, any other string there is \<open>AuroraContractPanicked\<close>, a missing field or a
  non-string there is \<open>Any\<close>; and where a field on the way is present but is not an object, the
  type assertion panics.
\<close>

theorem getTxnStatus_spec:
  "getTxnStatusForFailureType f =
     (case follow execution_error_path f of
        Found (GStr msg) \<Rightarrow>
          Ret (if str_contains msg ''ERR_INCORRECT_NONCE'' then txnStatus_EthNonceError
               else txnStatus_AuroraContractPanicked)
      | Found _ \<Rightarrow> Ret txnStatus_Any
      | Missing \<Rightarrow> Ret txnStatus_Any
      | NotAMap \<Rightarrow> Panic TypeAssertion)"
proof -
  have fm: "fm_fields \<lparr>fm_fields = execution_error_path @ [v], mapped_status = st\<rparr> =
      execution_error_path @ [v]" for v st by simp
  have arr: "statusMappingArray =
      \<lparr>fm_fields = execution_error_path @ [''ERR_INCORRECT_NONCE''],
       mapped_status = txnStatus_EthNonceError\<rparr> #
      \<lparr>fm_fields = execution_error_path @ [''*''],
       mapped_status = txnStatus_AuroraContractPanicked\<rparr> #
      replicate 4 \<lparr>fm_fields = [], mapped_status = txnStatus_zero\<rparr>"
    by (simp add: statusMappingArray_def execution_error_path_def)
  show ?thesis
    unfolding getTxnStatusForFailureType_def arr
    by (simp add: match_fields_follow scan_zero_entries
        split: path_result.split goval.split)
qed

text \<open>
  \<open>isTxnResponseFailure\<close> returns, with a verdict or an error, exactly on responses that
  are an object whose \<open>status\<close>, if it has one, is an object too; on every other value the
  type assertion panics, also where the comment above the function announces an error value.
\<close>

theorem isTxnResponseFailure_returns_iff:
  "(\<exists>r. isTxnResponseFailure resp = Ret r) \<longleftrightarrow>
     (\<exists>m. resp = GMap m \<and>
        (map_of m ''status'' = None \<or> (\<exists>sm. map_of m ''status'' = Some (GMap sm))))"
proof (cases resp)
  case (GMap m)
  show ?thesis
  proof (cases "map_of m ''status''")
    case (Some s)
    with GMap show ?thesis
      by (cases s) (auto simp: isTxnResponseFailure_def split: option.split)
  qed (auto simp: GMap isTxnResponseFailure_def)
qed (auto simp: isTxnResponseFailure_def)

text \<open>A response counts as a success exactly when its status has a success value and no failure.\<close>

theorem isTxnResponseFailure_success_iff:
  "isTxnResponseFailure resp = Ret (Inr None) \<longleftrightarrow>
     (\<exists>m sm v. resp = GMap m \<and> map_of m ''status'' = Some (GMap sm) \<and>
        map_of sm ''Failure'' = None \<and> map_of sm ''SuccessValue'' = Some v)"
proof (cases resp)
  case (GMap m)
  show ?thesis
  proof (cases "map_of m ''status''")
    case (Some s)
    with GMap show ?thesis
      by (cases s) (auto simp: isTxnResponseFailure_def split: option.split)
  qed (auto simp: GMap isTxnResponseFailure_def)
qed (auto simp: isTxnResponseFailure_def)

end
