(* ===== verification/TxnReqResp.thy ===== *)
theory TxnReqResp
  imports TxnError
begin

text \<open>
  \<open>account/txnReqResp.go\<close>: requests, responses, the expiry of a request and the blocking
  \<open>TxnResp.Get\<close>.  The request's response channel (capacity 1) is a component of the
  processor's state, since several goroutines share it; the functions here build what is sent.
\<close>

section \<open>Requests and responses\<close>

text \<open>An address is its 20 bytes, a request id its 16 bytes.\<close>

type_synonym address = "u8 list"

record txnReq =
  processorIndex :: nat
  timestamp :: int
  req_nonce :: u64
  requestId :: "u8 list"
  sender :: address
  rawTxn :: "u8 list"
  hash :: string
  retransmit :: bool

record txnResp =
  status :: txnStatus
  resp :: goval
  err :: "error option"
  resp_ts :: int

definition timeoutSeconds :: int where "timeoutSeconds = 60"

definition timeoutSeconds2 :: int where "timeoutSeconds2 = 2 * timeoutSeconds"

text \<open>\<open>time.Now().After(time.Unix(req.timestamp, 0).Add(time.Second * timeoutSeconds))\<close>\<close>

definition Expired :: "int \<Rightarrow> txnReq \<Rightarrow> bool" where
  "Expired now req \<longleftrightarrow> now > timestamp req * second + second * timeoutSeconds"

text \<open>What \<open>RespondWithStatus\<close> and \<open>Respond\<close> send on the request's channel.\<close>

definition status_response :: "int \<Rightarrow> txnStatus \<Rightarrow> txnResp" where
  "status_response now s =
     \<lparr>status = s, resp = GNil, err = action_error (statusActions s), resp_ts = now\<rparr>"

definition near_response :: "int \<Rightarrow> goval \<Rightarrow> error option \<Rightarrow> txnResp" where
  "near_response now r e = \<lparr>status = txnStatus_Any, resp = r, err = e, resp_ts = now\<rparr>"

definition req_Hash :: "txnReq \<Rightarrow> string" where
  "req_Hash req = hash req"

section \<open>Waiting for a response\<close>

text \<open>
  A \<open>TxnResp\<close>: the embedded response, the \<open>done\<close> channel (capacity 1: whether it holds its
  token) and the flag \<open>received\<close>.
\<close>

record TxnResp =
  cur :: txnResp
  done_token :: bool
  received :: bool

definition new_TxnResp :: TxnResp where
  "new_TxnResp =
     \<lparr>cur = \<lparr>status = txnStatus_Any, resp = GNil, err = None, resp_ts = 0\<rparr>,
      done_token = False, received = False\<rparr>"

definition SetWithStatus :: "int \<Rightarrow> txnStatus \<Rightarrow> TxnResp \<Rightarrow> TxnResp" where
  "SetWithStatus now s r =
     r\<lparr>cur := (cur r)\<lparr>status := s, resp_ts := now, err := action_error (statusActions s)\<rparr>\<rparr>"

definition SetResp :: "txnResp \<Rightarrow> TxnResp \<Rightarrow> TxnResp" where
  "SetResp x r = r\<lparr>cur := x\<rparr>"

text \<open>\<open>Notify\<close> blocks when the token of an earlier \<open>Notify\<close> is still in the channel.\<close>

definition Notify :: "TxnResp \<Rightarrow> TxnResp outcome" where
  "Notify r =
     (if done_token r then Blocked else Ret (r\<lparr>received := True, done_token := True\<rparr>))"

text \<open>
  \<open>Get\<close> chooses between the timer and the \<open>done\<close> channel.  \<open>timer_fires\<close> tells whether the
  \<open>time.After\<close> channel is the case taken; a \<open>Get\<close> whose \<open>done\<close> case is not ready waits.
\<close>

definition Get :: "int \<Rightarrow> bool \<Rightarrow> TxnResp \<Rightarrow> ((goval \<times> error option) \<times> TxnResp) outcome" where
  "Get now timer_fires r =
     (if received r then Ret ((resp (cur r), err (cur r)), r)
      else if timer_fires then
        (let r' = SetWithStatus now txnStatus_TimeOutError2 r
         in Ret ((resp (cur r'), err (cur r')), r'))
      else if done_token r then
        (let r' = r\<lparr>done_token := False\<rparr> in Ret ((resp (cur r'), err (cur r')), r'))
      else Blocked)"

section \<open>What they promise\<close>

lemma Expired_iff: "Expired now req \<longleftrightarrow> now - timestamp req * second > 60 * second"
  by (auto simp: Expired_def timeoutSeconds_def)

lemma Expired_mono: "Expired now req \<Longrightarrow> now \<le> later \<Longrightarrow> Expired later req"
  by (simp add: Expired_def)

text \<open>
  After the response was notified, every \<open>Get\<close> returns at once with the notified result,
  whatever the timer does, and leaves it unchanged: later calls give the same answer.
\<close>

theorem Get_stable_after_Notify:
  assumes "Notify r = Ret r'"
  shows "Get now b r' = Ret ((resp (cur r), err (cur r)), r')"
  using assms by (auto simp: Notify_def Get_def split: if_splits)

theorem Get_stable_after_Notify_witness:
  "Get 5 True (new_TxnResp\<lparr>received := True, done_token := True\<rparr>) =
     Ret ((GNil, None), new_TxnResp\<lparr>received := True, done_token := True\<rparr>)"
  using Get_stable_after_Notify [of new_TxnResp "new_TxnResp\<lparr>received := True, done_token := True\<rparr>"]
  by (simp add: Notify_def new_TxnResp_def)

text \<open>
  A \<open>Get\<close> that timed out is not final: the timeout sets no flag, so when the response
  arrives afterwards (\<open>Set\<close> and \<open>Notify\<close>), the next \<open>Get\<close> returns that response, not the
  timeout the first call reported.
\<close>

theorem Get_not_stable_after_timeout:
  assumes "\<not> received r" "\<not> done_token r"
  shows "\<exists>r1 r2. Get now True r = Ret ((resp (cur r), Some ''ERR_TXN_TIMEOUT_2_R''), r1) \<and>
           Notify (SetResp x r1) = Ret r2 \<and>
           Get later b r2 = Ret ((resp x, err x), r2)"
  using assms
  by (auto simp: Get_def Notify_def SetResp_def SetWithStatus_def make_action_def)

theorem Get_not_stable_after_timeout_witness:
  "\<exists>r1 r2. Get 1 True new_TxnResp = Ret ((GNil, Some ''ERR_TXN_TIMEOUT_2_R''), r1) \<and>
     Notify (SetResp (near_response 2 (GStr ''ok'') None) r1) = Ret r2 \<and>
     Get 3 False r2 = Ret ((GStr ''ok'', None), r2)"
  using Get_not_stable_after_timeout
    [of new_TxnResp 1 "near_response 2 (GStr ''ok'') None" 3 False]
  by (simp add: new_TxnResp_def near_response_def)

end
