(* ===== verification/NonceCache.thy ===== *)
theory NonceCache
  imports TxnReqResp
begin

text \<open>
  The two nonce caches of \<open>account/txnProcessor.go\<close>: \<open>nextNearNonce\<close>,
  \<open>updateNearNonceCache\<close> and \<open>updateEthNonceCache\<close>.  The NEAR client, the engine's response
  types and \<open>common.Address\<close> are not part of the repository: they are the functions of
  \<open>near_api\<close>, an argument of every operation.
\<close>

section \<open>The client the processor calls\<close>

record near_api =
  ViewNonce :: "string \<Rightarrow> error + u64"
  ViewFunction :: "string \<Rightarrow> string \<Rightarrow> u8 list \<Rightarrow> int option \<Rightarrow> error + goval"
  NewQueryResult :: "goval \<Rightarrow> error + goval"
  ToUint256Response :: "goval \<Rightarrow> error + nat"
  Uint64_of :: "nat \<Rightarrow> u64"
  address_Hex :: "address \<Rightarrow> string"
  AccountId :: string
  LatestBlock_Int64 :: "int option"

section \<open>The caches\<close>

record nonceCache =
  nonce :: u64
  updateTime :: int

type_synonym nonce_map = "string \<rightharpoonup> nonceCache"

definition qCap :: nat where "qCap = 100"

definition minNonceUpdateInterval :: int where "minNonceUpdateInterval = 2 * second"

text \<open>
  A call that reads the clock before and after a remote call takes both readings, \<open>now\<close> and
  \<open>later\<close>.
\<close>

definition nextNearNonce ::
  "near_api \<Rightarrow> int \<Rightarrow> nonce_map \<Rightarrow> string \<Rightarrow> (error + u64) \<times> nonce_map" where
  "nextNearNonce api now cache key =
     (case cache key of
        None \<Rightarrow>
          (case ViewNonce api key of
             Inl e \<Rightarrow> (Inl e, cache)
           | Inr n \<Rightarrow>
               (let nc = \<lparr>nonce = n + 1, updateTime = now - minNonceUpdateInterval\<rparr>
                in (Inr (nonce nc), cache(key \<mapsto> nc))))
      | Some nc \<Rightarrow>
          (let nc' = nc\<lparr>nonce := nonce nc + 1\<rparr> in (Inr (nonce nc'), cache(key \<mapsto> nc'))))"

text \<open>The guard both refreshes start with, and the entry they make on a miss.\<close>

definition too_recent :: "int \<Rightarrow> nonceCache \<Rightarrow> bool" where
  "too_recent now nc \<longleftrightarrow> now < updateTime nc + minNonceUpdateInterval"

definition recently_updated :: "int \<Rightarrow> nonce_map \<Rightarrow> string \<Rightarrow> bool" where
  "recently_updated now cache key =
     (case cache key of Some nc \<Rightarrow> too_recent now nc | None \<Rightarrow> False)"

definition fresh_entry :: "int \<Rightarrow> nonceCache" where
  "fresh_entry now = \<lparr>nonce = 0, updateTime = now - minNonceUpdateInterval\<rparr>"

definition ensure_entry :: "int \<Rightarrow> nonce_map \<Rightarrow> string \<Rightarrow> nonce_map" where
  "ensure_entry now cache key =
     (case cache key of None \<Rightarrow> cache(key \<mapsto> fresh_entry now) | Some _ \<Rightarrow> cache)"

definition updateNearNonceCache ::
  "near_api \<Rightarrow> int \<Rightarrow> int \<Rightarrow> nonce_map \<Rightarrow> string \<Rightarrow> error option \<times> nonce_map" where
  "updateNearNonceCache api now later cache key =
     (if recently_updated now cache key then (None, cache)
      else
        (let cache' = ensure_entry now cache key
         in case ViewNonce api key of
              Inr n \<Rightarrow> (None, cache'(key \<mapsto> \<lparr>nonce = n + of_nat qCap, updateTime = later\<rparr>))
            | Inl e \<Rightarrow> (Some e, cache')))"

text \<open>The remote half of \<open>updateEthNonceCache\<close>: three calls, each with its error return.\<close>

definition fetchEthNonce :: "near_api \<Rightarrow> address \<Rightarrow> error + u64" where
  "fetchEthNonce api addr =
     (case ViewFunction api (AccountId api) ''get_nonce'' addr (LatestBlock_Int64 api) of
        Inl e \<Rightarrow> Inl e
      | Inr r \<Rightarrow>
          (case NewQueryResult api r of
             Inl e \<Rightarrow> Inl e
           | Inr engineResp \<Rightarrow>
               (case ToUint256Response api engineResp of
                  Inl e \<Rightarrow> Inl e
                | Inr n \<Rightarrow> Inr (Uint64_of api n))))"

definition updateEthNonceCache ::
  "near_api \<Rightarrow> int \<Rightarrow> int \<Rightarrow> nonce_map \<Rightarrow> address \<Rightarrow> (bool \<times> error option) \<times> nonce_map" where
  "updateEthNonceCache api now later cache addr =
     (let key = address_Hex api addr
      in if recently_updated now cache key then ((False, None), cache)
         else
           (let cache' = ensure_entry now cache key
            in case fetchEthNonce api addr of
                 Inl e \<Rightarrow> ((False, Some e), cache')
               | Inr n \<Rightarrow> ((True, None), cache'(key \<mapsto> \<lparr>nonce = n, updateTime = later\<rparr>))))"

lemmas cache_defs = nextNearNonce_def updateNearNonceCache_def updateEthNonceCache_def
  ensure_entry_def fresh_entry_def recently_updated_def too_recent_def Let_def

section \<open>The contract of a rate-limited refresh\<close>

text \<open>
  What the two refreshes share, for a fixed key: \<open>refresh now later\<close> maps caches to caches,
  \<open>writes now\<close> tells whether it stores a fetched nonce.
\<close>

locale rate_limited_refresh =
  fixes refresh :: "int \<Rightarrow> int \<Rightarrow> nonce_map \<Rightarrow> nonce_map"
    and writes :: "int \<Rightarrow> nonce_map \<Rightarrow> bool"
    and key :: string
  assumes other_keys: "k \<noteq> key \<Longrightarrow> refresh now later c k = c k"
    and entry_made: "refresh now later c key \<noteq> None"
    and written_time: "writes now c \<Longrightarrow> map_option updateTime (refresh now later c key) = Some later"
    and not_written: "\<not> writes now c \<Longrightarrow> c key = Some nc \<Longrightarrow> refresh now later c key = Some nc"
    and writes_spaced: "writes now c \<Longrightarrow> c key = Some nc \<Longrightarrow> \<not> too_recent now nc"

text \<open>The readings of the clock at which a sequence of refreshes stored a nonce.\<close>

fun write_log ::
  "(int \<Rightarrow> int \<Rightarrow> nonce_map \<Rightarrow> nonce_map) \<Rightarrow> (int \<Rightarrow> nonce_map \<Rightarrow> bool) \<Rightarrow> nonce_map \<Rightarrow>
     (int \<times> int) list \<Rightarrow> (int \<times> int) list" where
  "write_log refresh writes c [] = []"
| "write_log refresh writes c ((now, later) # ts) =
     (if writes now c then [(now, later)] else []) @
     write_log refresh writes (refresh now later c) ts"

definition spaced :: "int \<times> int \<Rightarrow> int \<times> int \<Rightarrow> bool" where
  "spaced a b \<longleftrightarrow> snd a + minNonceUpdateInterval \<le> fst b"

context rate_limited_refresh
begin

lemma write_log_after:
  assumes "map_option updateTime (c key) = Some t"
  shows "successively spaced ((t0, t) # write_log refresh writes c ts)"
  using assms
proof (induction ts arbitrary: c t0 t)
  case Nil
  then show ?case by simp
next
  case (Cons a ts)
  obtain now later where a: "a = (now, later)" by (cases a)
  obtain nc where nc: "c key = Some nc" "updateTime nc = t"
    using Cons.prems by auto
  show ?case
  proof (cases "writes now c")
    case True
    then have "successively spaced ((now, later) # write_log refresh writes (refresh now later c) ts)"
      using Cons.IH written_time by blast
    moreover have "spaced (t0, t) (now, later)"
      using writes_spaced [OF True nc(1)] nc(2) by (simp add: spaced_def too_recent_def)
    ultimately show ?thesis using True by (simp add: a)
  next
    case False
    then have "refresh now later c key = Some nc"
      using not_written nc(1) by blast
    with False nc(2) show ?thesis
      using Cons.IH by (simp add: a)
  qed
qed

lemma writes_spaced_in_log: "successively spaced (write_log refresh writes c ts)"
proof (induction ts arbitrary: c)
  case Nil
  then show ?case by simp
next
  case (Cons a ts)
  obtain now later where a: "a = (now, later)" by (cases a)
  show ?case
  proof (cases "writes now c")
    case True
    then show ?thesis
      using write_log_after written_time by (simp add: a)
  next
    case False
    then show ?thesis using Cons by (simp add: a)
  qed
qed

end

definition eth_refresh :: "near_api \<Rightarrow> address \<Rightarrow> int \<Rightarrow> int \<Rightarrow> nonce_map \<Rightarrow> nonce_map" where
  "eth_refresh api addr now later c = snd (updateEthNonceCache api now later c addr)"

definition eth_writes :: "near_api \<Rightarrow> address \<Rightarrow> int \<Rightarrow> nonce_map \<Rightarrow> bool" where
  "eth_writes api addr now c = fst (fst (updateEthNonceCache api now now c addr))"

definition near_refresh :: "near_api \<Rightarrow> string \<Rightarrow> int \<Rightarrow> int \<Rightarrow> nonce_map \<Rightarrow> nonce_map" where
  "near_refresh api key now later c = snd (updateNearNonceCache api now later c key)"

definition near_writes :: "near_api \<Rightarrow> string \<Rightarrow> int \<Rightarrow> nonce_map \<Rightarrow> bool" where
  "near_writes api key now c \<longleftrightarrow>
     \<not> recently_updated now c key \<and> (\<exists>n. ViewNonce api key = Inr n)"

interpretation eth_cache: rate_limited_refresh
  "eth_refresh api addr" "eth_writes api addr" "address_Hex api addr" for api addr
  by unfold_locales
     (auto simp: eth_refresh_def eth_writes_def cache_defs split: option.splits sum.splits if_splits)

interpretation near_cache: rate_limited_refresh
  "near_refresh api key" "near_writes api key" key for api key
  by unfold_locales
     (auto simp: near_refresh_def near_writes_def cache_defs split: option.splits sum.splits if_splits)

section \<open>Case analysis\<close>

lemma updateEth_cases:
  obtains (recent) "recently_updated now c (address_Hex api addr)"
      "updateEthNonceCache api now later c addr = ((False, None), c)"
  | (failed) e where "\<not> recently_updated now c (address_Hex api addr)"
      "fetchEthNonce api addr = Inl e"
      "updateEthNonceCache api now later c addr =
         ((False, Some e), ensure_entry now c (address_Hex api addr))"
  | (stored) n where "\<not> recently_updated now c (address_Hex api addr)"
      "fetchEthNonce api addr = Inr n"
      "updateEthNonceCache api now later c addr =
         ((True, None), c(address_Hex api addr \<mapsto> \<lparr>nonce = n, updateTime = later\<rparr>))"
proof (cases "recently_updated now c (address_Hex api addr)")
  case True
  with recent show ?thesis by (simp add: updateEthNonceCache_def Let_def)
next
  case False
  have upd: "(ensure_entry now c key)(key \<mapsto> v) = c(key \<mapsto> v)" for key v
    by (auto simp: ensure_entry_def fun_eq_iff split: option.split)
  show ?thesis
  proof (cases "fetchEthNonce api addr")
    case (Inl e)
    with False failed show ?thesis by (simp add: updateEthNonceCache_def Let_def)
  next
    case (Inr n)
    with False stored show ?thesis by (simp add: updateEthNonceCache_def Let_def upd)
  qed
qed

lemma ensure_entry_le: "c \<subseteq>\<^sub>m ensure_entry now c key"
  and ensure_entry_other: "k \<noteq> key \<Longrightarrow> ensure_entry now c key k = c k"
  and ensure_entry_made: "ensure_entry now c key key \<noteq> None"
  by (auto simp: ensure_entry_def map_le_def split: option.split)

lemma recently_updated_cached: "recently_updated now c key \<Longrightarrow> c key \<noteq> None"
  by (simp add: recently_updated_def split: option.splits)

section \<open>What the caches promise\<close>

text \<open>A run of \<open>nextNearNonce\<close> for one key, at the given times.\<close>

fun near_nonces :: "near_api \<Rightarrow> nonce_map \<Rightarrow> string \<Rightarrow> int list \<Rightarrow> (error + u64) list" where
  "near_nonces api cache key [] = []"
| "near_nonces api cache key (now # clocks) =
     (let (r, cache') = nextNearNonce api now cache key
      in r # near_nonces api cache' key clocks)"

lemma near_nonces_cached:
  "cache key = Some nc \<Longrightarrow>
     near_nonces api cache key clocks =
       map (\<lambda>i. Inr (nonce nc + 1 + of_nat i)) [0..<length clocks]"
proof (induction clocks arbitrary: cache nc)
  case Nil
  then show ?case by simp
next
  case (Cons now clocks)
  have "near_nonces api (cache(key \<mapsto> nc\<lparr>nonce := nonce nc + 1\<rparr>)) key clocks =
      map (\<lambda>i. Inr (nonce nc + 1 + 1 + of_nat i)) [0..<length clocks]"
    using Cons.IH by simp
  then show ?case
    using Cons.prems
    by (simp add: nextNearNonce_def upt_conv_Cons map_Suc_upt [symmetric] algebra_simps
        del: upt_Suc)
qed

lemma near_nonces_fresh:
  assumes "cache key = None" "ViewNonce api key = Inr n"
  shows "near_nonces api cache key clocks = map (\<lambda>i. Inr (n + 1 + of_nat i)) [0..<length clocks]"
proof (cases clocks)
  case (Cons now rest)
  let ?nc = "\<lparr>nonce = n + 1, updateTime = now - minNonceUpdateInterval\<rparr>"
  have "near_nonces api (cache(key \<mapsto> ?nc)) key rest =
      map (\<lambda>i. Inr (n + 1 + 1 + of_nat i)) [0..<length rest]"
    using near_nonces_cached [of "cache(key \<mapsto> ?nc)" key ?nc] by simp
  then show ?thesis
    using assms Cons
    by (simp add: nextNearNonce_def upt_conv_Cons map_Suc_upt [symmetric] algebra_simps
        del: upt_Suc)
qed simp

lemma word_offsets_distinct:
  assumes "k \<le> 2 ^ 64"
  shows "distinct (map (\<lambda>i. n + of_nat i :: u64) [0..<k])"
proof -
  have "inj_on (\<lambda>i. n + of_nat i :: u64) {0..<k}"
  proof (rule inj_onI)
    fix i j assume "i \<in> {0..<k}" "j \<in> {0..<k}" "n + of_nat i = (n + of_nat j :: u64)"
    then have "unat (of_nat i :: u64) = unat (of_nat j :: u64)" "i < 2 ^ 64" "j < 2 ^ 64"
      using assms by auto
    then show "i = j" by (simp add: unat_of_nat)
  qed
  then show ?thesis by (simp add: distinct_map)
qed

text \<open>
  C12. As long as no refresh intervenes, the access-key nonces handed out for one key are consecutive
  and start right after the cached nonce or, when the key is not cached yet, right after the nonce
  the network reports at the first use; none is handed out twice (for as many calls as there are
  64-bit nonces).  A refresh moves the cached nonce, so nothing is said across one.
\<close>

theorem near_nonces_consecutive:
  assumes "case cache key of Some nc \<Rightarrow> n = nonce nc | None \<Rightarrow> ViewNonce api key = Inr n"
    and "length clocks \<le> 2 ^ 64"
  shows "near_nonces api cache key clocks = map (\<lambda>i. Inr (n + 1 + of_nat i)) [0..<length clocks] \<and>
    distinct (near_nonces api cache key clocks)"
proof -
  have "distinct (map (\<lambda>i. (Inr (n + 1 + of_nat i) :: error + u64)) [0..<length clocks])"
    using word_offsets_distinct [OF assms(2), of "n + 1"] by (auto simp: distinct_map inj_on_def)
  with assms(1) near_nonces_fresh [of cache key api n] near_nonces_cached [of cache key] show ?thesis
    by (cases "cache key") simp_all
qed

definition demo_api :: near_api where
  "demo_api =
     \<lparr>ViewNonce = (\<lambda>k. if k = ''down'' then Inl ''timeout'' else Inr 41),
      ViewFunction = (\<lambda>_ _ _ _. Inr (GNum 7)),
      NewQueryResult = Inr,
      ToUint256Response = (\<lambda>v. case v of GNum n \<Rightarrow> Inr (nat n) | _ \<Rightarrow> Inl ''not a number''),
      Uint64_of = of_nat,
      address_Hex = string_of_bytes,
      AccountId = ''aurora'',
      LatestBlock_Int64 = None\<rparr>"

theorem near_nonces_consecutive_witness:
  "near_nonces demo_api Map.empty ''key'' [5, 6, 9] =
     map (\<lambda>i. Inr (41 + 1 + of_nat i)) [0..<length [5 :: int, 6, 9]]"
proof -
  have "case Map.empty ''key'' of Some nc \<Rightarrow> 41 = nonce nc | None \<Rightarrow> ViewNonce demo_api ''key'' = Inr 41"
    and "length [5 :: int, 6, 9] \<le> 2 ^ 64"
    by (simp_all add: demo_api_def)
  from near_nonces_consecutive [OF this] show ?thesis by blast
qed

text \<open>
  C14. Refreshes are rate limited, for both caches: in any sequence of refreshes of one entry,
  two nonces are never stored less than two seconds apart.
\<close>

theorem cache_refreshes_spaced:
  "successively spaced (write_log (eth_refresh api addr) (eth_writes api addr) c clocks) \<and>
   successively spaced (write_log (near_refresh api key) (near_writes api key) c clocks)"
  by (simp add: eth_cache.writes_spaced_in_log near_cache.writes_spaced_in_log)

text \<open>
  \<open>updateEthNonceCache\<close> on every path: it reports an update exactly when it stored the
  fetched nonce with the new time; \<open>(false, nil)\<close> means the entry was too recent and the cache
  is untouched; an error leaves every existing entry alone; and no other entry ever changes.
\<close>

theorem updateEthNonceCache_spec:
  assumes "updateEthNonceCache api now later c addr = ((updated, e), c')"
  shows "(updated \<longleftrightarrow> (\<exists>n. fetchEthNonce api addr = Inr n \<and>
             \<not> recently_updated now c (address_Hex api addr) \<and>
             c' = c(address_Hex api addr \<mapsto> \<lparr>nonce = n, updateTime = later\<rparr>))) \<and>
    (\<not> updated \<and> e = None \<longleftrightarrow> recently_updated now c (address_Hex api addr)) \<and>
    (\<not> updated \<longrightarrow> c \<subseteq>\<^sub>m c') \<and>
    (\<forall>k. k \<noteq> address_Hex api addr \<longrightarrow> c' k = c k) \<and>
    (c' (address_Hex api addr) \<noteq> None)"
proof (cases rule: updateEth_cases [of now c api addr later])
  case recent
  with assms show ?thesis by (simp add: recently_updated_cached)
next
  case failed
  with assms have "\<not> updated" "e \<noteq> None" "c' = ensure_entry now c (address_Hex api addr)"
    by auto
  moreover have "fetchEthNonce api addr \<noteq> Inr n" for n using failed by simp
  ultimately show ?thesis
    using failed(1) ensure_entry_le ensure_entry_other ensure_entry_made by simp
next
  case stored
  with assms show ?thesis by auto
qed

theorem updateEthNonceCache_spec_witness:
  "updateEthNonceCache demo_api 10 11 Map.empty [] =
     ((True, None), [[] \<mapsto> \<lparr>nonce = 7, updateTime = 11\<rparr>]) \<and>
   [[] \<mapsto> \<lparr>nonce = 7, updateTime = 11\<rparr>] (address_Hex demo_api []) \<noteq> None"
proof -
  have upd: "updateEthNonceCache demo_api 10 11 Map.empty [] =
     ((True, None), [[] \<mapsto> \<lparr>nonce = 7, updateTime = 11\<rparr>])"
    by (simp add: demo_api_def cache_defs fetchEthNonce_def string_of_bytes_def)
  from updateEthNonceCache_spec [OF upd]
  have "[[] \<mapsto> \<lparr>nonce = 7, updateTime = 11\<rparr>] (address_Hex demo_api []) \<noteq> None"
    by (elim conjE)
  with upd show ?thesis by (rule conjI)
qed

text \<open>
  A refresh of a key that is not cached and whose remote call fails leaves an entry with
  nonce 0 behind, and the next \<open>nextNearNonce\<close> hands out nonce 1 from it without asking the
  network.
\<close>

theorem failed_refresh_invents_nonce:
  assumes "cache key = None" "ViewNonce api key = Inl e"
  shows "\<exists>cache'. updateNearNonceCache api now later cache key = (Some e, cache') \<and>
           fst (nextNearNonce api t cache' key) = Inr 1 \<and>
           fst (nextNearNonce api t cache key) = Inl e"
  using assms by (simp add: cache_defs)

theorem failed_refresh_invents_nonce_witness:
  "\<exists>cache'. updateNearNonceCache demo_api 0 1 Map.empty ''down'' = (Some ''timeout'', cache') \<and>
     fst (nextNearNonce demo_api 2 cache' ''down'') = Inr 1"
  using failed_refresh_invents_nonce [of Map.empty "''down''" demo_api "''timeout''" 0 1 2]
  by (auto simp: demo_api_def)

end
