(* ===== verification/TxnProcessor.thy ===== *)
theory TxnProcessor
  imports TxnQueue TxnMapper NonceCache
begin

text \<open>
  \<open>account/txnProcessor.go\<close>: the transaction processor.  Its state holds the queues, the
  caches, the locks and the circuit breakers, one per access key, and everything its
  goroutines share through pointers: requests live in a store (\<open>reqs\<close>) and the queues, the
  pending timers and the running sends hold their addresses; \<open>respChan\<close> gives the content of
  each request's response channel, which has capacity 1.  Logging is left out.
\<close>

section \<open>State\<close>

type_synonym ptr = nat

record proc =
  mapper :: "TxnMapper option"
  keys :: "string list"
  ethNonceCache :: nonce_map
  nearNonceCache :: nonce_map
  retryMutex :: "bool list"
  circuitBreaker :: "bool list"
  ordered :: "ptr txnq list"
  unordered :: "ptr txnq list"
  reqs :: "ptr \<Rightarrow> txnReq"
  respChan :: "ptr \<Rightarrow> txnResp list"
  timers :: "(ptr \<times> int) list"
  sends :: "(ptr \<times> string \<times> u64) list"

text \<open>The fields of \<open>endpoint.EngineConfig\<close> the processor and the account read.\<close>

record EngineConfig =
  FunctionKeyMapper :: string
  MinGasPrice :: int
  MinGasLimit :: u64
  AsyncSendRawTxs :: bool
  NearNetworkID :: string
  NearNodeURL :: string
  NearArchivalNodeURL :: string
  Signer :: string
  SignerKey :: string
  FunctionKeyPrefixPattern :: string

definition add_key_state :: "proc \<Rightarrow> proc" where
  "add_key_state tp =
     tp\<lparr>unordered := unordered tp @ [NewTxnQ qCap],
        ordered := ordered tp @ [NewTxnQ qCap],
        retryMutex := retryMutex tp @ [False],
        circuitBreaker := circuitBreaker tp @ [False]\<rparr>"

definition select_mapper :: "string \<Rightarrow> TxnMapper option" where
  "select_mapper name =
     (if name = ''CRC32'' then Some CRC32Mapper
      else if name = ''RoundRobin'' then Some (RoundRobinMapper 0)
      else None)"

text \<open>\<open>ks\<close> are the archival account's verified access keys.\<close>

definition NewTxnProcessor :: "EngineConfig \<Rightarrow> string list \<Rightarrow> proc" where
  "NewTxnProcessor config ks =
     fold (\<lambda>_. add_key_state) ks
       \<lparr>mapper = select_mapper (FunctionKeyMapper config), keys = ks,
        ethNonceCache = Map.empty, nearNonceCache = Map.empty,
        retryMutex = [], circuitBreaker = [], ordered = [], unordered = [],
        reqs = (\<lambda>_. \<lparr>processorIndex = 0, timestamp = 0, req_nonce = 0, requestId = [],
                     sender = [], rawTxn = [], hash = [], retransmit = False\<rparr>),
        respChan = (\<lambda>_. []), timers = [], sends = []\<rparr>"

section \<open>New requests\<close>

text \<open>
  go-ethereum's transaction decoder and signer, Keccak and the UUID generator: libraries the
  source calls, for an unspecified type of decoded transactions.
\<close>

record 'tx eth_api =
  UnmarshalBinary :: "u8 list \<Rightarrow> error + 'tx"
  tx_Sender :: "'tx \<Rightarrow> error + u8 list"
  tx_GasPrice :: "'tx \<Rightarrow> int"
  tx_Gas :: "'tx \<Rightarrow> u64"
  tx_Nonce :: "'tx \<Rightarrow> u64"
  BytesToAddress :: "u8 list \<Rightarrow> address"
  CalculateKeccak256 :: "u8 list \<Rightarrow> string"

definition NewTxnReq ::
  "near_api \<Rightarrow> 'tx eth_api \<Rightarrow> EngineConfig \<Rightarrow> proc \<Rightarrow> int \<Rightarrow> u8 list \<Rightarrow> u8 list \<Rightarrow> (error + txnReq) outcome"
  where
  "NewTxnReq api eth config tp now uuid raw =
     (case UnmarshalBinary eth raw of
        Inl e \<Rightarrow> Ret (Inl (''failed to decode transaction, err: ['' @ e @ '']''))
      | Inr tx \<Rightarrow>
          (case tx_Sender eth tx of
             Inl e \<Rightarrow> Ret (Inl (''failed to extract transaction sender, err: ['' @ e @ '']''))
           | Inr addr \<Rightarrow>
               (let sndr = BytesToAddress eth addr
                in if tx_GasPrice eth tx < MinGasPrice config then Ret (Inl ''gas price too low'')
                   else if tx_Gas eth tx < MinGasLimit config
                     then Ret (Inl ''intrinsic gas too low'')
                   else
                     bind_outcome (mapper_Map (mapper tp) (address_Hex api sndr) (length (keys tp)))
                       (\<lambda>idx. Ret (Inr
                          \<lparr>processorIndex = idx, timestamp = now div second,
                           req_nonce = tx_Nonce eth tx, requestId = uuid, sender = sndr,
                           rawTxn = raw, hash = CalculateKeccak256 eth raw,
                           retransmit = False\<rparr>)))))"

section \<open>Channels and queues\<close>

text \<open>\<open>req.respChan <- r\<close>\<close>

definition respond :: "proc \<Rightarrow> ptr \<Rightarrow> txnResp \<Rightarrow> proc outcome" where
  "respond tp p r =
     (if respChan tp p = [] then Ret (tp\<lparr>respChan := (respChan tp)(p := [r])\<rparr>) else Blocked)"

definition RespondWithStatus :: "int \<Rightarrow> proc \<Rightarrow> ptr \<Rightarrow> txnStatus \<Rightarrow> proc outcome" where
  "RespondWithStatus now tp p s = respond tp p (status_response now s)"

definition enqueue_ordered :: "proc \<Rightarrow> ptr \<Rightarrow> proc outcome" where
  "enqueue_ordered tp p =
     (let i = processorIndex (reqs tp p)
      in bind_outcome (slice_get (ordered tp) i) (\<lambda>tq.
         bind_outcome (Enqueue tq p) (\<lambda>tq'.
         Ret (tp\<lparr>ordered := (ordered tp)[i := tq']\<rparr>))))"

definition try_enqueue_unordered :: "proc \<Rightarrow> ptr \<Rightarrow> (bool \<times> proc) outcome" where
  "try_enqueue_unordered tp p =
     (let i = processorIndex (reqs tp p)
      in bind_outcome (slice_get (unordered tp) i) (\<lambda>tq.
         bind_outcome (TryEnqueue tq p) (\<lambda>(ok, tq').
         Ret (ok, tp\<lparr>unordered := (unordered tp)[i := tq']\<rparr>))))"

definition enqueue_unordered :: "proc \<Rightarrow> ptr \<Rightarrow> proc outcome" where
  "enqueue_unordered tp p =
     (let i = processorIndex (reqs tp p)
      in bind_outcome (slice_get (unordered tp) i) (\<lambda>tq.
         bind_outcome (Enqueue tq p) (\<lambda>tq'.
         Ret (tp\<lparr>unordered := (unordered tp)[i := tq']\<rparr>))))"

text \<open>The key under which the sender's nonce is cached.\<close>

definition sender_key :: "near_api \<Rightarrow> txnReq \<Rightarrow> string" where
  "sender_key api req = address_Hex api (sender req)"

section \<open>sort\<close>

text \<open>
  \<open>sort\<close> runs under \<open>retryMutex\<close>.  It first decides what happens to the request (and moves
  the cached nonce), then does it; the decision is a function of its own because the push into
  the ordered queue can block between the two.
\<close>

datatype sort_action = SortRespond txnStatus | SortForward | SortDefer

definition sort_decide :: "near_api \<Rightarrow> int \<Rightarrow> proc \<Rightarrow> ptr \<Rightarrow> sort_action \<times> proc" where
  "sort_decide api now tp p =
     (let req = reqs tp p; key = sender_key api req
      in if Expired now req then (SortRespond txnStatus_TimeOutError3, tp)
         else
           (case ethNonceCache tp key of
              None \<Rightarrow>
                (SortForward,
                 tp\<lparr>ethNonceCache := (ethNonceCache tp)
                      (key \<mapsto> \<lparr>nonce = req_nonce req + 1,
                               updateTime = now - minNonceUpdateInterval\<rparr>)\<rparr>)
            | Some nc \<Rightarrow>
                if nonce nc = req_nonce req then
                  (SortForward,
                   tp\<lparr>ethNonceCache := (ethNonceCache tp)(key \<mapsto> nc\<lparr>nonce := nonce nc + 1\<rparr>)\<rparr>)
                else if retransmit req then (SortForward, tp)
                else if nonce nc > req_nonce req
                  then (SortRespond txnStatus_EthNonceTooLow, tp)
                else (SortDefer, tp)))"

text \<open>
  A deferred request gets a timer (100 ms), and the refresh of the sender's cached nonce is
  triggered, its result ignored.
\<close>

definition enqueueWait :: int where "enqueueWait = 100 * millisecond"

definition sort_defer :: "near_api \<Rightarrow> int \<Rightarrow> int \<Rightarrow> proc \<Rightarrow> ptr \<Rightarrow> proc" where
  "sort_defer api now later tp p =
     tp\<lparr>timers := timers tp @ [(p, now + enqueueWait)],
        ethNonceCache :=
          snd (updateEthNonceCache api now later (ethNonceCache tp) (sender (reqs tp p)))\<rparr>"

definition sort_finish ::
  "near_api \<Rightarrow> int \<Rightarrow> int \<Rightarrow> sort_action \<Rightarrow> proc \<Rightarrow> ptr \<Rightarrow> proc outcome" where
  "sort_finish api now later act tp p =
     (case act of
        SortRespond s \<Rightarrow> RespondWithStatus now tp p s
      | SortForward \<Rightarrow> enqueue_ordered tp p
      | SortDefer \<Rightarrow> Ret (sort_defer api now later tp p))"

definition sort_txn :: "near_api \<Rightarrow> int \<Rightarrow> int \<Rightarrow> proc \<Rightarrow> ptr \<Rightarrow> proc outcome" where
  "sort_txn api now later tp p =
     bind_outcome (slice_get (retryMutex tp) (processorIndex (reqs tp p))) (\<lambda>locked.
       if locked then Blocked
       else (let (act, tp') = sort_decide api now tp p in sort_finish api now later act tp' p))"

text \<open>The function of the timer that \<open>sort\<close> starts.\<close>

definition timer_fire :: "int \<Rightarrow> proc \<Rightarrow> ptr \<Rightarrow> proc outcome" where
  "timer_fire now tp p =
     bind_outcome (try_enqueue_unordered tp p) (\<lambda>(ok, tp').
       if ok then Ret tp' else RespondWithStatus now tp' p txnStatus_Exhausted)"

section \<open>send\<close>

text \<open>
  A request that gets an access-key nonce is handed to a goroutine of its own; \<open>sends\<close> lists
  those goroutines, and \<open>send_reply\<close> is the end of one.
\<close>

definition send_txn :: "near_api \<Rightarrow> int \<Rightarrow> proc \<Rightarrow> ptr \<Rightarrow> proc outcome" where
  "send_txn api now tp p =
     (let req = reqs tp p; i = processorIndex req
      in bind_outcome (slice_get (circuitBreaker tp) i) (\<lambda>cb.
         if cb then RespondWithStatus now tp p txnStatus_Reorder
         else if Expired now req then RespondWithStatus now tp p txnStatus_TimeOutError3
         else
           bind_outcome (slice_get (keys tp) i) (\<lambda>key.
             case nextNearNonce api now (nearNonceCache tp) key of
               (Inl e, c) \<Rightarrow>
                 RespondWithStatus now (tp\<lparr>nearNonceCache := c\<rparr>) p txnStatus_NearNonceError
             | (Inr n, c) \<Rightarrow>
                 Ret (tp\<lparr>nearNonceCache := c, sends := sends tp @ [(p, key, n)]\<rparr>))))"

definition send_reply :: "int \<Rightarrow> proc \<Rightarrow> ptr \<Rightarrow> goval \<Rightarrow> error option \<Rightarrow> proc outcome" where
  "send_reply now tp p r e = respond tp p (near_response now r e)"

section \<open>eval\<close>

text \<open>
  \<open>eval\<close> has three parts: it classifies the response, runs the action of the resulting status
  (under the lock and with the circuit breaker on, where the action needs them), and decides
  whether the request is retried.
\<close>

datatype verdict = Succeeded | Evaluated bool txnStatus

text \<open>
  Lines 261 to 301: \<open>Succeeded\<close> is the early \<open>return false\<close>; otherwise the new values of
  \<open>req.retransmit\<close> and \<open>resp.status\<close>.
\<close>

definition classify :: "bool \<Rightarrow> txnResp \<Rightarrow> verdict outcome" where
  "classify retrans r =
     (case err r of
        None \<Rightarrow>
          bind_outcome (isTxnResponseFailure (resp r)) (\<lambda>res.
            case res of
              Inl _ \<Rightarrow> Ret (Evaluated retrans txnStatus_UnhandledError)
            | Inr (Some mapFailure) \<Rightarrow>
                bind_outcome (getTxnStatusForFailureType mapFailure) (\<lambda>s. Ret (Evaluated retrans s))
            | Inr None \<Rightarrow> Ret Succeeded)
      | Some msg \<Rightarrow>
          if status r = txnStatus_NearNonceError then Ret (Evaluated True (status r))
          else if status r \<noteq> txnStatus_Any then Ret (Evaluated retrans (status r))
          else if str_contains msg ''InvalidNonce:map''
            then Ret (Evaluated retrans txnStatus_NearNonceError)
          else if str_contains msg ''NonceTooLarge''
            then Ret (Evaluated retrans txnStatus_NearNonceTooLarge)
          else if str_contains msg ''Server error: Timeout''
            then Ret (Evaluated True txnStatus_NearTimeOutError)
          else Ret (Evaluated retrans txnStatus_UnhandledError))"

definition needs_lock :: "action \<Rightarrow> bool" where
  "needs_lock act \<longleftrightarrow> updateNearCache act \<or> updateEthCache act \<or> backoffMs act \<noteq> 0"

definition set_retransmit :: "bool \<Rightarrow> proc \<Rightarrow> ptr \<Rightarrow> proc" where
  "set_retransmit b tp p = tp\<lparr>reqs := (reqs tp)(p := (reqs tp p)\<lparr>retransmit := b\<rparr>)\<rparr>"

text \<open>
  The last lines (339 to 343): the sleep before the result, of no effect on the state.
\<close>

definition eval_tail :: "action \<Rightarrow> txnResp \<Rightarrow> proc \<Rightarrow> (bool \<times> txnResp \<times> proc) outcome" where
  "eval_tail act r tp = Ret (retry act, r, tp)"

definition eval_eth ::
  "near_api \<Rightarrow> int \<Rightarrow> int \<Rightarrow> proc \<Rightarrow> ptr \<Rightarrow> txnResp \<Rightarrow> (bool \<times> txnResp \<times> proc) outcome" where
  "eval_eth api now later tp p r =
     (let req = reqs tp p;
          ((updated, e), c) = updateEthNonceCache api now later (ethNonceCache tp) (sender req);
          tp' = tp\<lparr>ethNonceCache := c\<rparr>
      in if e \<noteq> None \<or> \<not> updated then Ret (True, r, tp')
         else
           (case c (sender_key api req) of
              None \<Rightarrow> Panic NilDeref
            | Some nc \<Rightarrow>
                if nonce nc > req_nonce req then
                  (if retransmit req \<and> status r = txnStatus_EthNonceError then
                     bind_outcome (RespondWithStatus later tp' p txnStatus_Any) (\<lambda>tp''.
                       Ret (False, r\<lparr>resp := GStr success_case_for_retransmit\<rparr>, tp''))
                   else Ret (False, r, tp'))
                else eval_tail (statusActions (status r)) r tp'))"

text \<open>Lines 313 to 343, with the status already stored in the response.\<close>

definition eval_body ::
  "near_api \<Rightarrow> int \<Rightarrow> int \<Rightarrow> proc \<Rightarrow> ptr \<Rightarrow> txnResp \<Rightarrow> (bool \<times> txnResp \<times> proc) outcome" where
  "eval_body api now later tp p r =
     (let act = statusActions (status r); i = processorIndex (reqs tp p)
      in bind_outcome
           (if updateNearCache act then
              bind_outcome (slice_get (keys tp) i) (\<lambda>key.
                Ret (tp\<lparr>nearNonceCache :=
                       snd (updateNearNonceCache api now later (nearNonceCache tp) key)\<rparr>))
            else Ret tp)
           (\<lambda>tp1. if updateEthCache act then eval_eth api now later tp1 p r
                  else eval_tail act r tp1))"

definition set_breaker :: "bool \<Rightarrow> proc \<Rightarrow> nat \<Rightarrow> proc" where
  "set_breaker b tp i = tp\<lparr>circuitBreaker := (circuitBreaker tp)[i := b]\<rparr>"

definition set_mutex :: "bool \<Rightarrow> proc \<Rightarrow> nat \<Rightarrow> proc" where
  "set_mutex b tp i = tp\<lparr>retryMutex := (retryMutex tp)[i := b]\<rparr>"

text \<open>
  The whole of \<open>eval\<close>, run without interference: the returned flag, the response as it was
  updated, and the state.  The deferred function unlocks first and clears the breaker second.
\<close>

definition eval_txn ::
  "near_api \<Rightarrow> int \<Rightarrow> int \<Rightarrow> proc \<Rightarrow> ptr \<Rightarrow> txnResp \<Rightarrow> (bool \<times> txnResp \<times> proc) outcome" where
  "eval_txn api now later tp p r =
     bind_outcome (classify (retransmit (reqs tp p)) r) (\<lambda>v.
       case v of
         Succeeded \<Rightarrow> Ret (False, r, tp)
       | Evaluated retrans s \<Rightarrow>
           (let tp1 = set_retransmit retrans tp p; r1 = r\<lparr>status := s\<rparr>;
                i = processorIndex (reqs tp p)
            in if needs_lock (statusActions s) then
                 bind_outcome (slice_get (retryMutex tp1) i) (\<lambda>locked.
                   if locked then Blocked
                   else
                     bind_outcome (slice_get (circuitBreaker tp1) i) (\<lambda>_.
                     bind_outcome (eval_body api now later (set_breaker True (set_mutex True tp1 i) i) p r1)
                       (\<lambda>(re, r2, tp2). Ret (re, r2, set_breaker False (set_mutex False tp2 i) i))))
               else eval_body api now later tp1 p r1))"

text \<open>
  One turn of the goroutine \<open>Submit\<close> starts, from a received response to the end of the loop
  body: the flag tells whether the loop goes on, that is, whether the request was queued again.
\<close>

definition on_response ::
  "near_api \<Rightarrow> int \<Rightarrow> int \<Rightarrow> proc \<Rightarrow> ptr \<Rightarrow> txnResp \<Rightarrow> (bool \<times> txnResp \<times> proc) outcome" where
  "on_response api now later tp p r =
     bind_outcome (eval_txn api now later tp p r) (\<lambda>(re, r', tp').
       if \<not> re then Ret (False, r', tp')
       else bind_outcome (try_enqueue_unordered tp' p) (\<lambda>(ok, tp''). Ret (ok, r', tp'')))"

text \<open>
  \<open>Close\<close> closes the unordered queues, then the ordered ones; after each it waits for the
  queue's worker.  \<open>Close\<close> here is what it does to the queues; the waits, and what runs beside
  them, are in theory \<open>TxnClose\<close>, one queue at a time.
\<close>

fun close_all :: "'a txnq list \<Rightarrow> 'a txnq list outcome" where
  "close_all [] = Ret []"
| "close_all (tq # tqs) =
     bind_outcome (close_queue tq) (\<lambda>tq'.
     bind_outcome (close_all tqs) (\<lambda>tqs'. Ret (tq' # tqs')))"

definition Close :: "proc \<Rightarrow> proc outcome" where
  "Close tp =
     bind_outcome (close_all (unordered tp)) (\<lambda>us.
     bind_outcome (close_all (ordered tp)) (\<lambda>os.
     Ret (tp\<lparr>unordered := us, ordered := os\<rparr>)))"

section \<open>Shape\<close>

text \<open>The per-key slices all have one element per key.\<close>

definition shape :: "proc \<Rightarrow> bool" where
  "shape tp \<longleftrightarrow>
     length (retryMutex tp) = length (keys tp) \<and> length (circuitBreaker tp) = length (keys tp) \<and>
     length (ordered tp) = length (keys tp) \<and> length (unordered tp) = length (keys tp)"

lemma fold_add_key_state:
  "fold (\<lambda>_. add_key_state) ks tp =
     tp\<lparr>unordered := unordered tp @ replicate (length ks) (NewTxnQ qCap),
        ordered := ordered tp @ replicate (length ks) (NewTxnQ qCap),
        retryMutex := retryMutex tp @ replicate (length ks) False,
        circuitBreaker := circuitBreaker tp @ replicate (length ks) False\<rparr>"
  by (induction ks arbitrary: tp) (auto simp: add_key_state_def)

lemma NewTxnProcessor_fields [simp]:
  "keys (NewTxnProcessor config ks) = ks"
  "mapper (NewTxnProcessor config ks) = select_mapper (FunctionKeyMapper config)"
  "unordered (NewTxnProcessor config ks) = replicate (length ks) (NewTxnQ qCap)"
  "ordered (NewTxnProcessor config ks) = replicate (length ks) (NewTxnQ qCap)"
  "retryMutex (NewTxnProcessor config ks) = replicate (length ks) False"
  "circuitBreaker (NewTxnProcessor config ks) = replicate (length ks) False"
  "ethNonceCache (NewTxnProcessor config ks) = Map.empty"
  "nearNonceCache (NewTxnProcessor config ks) = Map.empty"
  "respChan (NewTxnProcessor config ks) = (\<lambda>_. [])"
  "timers (NewTxnProcessor config ks) = []"
  "sends (NewTxnProcessor config ks) = []"
  by (simp_all add: NewTxnProcessor_def fold_add_key_state)

lemma shape_new: "shape (NewTxnProcessor config ks)"
  by (simp add: shape_def)

section \<open>Accepting requests\<close>

text \<open>
  C32. With at least one key (and less than \<open>2^32\<close>) and a configured mapper, a raw transaction
  becomes a request exactly when it decodes, its sender can be recovered, and its gas price and its
  gas reach the configured minima; the request then carries the nonce of the decoded transaction,
  its sender, the raw bytes and their hash, the fresh identifier, the time in seconds, and the index
  the mapper gives the sender, which is that of an existing key; it is not marked as retransmitted
  and is not expired.
\<close>

theorem NewTxnReq_accepts:
  assumes "keys tp \<noteq> []" "length (keys tp) < 2 ^ 32" "mapper tp \<noteq> None"
  shows "((\<exists>req. NewTxnReq api eth config tp now uuid raw = Ret (Inr req)) \<longleftrightarrow>
      (\<exists>tx addr. UnmarshalBinary eth raw = Inr tx \<and> tx_Sender eth tx = Inr addr \<and>
         MinGasPrice config \<le> tx_GasPrice eth tx \<and> MinGasLimit config \<le> tx_Gas eth tx)) \<and>
    (\<forall>req. NewTxnReq api eth config tp now uuid raw = Ret (Inr req) \<longrightarrow>
      (\<exists>tx addr. UnmarshalBinary eth raw = Inr tx \<and> tx_Sender eth tx = Inr addr \<and>
         req_nonce req = tx_Nonce eth tx \<and> sender req = BytesToAddress eth addr) \<and>
      mapper_Map (mapper tp) (address_Hex api (sender req)) (length (keys tp)) = Ret (processorIndex req) \<and>
      requestId req = uuid \<and> timestamp req = now div second \<and>
      processorIndex req < length (keys tp) \<and> rawTxn req = raw \<and>
      hash req = CalculateKeccak256 eth raw \<and> \<not> retransmit req \<and> \<not> Expired now req)"
proof -
  obtain m where m: "mapper tp = Some m" using assms(3) by auto
  have idx: "\<exists>i<length (keys tp). mapper_Map (mapper tp) s (length (keys tp)) = Ret i" for s
    using assms(1,2) configured.map_key_returns [of "length (keys tp)" m s] by (simp add: m)
  have fresh: "\<not> now > now div second * second + second * timeoutSeconds"
    using pos_mod_bound [of second now] mult_div_mod_eq [of second now]
    by (simp add: timeoutSeconds_def mult.commute)
  show ?thesis
  proof (cases "UnmarshalBinary eth raw")
    case (Inr tx)
    then show ?thesis
    proof (cases "tx_Sender eth tx")
      case (Inr addr)
      obtain i where "i < length (keys tp)"
          "mapper_Map (mapper tp) (address_Hex api (BytesToAddress eth addr)) (length (keys tp)) = Ret i"
        using idx by blast
      with \<open>UnmarshalBinary eth raw = Inr tx\<close> Inr fresh show ?thesis
        by (auto simp: NewTxnReq_def Let_def Expired_def not_less)
    qed (simp add: NewTxnReq_def)
  qed (simp add: NewTxnReq_def)
qed

text \<open>A small instance: two keys, a decoder that reads the gas and the nonce from two bytes.\<close>

definition demo_config :: EngineConfig where
  "demo_config =
     \<lparr>FunctionKeyMapper = ''CRC32'', MinGasPrice = 0, MinGasLimit = 21, AsyncSendRawTxs = False,
      NearNetworkID = ''testnet'', NearNodeURL = ''url'', NearArchivalNodeURL = ''archival'',
      Signer = ''relayer'', SignerKey = ''key.json'', FunctionKeyPrefixPattern = ''fk*.''\<rparr>"

definition demo_eth :: "(u64 \<times> u64) eth_api" where
  "demo_eth =
     \<lparr>UnmarshalBinary = (\<lambda>bs. case bs of [g, n] \<Rightarrow> Inr (ucast g, ucast n) | _ \<Rightarrow> Inl ''rlp''),
      tx_Sender = (\<lambda>_. Inr []), tx_GasPrice = (\<lambda>_. 0), tx_Gas = fst, tx_Nonce = snd,
      BytesToAddress = id, CalculateKeccak256 = (\<lambda>_. ''0xhash'')\<rparr>"

abbreviation demo_tp :: proc where
  "demo_tp \<equiv> NewTxnProcessor demo_config [''k0'', ''k1'']"

theorem NewTxnReq_accepts_witness:
  "\<exists>req. NewTxnReq demo_api demo_eth demo_config demo_tp 5 [] [30, 4] = Ret (Inr req) \<and>
     req_nonce req = 4 \<and> sender req = []"
proof -
  have "keys demo_tp \<noteq> []" "length (keys demo_tp) < 2 ^ 32" "mapper demo_tp \<noteq> None"
    by (simp_all add: demo_config_def select_mapper_def)
  from NewTxnReq_accepts [OF this, of demo_api demo_eth demo_config 5 "[]" "[30, 4]"]
  have "\<exists>req. NewTxnReq demo_api demo_eth demo_config demo_tp 5 [] [30, 4] = Ret (Inr req)"
      "\<And>req. NewTxnReq demo_api demo_eth demo_config demo_tp 5 [] [30, 4] = Ret (Inr req) \<Longrightarrow>
         req_nonce req = 4 \<and> sender req = []"
    by (simp add: demo_eth_def demo_config_def, fastforce simp: demo_eth_def)
  then show ?thesis by blast
qed

section \<open>Ordering\<close>

lemma sort_decide_frame [simp]:
  "reqs (snd (sort_decide api now tp p)) = reqs tp"
  "keys (snd (sort_decide api now tp p)) = keys tp"
  "ordered (snd (sort_decide api now tp p)) = ordered tp"
  "unordered (snd (sort_decide api now tp p)) = unordered tp"
  "timers (snd (sort_decide api now tp p)) = timers tp"
  "sends (snd (sort_decide api now tp p)) = sends tp"
  "respChan (snd (sort_decide api now tp p)) = respChan tp"
  "retryMutex (snd (sort_decide api now tp p)) = retryMutex tp"
  "circuitBreaker (snd (sort_decide api now tp p)) = circuitBreaker tp"
  by (simp_all add: sort_decide_def Let_def split: option.split)

text \<open>
  The decisions of the sort worker on a sequence of requests (each with the time it is taken
  from the queue), between two refreshes of the nonce cache: the requests it forwards.
\<close>

fun forwarded :: "near_api \<Rightarrow> proc \<Rightarrow> (int \<times> ptr) list \<Rightarrow> ptr list \<times> proc" where
  "forwarded api tp [] = ([], tp)"
| "forwarded api tp ((now, p) # rest) =
     (let (act, tp') = sort_decide api now tp p; (ps, tp'') = forwarded api tp' rest
      in (if act = SortForward then p # ps else ps, tp''))"

definition nonces_of :: "near_api \<Rightarrow> proc \<Rightarrow> string \<Rightarrow> ptr list \<Rightarrow> u64 list" where
  "nonces_of api tp k ps =
     map (\<lambda>p. req_nonce (reqs tp p)) (filter (\<lambda>p. sender_key api (reqs tp p) = k) ps)"

lemma nonces_of_frame: "reqs tp' = reqs tp \<Longrightarrow> nonces_of api tp' k ps = nonces_of api tp k ps"
  by (simp add: nonces_of_def)

text \<open>What one decision does to the cached nonce of a sender.\<close>

lemma sort_decide_cached:
  assumes "sort_decide api now tp p = (act, tp')" "\<not> retransmit (reqs tp p)"
    and "ethNonceCache tp k = Some nc"
  shows "if act = SortForward \<and> sender_key api (reqs tp p) = k
    then req_nonce (reqs tp p) = nonce nc \<and>
         ethNonceCache tp' k = Some (nc\<lparr>nonce := nonce nc + 1\<rparr>)
    else ethNonceCache tp' k = Some nc"
  using assms by (auto simp: sort_decide_def Let_def split: if_splits option.splits)

lemma sort_decide_uncached:
  assumes "sort_decide api now tp p = (act, tp')" "ethNonceCache tp k = None"
  shows "if act = SortForward \<and> sender_key api (reqs tp p) = k
    then \<exists>nc. ethNonceCache tp' k = Some nc \<and> nonce nc = req_nonce (reqs tp p) + 1
    else ethNonceCache tp' k = None"
  using assms by (auto simp: sort_decide_def Let_def split: if_splits option.splits)

lemma consecutive_Cons:
  "n # map (\<lambda>i. n + 1 + of_nat i) [0..<m] = map (\<lambda>i. n + of_nat i :: u64) [0..<Suc m]"
  by (simp add: upt_conv_Cons map_Suc_upt [symmetric] algebra_simps del: upt_Suc)

lemma forwarded_cached:
  assumes "\<forall>(now, p) \<in> set ps. \<not> retransmit (reqs tp p)" "ethNonceCache tp k = Some nc"
  shows "nonces_of api tp k (fst (forwarded api tp ps)) =
    map (\<lambda>i. nonce nc + of_nat i) [0..<length (nonces_of api tp k (fst (forwarded api tp ps)))]"
  using assms
proof (induction ps arbitrary: tp nc)
  case Nil
  then show ?case by (simp add: nonces_of_def)
next
  case (Cons a ps)
  obtain now p where a: "a = (now, p)" by (cases a)
  obtain act tp' where d: "sort_decide api now tp p = (act, tp')" by (cases "sort_decide api now tp p")
  then have r: "reqs tp' = reqs tp" using sort_decide_frame(1) [of api now tp p] by simp
  note nf = nonces_of_frame [OF r]
  have pre: "\<forall>(now, p) \<in> set ps. \<not> retransmit (reqs tp' p)" "\<not> retransmit (reqs tp p)"
    using Cons.prems(1) by (auto simp: a r)
  note step = sort_decide_cached [OF d pre(2) Cons.prems(2)]
  show ?case
  proof (cases "act = SortForward \<and> sender_key api (reqs tp p) = k")
    case True
    with step have n: "req_nonce (reqs tp p) = nonce nc"
      and c: "ethNonceCache tp' k = Some (nc\<lparr>nonce := nonce nc + 1\<rparr>)" by auto
    have fwd: "nonces_of api tp k (fst (forwarded api tp (a # ps))) =
        nonce nc # nonces_of api tp k (fst (forwarded api tp' ps))"
      using True n by (simp add: a d nonces_of_def split: prod.split)
    have "nonces_of api tp k (fst (forwarded api tp' ps)) =
        map (\<lambda>i. nonce nc + 1 + of_nat i) [0..<length (nonces_of api tp k (fst (forwarded api tp' ps)))]"
      using Cons.IH [OF pre(1) c] by (simp add: nf)
    then show ?thesis
      unfolding fwd by (metis consecutive_Cons length_Cons)
  next
    case False
    with step have c: "ethNonceCache tp' k = Some nc" by auto
    have "nonces_of api tp k (fst (forwarded api tp (a # ps))) =
        nonces_of api tp k (fst (forwarded api tp' ps))"
      using False by (auto simp: a d nonces_of_def split: prod.split)
    then show ?thesis using Cons.IH [OF pre(1) c] by (simp add: nf)
  qed
qed

lemma forwarded_uncached:
  assumes "\<forall>(now, p) \<in> set ps. \<not> retransmit (reqs tp p)" "ethNonceCache tp k = None"
  shows "\<exists>n0. nonces_of api tp k (fst (forwarded api tp ps)) =
    map (\<lambda>i. n0 + of_nat i) [0..<length (nonces_of api tp k (fst (forwarded api tp ps)))]"
  using assms
proof (induction ps arbitrary: tp)
  case Nil
  then show ?case by (simp add: nonces_of_def)
next
  case (Cons a ps)
  obtain now p where a: "a = (now, p)" by (cases a)
  obtain act tp' where d: "sort_decide api now tp p = (act, tp')" by (cases "sort_decide api now tp p")
  then have r: "reqs tp' = reqs tp" using sort_decide_frame(1) [of api now tp p] by simp
  note nf = nonces_of_frame [OF r]
  have pre: "\<forall>(now, p) \<in> set ps. \<not> retransmit (reqs tp' p)"
    using Cons.prems(1) by (auto simp: a r)
  note step = sort_decide_uncached [OF d Cons.prems(2)]
  show ?case
  proof (cases "act = SortForward \<and> sender_key api (reqs tp p) = k")
    case True
    with step obtain nc where c: "ethNonceCache tp' k = Some nc" "nonce nc = req_nonce (reqs tp p) + 1"
      by auto
    have fwd: "nonces_of api tp k (fst (forwarded api tp (a # ps))) =
        req_nonce (reqs tp p) # nonces_of api tp k (fst (forwarded api tp' ps))"
      using True by (simp add: a d nonces_of_def split: prod.split)
    show ?thesis
      unfolding fwd using forwarded_cached [OF pre c(1), of api] c(2)
      by (metis consecutive_Cons length_Cons nf)
  next
    case False
    with step have c: "ethNonceCache tp' k = None" by auto
    have "nonces_of api tp k (fst (forwarded api tp (a # ps))) =
        nonces_of api tp k (fst (forwarded api tp' ps))"
      using False by (auto simp: a d nonces_of_def split: prod.split)
    then show ?thesis using Cons.IH [OF pre c] by (simp add: nf)
  qed
qed

text \<open>
  C2. The sort worker restores the order of each sender's transactions: whatever the order in
  which requests that are not retransmissions arrive, and however many senders are mixed, the
  requests of a sender that are forwarded between two refreshes of the nonce cache have
  consecutive nonces (modulo \<open>2^64\<close>), starting at the cached nonce when there is one.  Requests
  marked as retransmissions are excluded: \<open>sort\<close> forwards those whatever their nonce.
\<close>

theorem sort_forwards_in_nonce_order:
  assumes "\<forall>(now, p) \<in> set ps. \<not> retransmit (reqs tp p)"
  shows "\<exists>n0. nonces_of api tp k (fst (forwarded api tp ps)) =
      map (\<lambda>i. n0 + of_nat i) [0..<length (nonces_of api tp k (fst (forwarded api tp ps)))] \<and>
    (\<forall>nc. ethNonceCache tp k = Some nc \<longrightarrow> n0 = nonce nc)"
proof (cases "ethNonceCache tp k")
  case None
  then show ?thesis using forwarded_uncached [OF assms None] by simp
next
  case (Some nc)
  then show ?thesis using forwarded_cached [OF assms Some] by auto
qed

text \<open>Three requests of one sender, received with nonces 5, 7 and 6, then 7 again.\<close>

definition demo_reqs :: proc where
  "demo_reqs =
     demo_tp\<lparr>reqs := (\<lambda>p. \<lparr>processorIndex = 0, timestamp = 0, req_nonce = of_nat p,
       requestId = [], sender = [], rawTxn = [], hash = [], retransmit = False\<rparr>)\<rparr>"

lemma demo_forwarded:
  "fst (forwarded demo_api demo_reqs [(1, 5), (2, 7), (3, 6), (4, 7)]) = [5, 6, 7]"
  by (simp add: demo_reqs_def sort_decide_def Expired_def timeoutSeconds_def sender_key_def
      Let_def)

theorem sort_forwards_in_nonce_order_witness:
  "nonces_of demo_api demo_reqs [] [5, 6, 7] = [5, 6, 7]"
proof -
  have "\<forall>(now, p) \<in> set [(1, 5), (2, 7), (3, 6), (4, 7)]. \<not> retransmit (reqs demo_reqs p)"
    by (simp add: demo_reqs_def)
  from sort_forwards_in_nonce_order [OF this, of demo_api "[]"]
  show ?thesis
    by (simp add: demo_forwarded nonces_of_def demo_reqs_def sender_key_def demo_api_def
        string_of_bytes_def)
qed

end
