(* ===== verification/TxnEval.thy ===== *)
theory TxnEval
  imports TxnProcessor
begin

text \<open>
  What \<open>eval\<close>, \<open>sort\<close> and \<open>send\<close> of the transaction processor do with a response: when a
  request is retried, when it is answered, and when the code panics.
\<close>

section \<open>The parts of eval\<close>

lemma set_frame [simp]:
  "keys (set_mutex b tp i) = keys tp" "reqs (set_mutex b tp i) = reqs tp"
  "ethNonceCache (set_mutex b tp i) = ethNonceCache tp"
  "nearNonceCache (set_mutex b tp i) = nearNonceCache tp"
  "respChan (set_mutex b tp i) = respChan tp" "unordered (set_mutex b tp i) = unordered tp"
  "ordered (set_mutex b tp i) = ordered tp" "circuitBreaker (set_mutex b tp i) = circuitBreaker tp"
  "timers (set_mutex b tp i) = timers tp" "sends (set_mutex b tp i) = sends tp"
  "mapper (set_mutex b tp i) = mapper tp"
  "keys (set_breaker b tp i) = keys tp" "reqs (set_breaker b tp i) = reqs tp"
  "ethNonceCache (set_breaker b tp i) = ethNonceCache tp"
  "nearNonceCache (set_breaker b tp i) = nearNonceCache tp"
  "respChan (set_breaker b tp i) = respChan tp" "unordered (set_breaker b tp i) = unordered tp"
  "ordered (set_breaker b tp i) = ordered tp" "retryMutex (set_breaker b tp i) = retryMutex tp"
  "timers (set_breaker b tp i) = timers tp" "sends (set_breaker b tp i) = sends tp"
  "mapper (set_breaker b tp i) = mapper tp"
  "retryMutex (set_mutex b tp i) = (retryMutex tp)[i := b]"
  "circuitBreaker (set_breaker b tp i) = (circuitBreaker tp)[i := b]"
  by (simp_all add: set_mutex_def set_breaker_def)

lemma set_retransmit_frame [simp]:
  "keys (set_retransmit b tp p) = keys tp" "mapper (set_retransmit b tp p) = mapper tp"
  "ethNonceCache (set_retransmit b tp p) = ethNonceCache tp"
  "nearNonceCache (set_retransmit b tp p) = nearNonceCache tp"
  "respChan (set_retransmit b tp p) = respChan tp"
  "unordered (set_retransmit b tp p) = unordered tp" "ordered (set_retransmit b tp p) = ordered tp"
  "retryMutex (set_retransmit b tp p) = retryMutex tp"
  "circuitBreaker (set_retransmit b tp p) = circuitBreaker tp"
  "timers (set_retransmit b tp p) = timers tp" "sends (set_retransmit b tp p) = sends tp"
  "processorIndex (reqs (set_retransmit b tp p) q) = processorIndex (reqs tp q)"
  "req_nonce (reqs (set_retransmit b tp p) q) = req_nonce (reqs tp q)"
  "sender (reqs (set_retransmit b tp p) q) = sender (reqs tp q)"
  "timestamp (reqs (set_retransmit b tp p) q) = timestamp (reqs tp q)"
  "retransmit (reqs (set_retransmit b tp p) p) = b"
  "sender_key api (reqs (set_retransmit b tp p) q) = sender_key api (reqs tp q)"
  by (simp_all add: set_retransmit_def sender_key_def)

text \<open>The value of the returned flag once the cache of the sender was asked to refresh.\<close>

definition eth_retry :: "near_api \<Rightarrow> int \<Rightarrow> proc \<Rightarrow> ptr \<Rightarrow> txnStatus \<Rightarrow> bool" where
  "eth_retry api now tp p s \<longleftrightarrow>
     recently_updated now (ethNonceCache tp) (sender_key api (reqs tp p)) \<or>
     (case fetchEthNonce api (sender (reqs tp p)) of
        Inl e \<Rightarrow> True
      | Inr n \<Rightarrow> retry (statusActions s) \<and> n \<le> req_nonce (reqs tp p))"

lemma eval_eth_flag:
  "eval_eth api now later tp p r = Ret (re, r', tp') \<Longrightarrow> re \<longleftrightarrow> eth_retry api now tp p (status r)"
  by (cases rule: updateEth_cases
        [of now "ethNonceCache tp" api "sender (reqs tp p)" later])
     (auto simp: eval_eth_def eval_tail_def eth_retry_def sender_key_def bind_outcome_Ret_iff not_less
       Let_def split: if_splits)

lemma eval_eth_no_panic: "eval_eth api now later tp p r \<noteq> Panic k"
  by (cases rule: updateEth_cases
        [of now "ethNonceCache tp" api "sender (reqs tp p)" later])
     (auto simp: eval_eth_def eval_tail_def sender_key_def RespondWithStatus_def respond_def
       Let_def)

text \<open>What the near refresh of \<open>eval_body\<close> changes.\<close>

definition near_refreshed :: "near_api \<Rightarrow> int \<Rightarrow> int \<Rightarrow> proc \<Rightarrow> ptr \<Rightarrow> txnStatus \<Rightarrow> proc" where
  "near_refreshed api now later tp p s =
     (if updateNearCache (statusActions s)
      then tp\<lparr>nearNonceCache :=
        snd (updateNearNonceCache api now later (nearNonceCache tp)
               (keys tp ! processorIndex (reqs tp p)))\<rparr>
      else tp)"

lemma eval_body_eq:
  "processorIndex (reqs tp p) < length (keys tp) \<Longrightarrow>
   eval_body api now later tp p r =
     (let tp1 = near_refreshed api now later tp p (status r)
      in if updateEthCache (statusActions (status r)) then eval_eth api now later tp1 p r
         else eval_tail (statusActions (status r)) r tp1)"
  by (simp add: eval_body_def near_refreshed_def Let_def)

lemma near_refreshed_frame [simp]:
  "reqs (near_refreshed api now later tp p s) = reqs tp"
  "ethNonceCache (near_refreshed api now later tp p s) = ethNonceCache tp"
  "respChan (near_refreshed api now later tp p s) = respChan tp"
  "keys (near_refreshed api now later tp p s) = keys tp"
  "retryMutex (near_refreshed api now later tp p s) = retryMutex tp"
  "circuitBreaker (near_refreshed api now later tp p s) = circuitBreaker tp"
  by (simp_all add: near_refreshed_def)

lemma eth_retry_cong:
  "reqs tp p = reqs tp' p \<Longrightarrow> ethNonceCache tp = ethNonceCache tp' \<Longrightarrow>
     eth_retry api now tp p s = eth_retry api now tp' p s"
  by (simp add: eth_retry_def split: sum.split)

definition body_retry :: "near_api \<Rightarrow> int \<Rightarrow> proc \<Rightarrow> ptr \<Rightarrow> txnStatus \<Rightarrow> bool" where
  "body_retry api now tp p s \<longleftrightarrow>
     (if updateEthCache (statusActions s) then eth_retry api now tp p s
      else retry (statusActions s))"

lemma eval_body_flag:
  assumes "processorIndex (reqs tp p) < length (keys tp)"
    and "eval_body api now later tp p r = Ret (re, r', tp')"
  shows "re \<longleftrightarrow> body_retry api now tp p (status r)"
  using assms eth_retry_cong [of "near_refreshed api now later tp p (status r)" p tp api now "status r"]
  by (auto simp: eval_body_eq body_retry_def Let_def eval_tail_def dest!: eval_eth_flag
      split: if_splits)

lemma eval_body_no_panic:
  "processorIndex (reqs tp p) < length (keys tp) \<Longrightarrow> eval_body api now later tp p r \<noteq> Panic k"
  by (simp add: eval_body_eq Let_def eval_eth_no_panic eval_tail_def)

lemma body_retry_cong:
  "ethNonceCache tp = ethNonceCache tp' \<Longrightarrow> sender (reqs tp p) = sender (reqs tp' p) \<Longrightarrow>
   req_nonce (reqs tp p) = req_nonce (reqs tp' p) \<Longrightarrow>
     body_retry api now tp p s = body_retry api now tp' p s"
  by (simp add: body_retry_def eth_retry_def sender_key_def split: sum.split)

text \<open>What evaluation leaves alone.\<close>

definition same_queues :: "proc \<Rightarrow> proc \<Rightarrow> bool" where
  "same_queues tp tp' \<longleftrightarrow>
     keys tp' = keys tp \<and> mapper tp' = mapper tp \<and> unordered tp' = unordered tp \<and>
     ordered tp' = ordered tp \<and> timers tp' = timers tp \<and> sends tp' = sends tp \<and>
     (\<forall>q. processorIndex (reqs tp' q) = processorIndex (reqs tp q))"

lemma same_queues_refl [simp]: "same_queues tp tp"
  by (simp add: same_queues_def)

lemma same_queues_trans: "same_queues a b \<Longrightarrow> same_queues b c \<Longrightarrow> same_queues a c"
  by (simp add: same_queues_def)

lemma same_queues_set [simp]:
  "same_queues tp (set_mutex b tp i)" "same_queues tp (set_breaker b tp i)"
  "same_queues tp (set_retransmit b tp p)" "same_queues tp (near_refreshed api now later tp p s)"
  by (simp_all add: same_queues_def near_refreshed_def)

lemma eval_eth_same_queues:
  "eval_eth api now later tp p r = Ret (re, r', tp') \<Longrightarrow>
     same_queues tp tp' \<and> retryMutex tp' = retryMutex tp \<and> circuitBreaker tp' = circuitBreaker tp \<and>
     reqs tp' = reqs tp"
  by (cases rule: updateEth_cases [of now "ethNonceCache tp" api "sender (reqs tp p)" later])
     (auto simp: eval_eth_def eval_tail_def Let_def RespondWithStatus_def respond_def
       same_queues_def bind_outcome_Ret_iff sender_key_def split: if_splits)

lemma eval_body_same_queues:
  assumes "processorIndex (reqs tp p) < length (keys tp)"
    and "eval_body api now later tp p r = Ret (re, r', tp')"
  shows "same_queues tp tp' \<and> retryMutex tp' = retryMutex tp \<and>
    circuitBreaker tp' = circuitBreaker tp \<and> reqs tp' = reqs tp"
proof (cases "updateEthCache (statusActions (status r))")
  case True
  with assms have "eval_eth api now later (near_refreshed api now later tp p (status r)) p r =
      Ret (re, r', tp')"
    by (simp add: eval_body_eq Let_def)
  from eval_eth_same_queues [OF this] show ?thesis
    using same_queues_trans same_queues_set(4) by fastforce
next
  case False
  with assms have "tp' = near_refreshed api now later tp p (status r)"
    by (auto simp: eval_body_eq Let_def eval_tail_def)
  then show ?thesis by simp
qed

lemma eval_txn_locked:
  assumes "classify (retransmit (reqs tp p)) r = Ret (Evaluated b s)"
    and "needs_lock (statusActions s)"
  shows "eval_txn api now later tp p r = Ret (re, r', tp') \<longleftrightarrow>
    processorIndex (reqs tp p) < length (retryMutex tp) \<and>
    \<not> retryMutex tp ! processorIndex (reqs tp p) \<and>
    processorIndex (reqs tp p) < length (circuitBreaker tp) \<and>
    (\<exists>tp2. eval_body api now later
        (set_breaker True (set_mutex True (set_retransmit b tp p) (processorIndex (reqs tp p)))
           (processorIndex (reqs tp p))) p (r\<lparr>status := s\<rparr>) = Ret (re, r', tp2) \<and>
      tp' = set_breaker False (set_mutex False tp2 (processorIndex (reqs tp p)))
              (processorIndex (reqs tp p)))"
  using assms
  by (auto simp: eval_txn_def Let_def slice_get_def bind_outcome_Ret_iff)

lemma eval_txn_same_queues:
  assumes "processorIndex (reqs tp p) < length (keys tp)"
    and "eval_txn api now later tp p r = Ret (re, r', tp')"
  shows "same_queues tp tp'"
proof (cases "classify (retransmit (reqs tp p)) r")
  case (Ret v)
  show ?thesis
  proof (cases v)
    case Succeeded
    with Ret assms show ?thesis by (simp add: eval_txn_def)
  next
    case (Evaluated b s)
    let ?i = "processorIndex (reqs tp p)"
    let ?locked = "set_breaker True (set_mutex True (set_retransmit b tp p) ?i) ?i"
    have body: "same_queues tp tp3"
      if "eval_body api now later tp2 p x = Ret (re', y, tp3)" "same_queues tp tp2" for tp2 x re' y tp3
      using that assms(1) eval_body_same_queues [of tp2 p api now later x re' y tp3]
      by (auto simp: same_queues_def)
    show ?thesis
    proof (cases "needs_lock (statusActions s)")
      case True
      have cls: "classify (retransmit (reqs tp p)) r = Ret (Evaluated b s)"
        using Ret Evaluated by simp
      obtain tp2 where
          "eval_body api now later ?locked p (r\<lparr>status := s\<rparr>) = Ret (re, r', tp2)"
          "tp' = set_breaker False (set_mutex False tp2 ?i) ?i"
        using assms(2) unfolding eval_txn_locked [OF cls True] by blast
      moreover have "same_queues tp ?locked" by (simp add: same_queues_def)
      ultimately show ?thesis using body by (simp add: same_queues_def)
    next
      case False
      with assms(2) Ret Evaluated have
          "eval_body api now later (set_retransmit b tp p) p (r\<lparr>status := s\<rparr>) = Ret (re, r', tp')"
        by (simp add: eval_txn_def Let_def)
      with body show ?thesis by simp
    qed
  qed
qed (use assms in \<open>simp_all add: eval_txn_def\<close>)

section \<open>When a request is retried\<close>

text \<open>
  C5. \<open>eval\<close> asks for a retry in exactly these cases.  A successful response is never retried.
  For a status whose action refreshes the sender's nonce: always when the refresh was skipped
  or failed; otherwise when the action retries and the nonce on chain has not passed the
  request's.  For the other statuses: as the action says.
\<close>

theorem eval_retries_iff:
  assumes "processorIndex (reqs tp p) < length (keys tp)"
    and "eval_txn api now later tp p r = Ret (re, r', tp')"
  shows "re \<longleftrightarrow>
    (\<exists>b s. classify (retransmit (reqs tp p)) r = Ret (Evaluated b s) \<and>
       (if updateEthCache (statusActions s) then
          recently_updated now (ethNonceCache tp) (sender_key api (reqs tp p)) \<or>
          (\<exists>e. fetchEthNonce api (sender (reqs tp p)) = Inl e) \<or>
          (retry (statusActions s) \<and>
             (\<exists>n. fetchEthNonce api (sender (reqs tp p)) = Inr n \<and> n \<le> req_nonce (reqs tp p)))
        else retry (statusActions s)))"
proof (cases "classify (retransmit (reqs tp p)) r")
  case (Ret v)
  show ?thesis
  proof (cases v)
    case Succeeded
    with Ret assms show ?thesis by (simp add: eval_txn_def)
  next
    case (Evaluated b s)
    let ?i = "processorIndex (reqs tp p)"
    let ?r = "r\<lparr>status := s\<rparr>"
    have "\<exists>tpx r2 tp2. processorIndex (reqs tpx p) < length (keys tpx) \<and>
        eval_body api now later tpx p ?r = Ret (re, r2, tp2) \<and>
        body_retry api now tpx p s = body_retry api now tp p s"
    proof (cases "needs_lock (statusActions s)")
      case True
      let ?tpx = "set_breaker True (set_mutex True (set_retransmit b tp p) ?i) ?i"
      have "body_retry api now ?tpx p s = body_retry api now tp p s"
        by (rule body_retry_cong) simp_all
      with True assms Ret Evaluated show ?thesis
        by (intro exI [of _ ?tpx])
           (auto simp: eval_txn_def Let_def bind_outcome_Ret_iff split: if_splits)
    next
      case False
      have "body_retry api now (set_retransmit b tp p) p s = body_retry api now tp p s"
        by (rule body_retry_cong) simp_all
      with False assms Ret Evaluated show ?thesis
        by (intro exI [of _ "set_retransmit b tp p"]) (simp add: eval_txn_def Let_def)
    qed
    then have "re \<longleftrightarrow> body_retry api now tp p s"
      using eval_body_flag by fastforce
    with Ret Evaluated show ?thesis
      by (auto simp: body_retry_def eth_retry_def split: sum.splits)
  qed
qed (use assms in \<open>simp_all add: eval_txn_def\<close>)

definition near_timeout :: txnResp where
  "near_timeout = near_response 9 GNil (Some ''Server error: Timeout'')"

lemma classify_near_timeout: "classify b near_timeout = Ret (Evaluated True txnStatus_NearTimeOutError)"
  by (simp add: classify_def near_timeout_def near_response_def)

theorem eval_retries_iff_witness:
  "\<exists>b s. classify False near_timeout = Ret (Evaluated b s) \<and>
     (updateEthCache (statusActions s) \<or> retry (statusActions s))"
proof -
  have i: "processorIndex (reqs demo_reqs 5) < length (keys demo_reqs)"
    and re: "retransmit (reqs demo_reqs 5) = False"
    by (simp_all add: demo_reqs_def)
  have "eval_txn demo_api 9 9 demo_reqs 5 near_timeout =
      Ret (True, near_timeout\<lparr>status := txnStatus_NearTimeOutError\<rparr>, set_retransmit True demo_reqs 5)"
    using eval_body_eq [of "set_retransmit True demo_reqs 5" 5] i
    by (simp add: eval_txn_def classify_near_timeout needs_lock_def make_action_def Let_def
        eval_tail_def near_refreshed_def)
  from eval_retries_iff [OF i this] show ?thesis
    unfolding re by (metis simp_thms(16))
qed

section \<open>When the code panics\<close>

text \<open>
  C9. On a processor whose slices have one element per key, \<open>eval\<close> panics exactly when reading
  the response does (a status or a failure that is not an object where one is expected); the
  refreshes, the locked region and the dereference of the sender's cache entry never do.
\<close>

theorem eval_panics_iff:
  assumes "shape tp" "processorIndex (reqs tp p) < length (keys tp)"
  shows "eval_txn api now later tp p r = Panic k \<longleftrightarrow>
    classify (retransmit (reqs tp p)) r = Panic k"
proof (cases "classify (retransmit (reqs tp p)) r")
  case (Ret v)
  show ?thesis
  proof (cases v)
    case (Evaluated b s)
    have body: "eval_body api now later tpx p r' \<noteq> Panic k"
      if "keys tpx = keys tp" "processorIndex (reqs tpx p) = processorIndex (reqs tp p)" for tpx r'
      using that assms(2) eval_body_no_panic by simp
    have bind: "bind_outcome m (\<lambda>(a, b, c). Ret (f a b c)) = Panic k \<longleftrightarrow> m = Panic k" for m f
      by (cases m) auto
    from assms Ret Evaluated body show ?thesis
      by (simp add: eval_txn_def Let_def shape_def bind)
  qed (use Ret in \<open>simp add: eval_txn_def\<close>)
qed (simp_all add: eval_txn_def)

text \<open>A response whose status is a plain string, as NEAR reports unfinished transactions.\<close>

definition not_started :: txnResp where
  "not_started = near_response 9 (GMap [(''status'', GStr ''NotStarted'')]) None"

theorem eval_panics_iff_witness:
  "eval_txn demo_api 9 9 demo_reqs 5 not_started = Panic TypeAssertion"
proof -
  have "shape demo_reqs" "processorIndex (reqs demo_reqs 5) < length (keys demo_reqs)"
    by (simp_all add: demo_reqs_def shape_def)
  from eval_panics_iff [OF this, of demo_api 9 9 not_started] show ?thesis
    by (simp add: classify_def not_started_def near_response_def isTxnResponseFailure_def)
qed

section \<open>Retransmissions\<close>

text \<open>The lock is free and the response channel is empty: what \<open>eval\<close> needs to run to its end.\<close>

definition ready :: "proc \<Rightarrow> ptr \<Rightarrow> bool" where
  "ready tp p \<longleftrightarrow>
     shape tp \<and> processorIndex (reqs tp p) < length (keys tp) \<and>
     \<not> retryMutex tp ! processorIndex (reqs tp p) \<and> respChan tp p = []"

lemma eval_locked_eq:
  assumes "ready tp p" "classify (retransmit (reqs tp p)) r = Ret (Evaluated b s)"
    and "updateEthCache (statusActions s)"
  shows "eval_txn api now later tp p r =
    bind_outcome
      (eval_eth api now later
         (near_refreshed api now later
            (set_breaker True (set_mutex True (set_retransmit b tp p) (processorIndex (reqs tp p)))
               (processorIndex (reqs tp p))) p s) p (r\<lparr>status := s\<rparr>))
      (\<lambda>(re, r2, tp2).
         Ret (re, r2, set_breaker False (set_mutex False tp2 (processorIndex (reqs tp p)))
               (processorIndex (reqs tp p))))"
  using assms
  by (simp add: eval_txn_def Let_def needs_lock_def ready_def shape_def eval_body_eq)

lemma retransmit_succeeds:
  assumes "ready tp p" "retransmit (reqs tp p)"
    and "classify True r = Ret (Evaluated True txnStatus_EthNonceError)" "err r = None"
    and "\<not> recently_updated now (ethNonceCache tp) (sender_key api (reqs tp p))"
    and "fetchEthNonce api (sender (reqs tp p)) = Inr n" "req_nonce (reqs tp p) < n"
  shows "\<exists>r' tp'. eval_txn api now later tp p r = Ret (False, r', tp') \<and>
    err r' = None \<and> resp r' = GStr success_case_for_retransmit"
proof -
  have upd: "updateEthNonceCache api now later (ethNonceCache tp) (sender (reqs tp p)) =
      ((True, None), (ethNonceCache tp)(sender_key api (reqs tp p) \<mapsto>
        \<lparr>nonce = n, updateTime = later\<rparr>))"
    using assms(5,6)
    by (cases rule: updateEth_cases [of now "ethNonceCache tp" api "sender (reqs tp p)" later])
       (simp_all add: sender_key_def)
  show ?thesis
    using assms
    by (simp add: eval_locked_eq make_action_def eval_eth_def upd Let_def RespondWithStatus_def
        respond_def ready_def)
qed

text \<open>
  A request that was retransmitted after a NEAR timeout and then fails with
  \<open>ERR_INCORRECT_NONCE\<close> counts as sent: when the refreshed nonce on chain has passed the
  request's, \<open>eval\<close> does not retry, the response carries no error, and its value is the
  success marker.
\<close>

theorem retransmit_counts_as_success:
  assumes "ready tp p" "retransmit (reqs tp p)"
    and "classify True r = Ret (Evaluated True txnStatus_EthNonceError)" "err r = None"
    and "\<not> recently_updated now (ethNonceCache tp) (sender_key api (reqs tp p))"
    and "fetchEthNonce api (sender (reqs tp p)) = Inr n" "req_nonce (reqs tp p) < n"
  shows "\<exists>r' tp'. eval_txn api now later tp p r = Ret (False, r', tp') \<and>
    err r' = None \<and> resp r' = GStr success_case_for_retransmit"
  using assms by (rule retransmit_succeeds)

definition nonce_failure :: txnResp where
  "nonce_failure = near_response 9
     (GMap [(''status'', GMap [(''Failure'', GMap [(''ActionError'', GMap [(''kind'',
        GMap [(''FunctionCallError'', GMap [(''ExecutionError'',
          GStr ''Smart contract panicked: ERR_INCORRECT_NONCE'')])])])])])]) None"

theorem retransmit_counts_as_success_witness:
  "\<exists>r' tp'. eval_txn demo_api 9 9 (set_retransmit True demo_reqs 5) 5 nonce_failure =
     Ret (False, r', tp') \<and> resp r' = GStr ''Success_Retransmit''"
proof -
  let ?tp = "set_retransmit True demo_reqs 5"
  have 1: "ready ?tp 5" "retransmit (reqs ?tp 5)"
    by (simp_all add: ready_def shape_def demo_reqs_def)
  have 2: "classify True nonce_failure = Ret (Evaluated True txnStatus_EthNonceError)"
      "err nonce_failure = None"
    by (simp_all add: classify_def nonce_failure_def near_response_def isTxnResponseFailure_def
        getTxnStatusForFailureType_def statusMappingArray_def)
  have 3: "\<not> recently_updated 9 (ethNonceCache ?tp) (sender_key demo_api (reqs ?tp 5))"
    by (simp add: demo_reqs_def recently_updated_def)
  have 4: "fetchEthNonce demo_api (sender (reqs ?tp 5)) = Inr 7" "req_nonce (reqs ?tp 5) < 7"
    by (simp_all add: demo_reqs_def fetchEthNonce_def demo_api_def)
  from retransmit_counts_as_success [OF 1 2 3 4, of 9] show ?thesis
    by (auto simp: success_case_for_retransmit_def)
qed

section \<open>Errors that get lost, requests that end\<close>

lemma set_retransmit_same: "retransmit (reqs tp p) = b \<Longrightarrow> set_retransmit b tp p = tp"
  by (cases "reqs tp p") (simp add: set_retransmit_def fun_upd_idem)

lemma set_back [simp]:
  "ready tp p \<Longrightarrow> i = processorIndex (reqs tp p) \<Longrightarrow>
     (retryMutex tp)[i := False] = retryMutex tp"
  by (simp add: ready_def list_update_same_conv shape_def)

text \<open>
  The error of a failed contract call can be replaced by a nonce error.  When the sender's
  cached nonce was refreshed less than two seconds before the failure is evaluated, \<open>eval\<close>
  forces a retry although the action of \<open>AuroraContractPanicked\<close> says not to retry; the request
  is queued again, \<open>sort\<close> rejects it because its nonce was already used, and once the refresh
  is allowed the caller is answered with \<open>ERR_INCORRECT_NONCE_R\<close>.
\<close>

theorem contract_panic_reported_as_nonce_error:
  assumes "ready tp p" "\<not> retransmit (reqs tp p)"
    and "classify False r = Ret (Evaluated False txnStatus_AuroraContractPanicked)"
    and "ethNonceCache tp (sender_key api (reqs tp p)) = Some nc"
    and "too_recent now nc" "req_nonce (reqs tp p) < nonce nc"
    and "TryEnqueue (unordered tp ! processorIndex (reqs tp p)) p = Ret (True, tq)"
    and "\<not> Expired t2 (reqs tp p)"
    and "\<not> too_recent t3 nc" "fetchEthNonce api (sender (reqs tp p)) = Inr n"
    and "req_nonce (reqs tp p) < n"
  shows "\<exists>r1 tp1 r3 tp3. on_response api now later tp p r = Ret (True, r1, tp1) \<and>
    sort_decide api t2 tp1 p = (SortRespond txnStatus_EthNonceTooLow, tp1) \<and>
    eval_txn api t3 t4 tp1 p (status_response t2 txnStatus_EthNonceTooLow) =
      Ret (False, r3, tp3) \<and>
    err r3 = Some ''ERR_INCORRECT_NONCE_R'' \<and> resp r3 = GNil"
proof -
  let ?i = "processorIndex (reqs tp p)"
  have retrans: "retransmit (reqs tp p) = False" using assms(2) by simp
  have recent: "recently_updated now (ethNonceCache tp) (sender_key api (reqs tp p))"
    using assms(4,5) by (simp add: recently_updated_def)
  then have upd: "updateEthNonceCache api now later (ethNonceCache tp) (sender (reqs tp p)) =
      ((False, None), ethNonceCache tp)"
    by (simp add: updateEthNonceCache_def Let_def sender_key_def)
  define tp1 where "tp1 = tp\<lparr>unordered := (unordered tp)[?i := tq],
      circuitBreaker := (circuitBreaker tp)[?i := False]\<rparr>"
  have i: "?i < length (unordered tp)" using assms(1) by (simp add: ready_def shape_def)
  have eval: "eval_txn api now later tp p r =
      Ret (True, r\<lparr>status := txnStatus_AuroraContractPanicked\<rparr>, set_breaker False tp ?i)"
    using assms(1,3) retrans
    by (simp add: eval_locked_eq make_action_def eval_eth_def upd Let_def near_refreshed_def
        set_retransmit_same)
  have on: "on_response api now later tp p r =
      Ret (True, r\<lparr>status := txnStatus_AuroraContractPanicked\<rparr>, tp1)"
    using assms(7) i
    by (simp add: on_response_def eval try_enqueue_unordered_def Let_def tp1_def set_breaker_def)
  have ready1: "ready tp1 p" and retrans1: "retransmit (reqs tp1 p) = False"
    using assms(1) retrans by (auto simp: tp1_def ready_def shape_def)
  have sort: "sort_decide api t2 tp1 p = (SortRespond txnStatus_EthNonceTooLow, tp1)"
    using assms(4,6,8) retrans by (simp add: sort_decide_def Let_def tp1_def)
  have upd3: "updateEthNonceCache api t3 t4 (ethNonceCache tp) (sender (reqs tp p)) =
      ((True, None), (ethNonceCache tp)(sender_key api (reqs tp p) \<mapsto>
        \<lparr>nonce = n, updateTime = t4\<rparr>))"
    using assms(4,9,10)
    by (cases rule: updateEth_cases [of t3 "ethNonceCache tp" api "sender (reqs tp p)" t4])
       (simp_all add: sender_key_def recently_updated_def)
  have cls: "classify False (status_response t2 txnStatus_EthNonceTooLow) =
      Ret (Evaluated False txnStatus_EthNonceTooLow)"
    by (simp add: classify_def status_response_def make_action_def)
  have "\<exists>r3 tp3. eval_txn api t3 t4 tp1 p (status_response t2 txnStatus_EthNonceTooLow) =
      Ret (False, r3, tp3) \<and> err r3 = Some ''ERR_INCORRECT_NONCE_R'' \<and> resp r3 = GNil"
    using ready1 retrans1 cls assms(11) upd3
    by (simp add: eval_locked_eq make_action_def eval_eth_def Let_def)
       (simp add: tp1_def status_response_def make_action_def retrans)
  with on sort show ?thesis by blast
qed

text \<open>A request with nonce 5 whose sender's cached nonce 6 was refreshed at time 0.\<close>

definition demo_sent :: proc where
  "demo_sent = demo_reqs\<lparr>ethNonceCache := [[] \<mapsto> \<lparr>nonce = 6, updateTime = 0\<rparr>]\<rparr>"

definition contract_failure :: txnResp where
  "contract_failure = near_response 9
     (GMap [(''status'', GMap [(''Failure'', GMap [(''ActionError'', GMap [(''kind'',
        GMap [(''FunctionCallError'', GMap [(''ExecutionError'',
          GStr ''out of gas'')])])])])])]) None"

theorem contract_panic_reported_as_nonce_error_witness:
  "\<exists>r1 tp1 r3 tp3. on_response demo_api second 0 demo_sent 5 contract_failure = Ret (True, r1, tp1) \<and>
     eval_txn demo_api (3 * second) 0 tp1 5 (status_response (2 * second) txnStatus_EthNonceTooLow) =
       Ret (False, r3, tp3) \<and> err r3 = Some ''ERR_INCORRECT_NONCE_R''"
proof -
  let ?nc = "\<lparr>nonce = 6, updateTime = 0\<rparr>"
  have 1: "ready demo_sent 5" "\<not> retransmit (reqs demo_sent 5)"
    by (simp_all add: ready_def shape_def demo_sent_def demo_reqs_def)
  have 2: "classify False contract_failure = Ret (Evaluated False txnStatus_AuroraContractPanicked)"
    by (simp add: classify_def contract_failure_def near_response_def isTxnResponseFailure_def
        getTxnStatusForFailureType_def statusMappingArray_def)
  have 3: "ethNonceCache demo_sent (sender_key demo_api (reqs demo_sent 5)) = Some ?nc"
    by (simp add: demo_sent_def demo_reqs_def sender_key_def demo_api_def string_of_bytes_def)
  have 4: "too_recent second ?nc" "\<not> too_recent (3 * second) ?nc"
    by (simp_all add: too_recent_def minNonceUpdateInterval_def)
  have 5: "req_nonce (reqs demo_sent 5) < nonce ?nc" "req_nonce (reqs demo_sent 5) < 7"
    and 6: "\<not> Expired (2 * second) (reqs demo_sent 5)"
    by (simp_all add: demo_sent_def demo_reqs_def Expired_def timeoutSeconds_def)
  have 7: "TryEnqueue (unordered demo_sent ! processorIndex (reqs demo_sent 5)) 5 =
      Ret (True, (NewTxnQ qCap)\<lparr>buffer := [5]\<rparr>)"
    by (simp add: demo_sent_def demo_reqs_def TryEnqueue_def NewTxnQ_def qCap_def)
  have 8: "fetchEthNonce demo_api (sender (reqs demo_sent 5)) = Inr 7"
    by (simp add: demo_sent_def demo_reqs_def fetchEthNonce_def demo_api_def)
  from contract_panic_reported_as_nonce_error [OF 1 2 3 4(1) 5(1) 7 6 4(2) 8 5(2), of 0 0]
  show ?thesis by blast
qed

text \<open>
  C33. An expired request ends: the sort worker answers it with \<open>ERR_TXN_TIMEOUT_3_R\<close> without
  touching caches or queues, and the evaluation of that answer never retries it, whatever the
  state it is evaluated in.
\<close>

theorem expired_request_ends:
  assumes "ready tp p" "Expired now (reqs tp p)"
  shows "\<exists>x. sort_txn api now later tp p = Ret (tp\<lparr>respChan := (respChan tp)(p := [x])\<rparr>) \<and>
    err x = Some ''ERR_TXN_TIMEOUT_3_R'' \<and>
    (\<forall>tp' t t'. processorIndex (reqs tp' p) < length (keys tp') \<longrightarrow>
       (\<exists>tp''. on_response api t t' tp' p x = Ret (False, x, tp'')))"
proof -
  let ?x = "status_response now txnStatus_TimeOutError3"
  have "sort_txn api now later tp p = Ret (tp\<lparr>respChan := (respChan tp)(p := [?x])\<rparr>)"
    using assms
    by (simp add: sort_txn_def ready_def shape_def sort_decide_def Let_def sort_finish_def
        RespondWithStatus_def respond_def)
  moreover have "\<exists>tp''. on_response api t t' tp' p ?x = Ret (False, ?x, tp'')"
    if "processorIndex (reqs tp' p) < length (keys tp')" for tp' t t'
  proof -
    have cls: "classify b ?x = Ret (Evaluated b txnStatus_TimeOutError3)" for b
      by (simp add: classify_def status_response_def make_action_def)
    have st: "?x\<lparr>status := txnStatus_TimeOutError3\<rparr> = ?x" "status ?x = txnStatus_TimeOutError3"
      by (simp_all add: status_response_def)
    show ?thesis
      using that
      by (simp add: on_response_def eval_txn_def cls needs_lock_def make_action_def Let_def
          eval_body_eq eval_tail_def near_refreshed_def st)
  qed
  ultimately show ?thesis
    by (intro exI [of _ ?x]) (simp add: status_response_def make_action_def)
qed

theorem expired_request_ends_witness:
  "\<exists>x. sort_txn demo_api (61 * second) 0 demo_reqs 5 =
     Ret (demo_reqs\<lparr>respChan := (respChan demo_reqs)(5 := [x])\<rparr>)"
proof -
  have "ready demo_reqs 5" "Expired (61 * second) (reqs demo_reqs 5)"
    by (simp_all add: ready_def shape_def demo_reqs_def Expired_def timeoutSeconds_def)
  from expired_request_ends [OF this, of demo_api 0] show ?thesis by blast
qed

section \<open>After Close\<close>

lemma close_all_closed:
  "close_all tqs = Ret tqs' \<Longrightarrow> length tqs' = length tqs \<and> (\<forall>i < length tqs. closed (tqs' ! i))"
proof (induction tqs arbitrary: tqs')
  case (Cons tq tqs)
  then obtain ts where ts: "close_all tqs = Ret ts" "tqs' = tq\<lparr>closed := True\<rparr> # ts"
    by (auto simp: bind_outcome_Ret_iff close_queue_def split: if_splits)
  from Cons.IH [OF ts(1)] show ?case
    by (auto simp: ts(2) nth_Cons split: nat.split)
qed simp

text \<open>
  C40. \<open>Close\<close> does not stop the timers and the retry loops: when the timer of a deferred request
  fires after \<open>Close\<close>, or a response asks for a retry, the push into the closed queue panics.
\<close>

theorem push_after_Close_panics:
  assumes "Close tp = Ret tp'" "shape tp" "processorIndex (reqs tp p) < length (keys tp)"
  shows "timer_fire now tp' p = Panic SendOnClosed \<and>
    (\<forall>r r' tp2. eval_txn api now later tp' p r = Ret (True, r', tp2) \<longrightarrow>
       on_response api now later tp' p r = Panic SendOnClosed)"
proof -
  obtain us os where tp': "tp' = tp\<lparr>unordered := us, ordered := os\<rparr>"
    and us: "close_all (unordered tp) = Ret us"
    using assms(1) by (auto simp: Close_def bind_outcome_Ret_iff)
  have push: "try_enqueue_unordered tp2 p = Panic SendOnClosed" if "same_queues tp' tp2" for tp2
    using that assms(2,3) close_all_closed [OF us]
    by (simp add: try_enqueue_unordered_def Let_def shape_def TryEnqueue_def same_queues_def tp')
  have "on_response api now later tp' p r = Panic SendOnClosed"
    if "eval_txn api now later tp' p r = Ret (True, r', tp2)" for r r' tp2
    using that push eval_txn_same_queues [OF _ that] assms(3)
    by (simp add: on_response_def tp')
  with push [of tp'] show ?thesis by (auto simp: timer_fire_def)
qed

definition demo_closed :: proc where
  "demo_closed = demo_reqs
     \<lparr>unordered := [(NewTxnQ qCap)\<lparr>closed := True\<rparr>, (NewTxnQ qCap)\<lparr>closed := True\<rparr>],
      ordered := [(NewTxnQ qCap)\<lparr>closed := True\<rparr>, (NewTxnQ qCap)\<lparr>closed := True\<rparr>]\<rparr>"

theorem push_after_Close_panics_witness:
  "Close demo_reqs = Ret demo_closed \<and> timer_fire 0 demo_closed 5 = Panic SendOnClosed"
proof -
  have 1: "Close demo_reqs = Ret demo_closed"
    by (simp add: Close_def demo_reqs_def demo_closed_def close_queue_def NewTxnQ_def)
  have 2: "shape demo_reqs" "processorIndex (reqs demo_reqs 5) < length (keys demo_reqs)"
    by (simp_all add: shape_def demo_reqs_def)
  from 1 push_after_Close_panics [OF 1 2] show ?thesis by blast
qed

end
