(* ===== verification/TxnDelivery.thy ===== *)
theory TxnDelivery
  imports TxnEval
begin

text \<open>
  Where a submitted request can be: in one of the two queues of its key, with a pending timer,
  with a goroutine that waits for NEAR, or answered, with the answer in its response channel.
  The operations of the processor that move a request (\<open>sort\<close>, a timer, \<open>send\<close>, the end of a
  call) share a contract, the locale \<open>delivery\<close>: the request goes to exactly one of these
  places, and nothing else moves.
\<close>

section \<open>Counting the places of a request\<close>

abbreviation idx :: "proc \<Rightarrow> ptr \<Rightarrow> nat" where
  "idx tp p \<equiv> processorIndex (reqs tp p)"

text \<open>How often a request occurs in the items of a list, \<open>f\<close> giving the requests of an item.\<close>

definition held :: "('a \<Rightarrow> ptr list) \<Rightarrow> 'a list \<Rightarrow> ptr \<Rightarrow> nat" where
  "held f xs p = sum_list (map (\<lambda>x. count_list (f x) p) xs)"

abbreviation queued :: "ptr txnq list \<Rightarrow> ptr \<Rightarrow> nat" where
  "queued \<equiv> held buffer"

definition load :: "proc \<Rightarrow> ptr \<Rightarrow> nat" where
  "load tp p =
     queued (unordered tp) p + queued (ordered tp) p + count_list (map fst (timers tp)) p +
     count_list (map fst (sends tp)) p + length (respChan tp p)"

lemma respChan_le_load: "length (respChan tp p) \<le> load tp p"
  by (simp add: load_def)

lemma held_update:
  "i < length xs \<Longrightarrow>
     held f (xs[i := x]) p + count_list (f (xs ! i)) p = held f xs p + count_list (f x) p"
  unfolding held_def using sum_list_map_update [of i xs "\<lambda>x. count_list (f x) p" x] by simp

lemma held_le: "i < length xs \<Longrightarrow> count_list (f (xs ! i)) p \<le> held f xs p"
  unfolding held_def
  by (induction xs arbitrary: i) (auto simp: nth_Cons trans_le_add2 split: nat.split)

lemma held_replicate: "f x = [] \<Longrightarrow> held f (replicate n x) p = 0"
  by (induction n) (simp_all add: held_def)

lemma queued_push:
  "i < length tqs \<Longrightarrow> buffer tq = buffer (tqs ! i) @ [q] \<Longrightarrow>
     queued (tqs[i := tq]) p = queued tqs p + of_bool (p = q)"
  using held_update [of i tqs buffer tq p] by auto

lemma queued_pop:
  "i < length tqs \<Longrightarrow> buffer (tqs ! i) = q # buffer tq \<Longrightarrow>
     queued tqs p = queued (tqs[i := tq]) p + of_bool (p = q)"
  using held_update [of i tqs buffer tq p] by (auto split: if_splits)

section \<open>Well-formed processors\<close>

text \<open>Every queue is open, and a request is only ever in the queues of its own key.\<close>

definition routed :: "proc \<Rightarrow> ptr txnq list \<Rightarrow> bool" where
  "routed tp tqs \<longleftrightarrow>
     length tqs = length (keys tp) \<and>
     (\<forall>i < length tqs. \<not> closed (tqs ! i) \<and> 0 < capacity (tqs ! i) \<and>
        (\<forall>p \<in> set (buffer (tqs ! i)). idx tp p = i))"

definition in_range :: "proc \<Rightarrow> ptr list \<Rightarrow> bool" where
  "in_range tp ps \<longleftrightarrow> (\<forall>p \<in> set ps. idx tp p < length (keys tp))"

definition good :: "proc \<Rightarrow> bool" where
  "good tp \<longleftrightarrow>
     shape tp \<and> routed tp (unordered tp) \<and> routed tp (ordered tp) \<and>
     in_range tp (map fst (timers tp)) \<and> in_range tp (map fst (sends tp))"

lemma update_frame [simp]:
  "routed (tp\<lparr>respChan := c\<rparr>) = routed tp" "in_range (tp\<lparr>respChan := c\<rparr>) = in_range tp"
  "routed (tp\<lparr>ordered := qs\<rparr>) = routed tp" "in_range (tp\<lparr>ordered := qs\<rparr>) = in_range tp"
  "routed (tp\<lparr>unordered := qs\<rparr>) = routed tp" "in_range (tp\<lparr>unordered := qs\<rparr>) = in_range tp"
  "routed (tp\<lparr>timers := ts\<rparr>) = routed tp" "in_range (tp\<lparr>timers := ts\<rparr>) = in_range tp"
  "routed (tp\<lparr>sends := ss\<rparr>) = routed tp" "in_range (tp\<lparr>sends := ss\<rparr>) = in_range tp"
  "routed (tp\<lparr>ethNonceCache := m\<rparr>) = routed tp" "in_range (tp\<lparr>ethNonceCache := m\<rparr>) = in_range tp"
  "routed (tp\<lparr>nearNonceCache := m\<rparr>) = routed tp" "in_range (tp\<lparr>nearNonceCache := m\<rparr>) = in_range tp"
  by (simp_all add: routed_def in_range_def fun_eq_iff)

lemma in_range_append [simp]: "in_range tp (ps @ qs) \<longleftrightarrow> in_range tp ps \<and> in_range tp qs"
  "in_range tp (p # qs) \<longleftrightarrow> idx tp p < length (keys tp) \<and> in_range tp qs" "in_range tp []"
  by (auto simp: in_range_def)

lemma shape_frame [simp]:
  "shape (tp\<lparr>respChan := c\<rparr>) = shape tp" "shape (tp\<lparr>timers := ts\<rparr>) = shape tp"
  "shape (tp\<lparr>sends := ss\<rparr>) = shape tp" "shape (tp\<lparr>ethNonceCache := m\<rparr>) = shape tp"
  "shape (tp\<lparr>nearNonceCache := m\<rparr>) = shape tp"
  "length qs = length (ordered tp) \<Longrightarrow> shape (tp\<lparr>ordered := qs\<rparr>) = shape tp"
  "length us = length (unordered tp) \<Longrightarrow> shape (tp\<lparr>unordered := us\<rparr>) = shape tp"
  by (simp_all add: shape_def)

lemma routed_push:
  assumes "routed tp tqs" "i < length tqs" "buffer tq = buffer (tqs ! i) @ [p]" "idx tp p = i"
    and "closed tq = closed (tqs ! i)" "capacity tq = capacity (tqs ! i)"
  shows "routed tp (tqs[i := tq])"
  using assms by (auto simp: routed_def nth_list_update)

lemma routed_pop:
  assumes "routed tp tqs" "i < length tqs" "buffer (tqs ! i) = p # buffer tq"
    and "closed tq = closed (tqs ! i)" "capacity tq = capacity (tqs ! i)"
  shows "routed tp (tqs[i := tq]) \<and> idx tp p = i"
  using assms by (auto simp: routed_def nth_list_update)

lemma routed_open: "routed tp tqs \<Longrightarrow> i < length tqs \<Longrightarrow> \<not> closed (tqs ! i)"
  and routed_capacity: "routed tp tqs \<Longrightarrow> i < length tqs \<Longrightarrow> 0 < capacity (tqs ! i)"
  and routed_idx: "routed tp tqs \<Longrightarrow> i < length tqs \<Longrightarrow> p \<in> set (buffer (tqs ! i)) \<Longrightarrow> idx tp p = i"
  by (simp_all add: routed_def)

lemma routed_cong:
  "keys tp' = keys tp \<Longrightarrow> (\<And>p. idx tp' p = idx tp p) \<Longrightarrow> routed tp' tqs = routed tp tqs"
  by (simp add: routed_def)

lemma good_lengths:
  "good tp \<Longrightarrow> length (retryMutex tp) = length (keys tp)"
  "good tp \<Longrightarrow> length (circuitBreaker tp) = length (keys tp)"
  "good tp \<Longrightarrow> length (ordered tp) = length (keys tp)"
  "good tp \<Longrightarrow> length (unordered tp) = length (keys tp)"
  by (simp_all add: good_def shape_def)

text \<open>Changes that move no request.\<close>

definition same_places :: "proc \<Rightarrow> proc \<Rightarrow> bool" where
  "same_places tp tp' \<longleftrightarrow>
     keys tp' = keys tp \<and> unordered tp' = unordered tp \<and> ordered tp' = ordered tp \<and>
     timers tp' = timers tp \<and> sends tp' = sends tp \<and> respChan tp' = respChan tp \<and>
     (\<forall>p. idx tp' p = idx tp p) \<and> length (retryMutex tp') = length (retryMutex tp) \<and>
     length (circuitBreaker tp') = length (circuitBreaker tp)"

lemma same_places_load: "same_places tp tp' \<Longrightarrow> load tp' = load tp"
  by (auto simp: same_places_def load_def fun_eq_iff)

lemma in_range_cong:
  "keys tp' = keys tp \<Longrightarrow> (\<And>p. idx tp' p = idx tp p) \<Longrightarrow> in_range tp' ps = in_range tp ps"
  by (simp add: in_range_def)

lemma same_places_good:
  assumes "same_places tp tp'" "good tp"
  shows "good tp'"
proof -
  have "keys tp' = keys tp" "\<And>p. idx tp' p = idx tp p"
    using assms(1) by (simp_all add: same_places_def)
  note cong = routed_cong [OF this] in_range_cong [OF this]
  from assms show ?thesis by (simp add: good_def cong) (simp add: same_places_def shape_def)
qed

section \<open>The contract\<close>

definition delivered :: "proc \<Rightarrow> ptr \<Rightarrow> proc \<Rightarrow> bool" where
  "delivered tp p tp' \<longleftrightarrow>
     good tp' \<and> (\<forall>q. load tp' q = load tp q + of_bool (q = p)) \<and> keys tp' = keys tp \<and>
     reqs tp' = reqs tp \<and> retryMutex tp' = retryMutex tp \<and> circuitBreaker tp' = circuitBreaker tp"

locale delivery =
  fixes deliver :: "proc \<Rightarrow> ptr \<Rightarrow> proc outcome"
  assumes delivers: "good tp \<Longrightarrow> idx tp p < length (keys tp) \<Longrightarrow> deliver tp p = Ret tp' \<Longrightarrow>
      delivered tp p tp'"
    and no_panic: "good tp \<Longrightarrow> idx tp p < length (keys tp) \<Longrightarrow> deliver tp p \<noteq> Panic k"
    and blocks: "good tp \<Longrightarrow> idx tp p < length (keys tp) \<Longrightarrow> deliver tp p = Blocked \<Longrightarrow>
      respChan tp p \<noteq> [] \<or> buffer (ordered tp ! idx tp p) \<noteq> []"
begin

lemma keeps_good: "good tp \<Longrightarrow> idx tp p < length (keys tp) \<Longrightarrow> deliver tp p = Ret tp' \<Longrightarrow> good tp'"
  by (drule (2) delivers) (simp add: delivered_def)

lemma moves_one:
  "good tp \<Longrightarrow> idx tp p < length (keys tp) \<Longrightarrow> deliver tp p = Ret tp' \<Longrightarrow>
     load tp' q = load tp q + of_bool (q = p)"
  by (drule (2) delivers) (simp add: delivered_def)

end

locale prompt_delivery = delivery +
  assumes prompt: "good tp \<Longrightarrow> idx tp p < length (keys tp) \<Longrightarrow> respChan tp p = [] \<Longrightarrow>
      deliver tp p \<noteq> Blocked"
begin

lemma returns_when_unanswered:
  assumes "good tp" "idx tp p < length (keys tp)" "load tp p = 0"
  shows "\<exists>tp'. deliver tp p = Ret tp'"
proof -
  have "respChan tp p = []" using assms(3) respChan_le_load [of tp p] by simp
  with assms prompt no_panic show ?thesis by (cases "deliver tp p") auto
qed

end

section \<open>The operations that deliver\<close>

lemma respond_delivers: "respond tp p r = Ret tp' \<Longrightarrow> good tp \<Longrightarrow> delivered tp p tp'"
  by (auto simp: respond_def delivered_def load_def good_def split: if_splits)

lemma respond_blocks: "respond tp p r = Blocked \<longleftrightarrow> respChan tp p \<noteq> []"
  "respond tp p r \<noteq> Panic k"
  by (simp_all add: respond_def)

lemma enqueue_ordered_delivers:
  assumes "good tp" "enqueue_ordered tp p = Ret tp'"
  shows "delivered tp p tp'"
proof -
  let ?i = "idx tp p"
  obtain tq where tq: "?i < length (ordered tp)" "Enqueue (ordered tp ! ?i) p = Ret tq"
      "tp' = tp\<lparr>ordered := (ordered tp)[?i := tq]\<rparr>"
    using assms(2)
    by (cases "?i < length (ordered tp)")
       (auto simp: enqueue_ordered_def Let_def bind_outcome_Ret_iff)
  have b: "buffer tq = buffer (ordered tp ! ?i) @ [p]" "closed tq = closed (ordered tp ! ?i)"
      "capacity tq = capacity (ordered tp ! ?i)"
    using tq(2) by (auto simp: Enqueue_Ret_iff)
  have "routed tp (ordered tp)" using assms(1) by (simp add: good_def)
  from routed_push [OF this tq(1) b(1) refl b(2,3)] queued_push [OF tq(1) b(1)] assms(1)
  show ?thesis
    by (simp add: delivered_def tq(3) good_def load_def)
qed

lemma enqueue_unordered_delivers:
  assumes "good tp" "enqueue_unordered tp p = Ret tp'"
  shows "delivered tp p tp'"
proof -
  let ?i = "idx tp p"
  obtain tq where tq: "?i < length (unordered tp)" "Enqueue (unordered tp ! ?i) p = Ret tq"
      "tp' = tp\<lparr>unordered := (unordered tp)[?i := tq]\<rparr>"
    using assms(2)
    by (cases "?i < length (unordered tp)")
       (auto simp: enqueue_unordered_def Let_def bind_outcome_Ret_iff)
  have b: "buffer tq = buffer (unordered tp ! ?i) @ [p]" "closed tq = closed (unordered tp ! ?i)"
      "capacity tq = capacity (unordered tp ! ?i)"
    using tq(2) by (auto simp: Enqueue_Ret_iff)
  have "routed tp (unordered tp)" using assms(1) by (simp add: good_def)
  from routed_push [OF this tq(1) b(1) refl b(2,3)] queued_push [OF tq(1) b(1)] assms(1)
  show ?thesis
    by (simp add: delivered_def tq(3) good_def load_def)
qed

text \<open>A push that does not wait is the same push when there is room, and changes nothing else.\<close>

lemma try_enqueue_cases:
  assumes "good tp" "idx tp p < length (keys tp)"
  obtains (pushed) tp' where "try_enqueue_unordered tp p = Ret (True, tp')" "delivered tp p tp'"
  | (full) "try_enqueue_unordered tp p = Ret (False, tp)"
proof -
  let ?i = "idx tp p" and ?tq = "unordered tp ! idx tp p"
  have i: "?i < length (unordered tp)" using assms by (simp add: good_lengths)
  then have open_q: "\<not> closed ?tq" using assms(1) routed_open [of tp "unordered tp"] by (simp add: good_def)
  show ?thesis
  proof (cases "length (buffer ?tq) < capacity ?tq")
    case True
    with open_q i have e: "enqueue_unordered tp p =
        Ret (tp\<lparr>unordered := (unordered tp)[?i := ?tq\<lparr>buffer := buffer ?tq @ [p]\<rparr>]\<rparr>)"
      by (simp add: enqueue_unordered_def Let_def Enqueue_def)
    have "try_enqueue_unordered tp p =
        Ret (True, tp\<lparr>unordered := (unordered tp)[?i := ?tq\<lparr>buffer := buffer ?tq @ [p]\<rparr>]\<rparr>)"
      using True open_q i by (simp add: try_enqueue_unordered_def Let_def TryEnqueue_def)
    with pushed enqueue_unordered_delivers [OF assms(1) e] show ?thesis by blast
  next
    case False
    with open_q i have "try_enqueue_unordered tp p = Ret (False, tp)"
      by (simp add: try_enqueue_unordered_def Let_def TryEnqueue_def)
    with full show ?thesis by blast
  qed
qed

lemma delivered_after: "same_places tp tp1 \<Longrightarrow> reqs tp1 = reqs tp \<Longrightarrow>
    retryMutex tp1 = retryMutex tp \<Longrightarrow> circuitBreaker tp1 = circuitBreaker tp \<Longrightarrow>
    delivered tp1 p tp' \<Longrightarrow> delivered tp p tp'"
  by (simp add: delivered_def same_places_load) (simp add: same_places_def)

interpretation answer: prompt_delivery "\<lambda>tp p. respond tp p r" for r
  by unfold_locales (auto simp: respond_blocks intro: respond_delivers)

interpretation reply: prompt_delivery "\<lambda>tp p. send_reply now tp p r e" for now r e
  unfolding send_reply_def by (rule answer.prompt_delivery_axioms)


lemma nonce_caches_same_places [simp]:
  "same_places tp (tp\<lparr>ethNonceCache := m\<rparr>)" "same_places tp (tp\<lparr>nearNonceCache := m\<rparr>)"
  by (simp_all add: same_places_def)

lemma add_timer_delivers:
  "good tp \<Longrightarrow> idx tp p < length (keys tp) \<Longrightarrow> delivered tp p (tp\<lparr>timers := timers tp @ [(p, t)]\<rparr>)"
  by (simp add: delivered_def good_def load_def)

lemma add_send_delivers:
  "good tp \<Longrightarrow> idx tp p < length (keys tp) \<Longrightarrow>
     delivered tp p (tp\<lparr>sends := sends tp @ [(p, k, n)]\<rparr>)"
  by (simp add: delivered_def good_def load_def)

lemma delivered_before: "delivered tp p tp1 \<Longrightarrow> same_places tp1 tp' \<Longrightarrow> reqs tp' = reqs tp1 \<Longrightarrow>
    retryMutex tp' = retryMutex tp1 \<Longrightarrow> circuitBreaker tp' = circuitBreaker tp1 \<Longrightarrow>
    delivered tp p tp'"
  using same_places_good [of tp1 tp']
  by (simp add: delivered_def same_places_load) (simp add: same_places_def)

lemma sort_defer_delivers:
  assumes "good tp" "idx tp p < length (keys tp)"
  shows "delivered tp p (sort_defer api now later tp p)"
proof -
  have "delivered tp p (tp\<lparr>timers := timers tp @ [(p, now + enqueueWait)]\<rparr>)"
    using assms by (rule add_timer_delivers)
  from delivered_before [OF this nonce_caches_same_places(1)] show ?thesis
    by (simp add: sort_defer_def)
qed

lemma timer_fire_cases:
  assumes "good tp" "idx tp p < length (keys tp)"
  obtains (pushed) tp' where "timer_fire now tp p = Ret tp'" "delivered tp p tp'"
  | (answered) "timer_fire now tp p = RespondWithStatus now tp p txnStatus_Exhausted"
  by (rule try_enqueue_cases [OF assms]) (simp_all add: timer_fire_def)

interpretation timer: prompt_delivery "timer_fire now" for now
proof
  fix tp p assume g: "good tp" "idx tp p < length (keys tp)"
  show "delivered tp p tp'" if "timer_fire now tp p = Ret tp'" for tp'
    using timer_fire_cases [OF g, of now] that g respond_delivers
    by (cases rule: timer_fire_cases [OF g, of now]) (auto simp: RespondWithStatus_def)
  show "timer_fire now tp p \<noteq> Panic k" for k
    by (cases rule: timer_fire_cases [OF g, of now]) (simp_all add: RespondWithStatus_def respond_blocks)
  show "respChan tp p \<noteq> [] \<or> buffer (ordered tp ! idx tp p) \<noteq> []" if "timer_fire now tp p = Blocked"
    using that
    by (cases rule: timer_fire_cases [OF g, of now]) (simp_all add: RespondWithStatus_def respond_blocks)
  show "timer_fire now tp p \<noteq> Blocked" if "respChan tp p = []"
    using that
    by (cases rule: timer_fire_cases [OF g, of now]) (simp_all add: RespondWithStatus_def respond_blocks)
qed

lemma send_txn_cases:
  assumes "good tp" "idx tp p < length (keys tp)"
  obtains (answered) s c where
      "send_txn api now tp p = RespondWithStatus now (tp\<lparr>nearNonceCache := c\<rparr>) p s"
  | (sent) c k n where
      "send_txn api now tp p = Ret (tp\<lparr>nearNonceCache := c, sends := sends tp @ [(p, k, n)]\<rparr>)"
proof -
  let ?i = "idx tp p"
  have i: "?i < length (circuitBreaker tp)" "?i < length (keys tp)"
    using assms by (simp_all add: good_lengths)
  have same: "tp\<lparr>nearNonceCache := nearNonceCache tp\<rparr> = tp" by simp
  obtain r c where next_nonce: "nextNearNonce api now (nearNonceCache tp) (keys tp ! ?i) = (r, c)"
    by (cases "nextNearNonce api now (nearNonceCache tp) (keys tp ! ?i)")
  consider "circuitBreaker tp ! ?i" | "\<not> circuitBreaker tp ! ?i" "Expired now (reqs tp p)"
    | "\<not> circuitBreaker tp ! ?i" "\<not> Expired now (reqs tp p)" by blast
  then show ?thesis
  proof cases
    case 1
    with i answered [where c = "nearNonceCache tp"] show ?thesis by (simp add: send_txn_def Let_def same)
  next
    case 2
    with i answered [where c = "nearNonceCache tp"] show ?thesis by (simp add: send_txn_def Let_def same)
  next
    case 3
    show ?thesis
    proof (cases r)
      case (Inl e)
      with 3 i next_nonce answered [where c = c] show ?thesis by (simp add: send_txn_def Let_def)
    next
      case (Inr n)
      with 3 i next_nonce sent [where c = c] show ?thesis by (simp add: send_txn_def Let_def)
    qed
  qed
qed

interpretation sender: prompt_delivery "send_txn api now" for api now
proof
  fix tp p assume g: "good tp" "idx tp p < length (keys tp)"
  have g': "good (tp\<lparr>nearNonceCache := c\<rparr>)" for c
    using same_places_good [OF nonce_caches_same_places(2) g(1)] .
  show "delivered tp p tp'" if "send_txn api now tp p = Ret tp'" for tp'
  proof (cases rule: send_txn_cases [OF g, of api now])
    case (1 s c)
    with that have "delivered (tp\<lparr>nearNonceCache := c\<rparr>) p tp'"
      using respond_delivers [OF _ g'] by (simp add: RespondWithStatus_def)
    then show ?thesis by (rule delivered_after [rotated -1]) simp_all
  next
    case (2 c k n)
    with that have tp': "tp' = tp\<lparr>nearNonceCache := c, sends := sends tp @ [(p, k, n)]\<rparr>" by simp
    have "delivered (tp\<lparr>nearNonceCache := c\<rparr>) p tp'"
      using add_send_delivers [OF g'] g(2) by (simp add: tp')
    then show ?thesis by (rule delivered_after [rotated -1]) simp_all
  qed
  show "send_txn api now tp p \<noteq> Panic k" for k
    by (cases rule: send_txn_cases [OF g, of api now]) (simp_all add: RespondWithStatus_def respond_blocks)
  show "respChan tp p \<noteq> [] \<or> buffer (ordered tp ! idx tp p) \<noteq> []" if "send_txn api now tp p = Blocked"
    using that
    by (cases rule: send_txn_cases [OF g, of api now]) (simp_all add: RespondWithStatus_def respond_blocks)
  show "send_txn api now tp p \<noteq> Blocked" if "respChan tp p = []"
    using that
    by (cases rule: send_txn_cases [OF g, of api now]) (simp_all add: RespondWithStatus_def respond_blocks)
qed

lemma enqueue_ordered_blocks:
  assumes "good tp" "idx tp p < length (keys tp)"
  shows "enqueue_ordered tp p \<noteq> Panic k"
    and "enqueue_ordered tp p = Blocked \<Longrightarrow> buffer (ordered tp ! idx tp p) \<noteq> []"
proof -
  have i: "idx tp p < length (ordered tp)" using assms by (simp add: good_lengths)
  have "routed tp (ordered tp)" using assms(1) by (simp add: good_def)
  with i have "\<not> closed (ordered tp ! idx tp p)" "0 < capacity (ordered tp ! idx tp p)"
    by (simp_all add: routed_open routed_capacity)
  with i show "enqueue_ordered tp p \<noteq> Panic k"
      "enqueue_ordered tp p = Blocked \<Longrightarrow> buffer (ordered tp ! idx tp p) \<noteq> []"
    by (auto simp: enqueue_ordered_def Let_def Enqueue_def split: if_splits)
qed

text \<open>\<open>sort\<close> alone can wait for anything but a response channel: for room in the ordered queue.\<close>

interpretation sorter: delivery "sort_finish api now later act" for api now later act
proof
  fix tp p assume g: "good tp" "idx tp p < length (keys tp)"
  show "delivered tp p tp'" if "sort_finish api now later act tp p = Ret tp'" for tp'
    using that g respond_delivers enqueue_ordered_delivers sort_defer_delivers
    by (cases act) (auto simp: sort_finish_def RespondWithStatus_def)
  show "sort_finish api now later act tp p \<noteq> Panic k" for k
    using enqueue_ordered_blocks(1) [OF g]
    by (cases act) (simp_all add: sort_finish_def RespondWithStatus_def respond_blocks)
  show "respChan tp p \<noteq> [] \<or> buffer (ordered tp ! idx tp p) \<noteq> []"
    if "sort_finish api now later act tp p = Blocked"
    using that enqueue_ordered_blocks(2) [OF g]
    by (cases act) (simp_all add: sort_finish_def RespondWithStatus_def respond_blocks)
qed

end
