(* ===== verification/TxnSystem.thy ===== *)
theory TxnSystem
  imports TxnDelivery
begin

text \<open>
  The transaction processor as it runs: any number of callers of \<open>Submit\<close>, the goroutine each
  starts to wait for responses, one sort and one send worker per key, the timers and the calls
  to NEAR, interleaved in every order.  A step is an event; \<open>fire\<close> computes it.  The remote
  results and the readings of the clock are part of the events.  These are the events until
  \<open>Close\<close>; theory \<open>TxnClose\<close> adds the steps of \<open>Close\<close> itself.
\<close>

section \<open>State\<close>

text \<open>
  The goroutine of a submitted request, by the statement it is at: waiting for a response;
  evaluating it; waiting for the lock; between lock and breaker; in the body of \<open>eval\<close> (the flag
  tells whether it holds the lock); in the deferred function before the unlock and before the
  breaker is cleared; at the decision to retry; finished, with the final response.
\<close>

datatype waiter =
    WNone
  | WWait
  | WEval txnResp
  | WLock txnResp
  | WBreaker txnResp
  | WBody bool txnResp
  | WUnlock bool txnResp
  | WClear bool txnResp
  | WDecide bool txnResp
  | WDone txnResp

text \<open>
  The sort worker of a key: idle, with a request taken from the queue, or holding the lock with
  a decided request.  The send worker: idle or with a request taken.
\<close>

datatype sorter = SIdle | STaken ptr | SHolding sort_action ptr

datatype sender = NIdle | NTaken ptr

record tsys =
  sp :: proc
  submitting :: "ptr list"
  sorters :: "sorter list"
  senders :: "sender list"
  waiter_of :: "ptr \<Rightarrow> waiter"

definition tsys_start :: "EngineConfig \<Rightarrow> string list \<Rightarrow> tsys" where
  "tsys_start config ks =
     \<lparr>sp = NewTxnProcessor config ks, submitting = [], sorters = replicate (length ks) SIdle,
      senders = replicate (length ks) NIdle, waiter_of = (\<lambda>_. WNone)\<rparr>"

section \<open>Events\<close>

datatype event =
    EvSubmit ptr txnReq
  | EvPush ptr
  | EvSortTake nat
  | EvSortLock nat int
  | EvSortFinish nat int int
  | EvTimer nat int
  | EvSendTake nat
  | EvSend nat int
  | EvReply nat int goval "error option"
  | EvRecv ptr
  | EvClassify ptr
  | EvLock ptr
  | EvBreaker ptr
  | EvBody ptr int int
  | EvUnlock ptr
  | EvClear ptr
  | EvDecide ptr

definition drop_nth :: "nat \<Rightarrow> 'a list \<Rightarrow> 'a list" where
  "drop_nth k xs = take k xs @ drop (Suc k) xs"

definition set_waiter :: "ptr \<Rightarrow> waiter \<Rightarrow> tsys \<Rightarrow> tsys" where
  "set_waiter p x s = s\<lparr>waiter_of := (waiter_of s)(p := x)\<rparr>"

text \<open>
  \<open>Submit\<close> on a new request, accepted by \<open>NewTxnReq\<close>: the waiting goroutine starts, the push
  into the unordered queue follows.
\<close>

definition fire_submit :: "ptr \<Rightarrow> txnReq \<Rightarrow> tsys \<Rightarrow> tsys outcome" where
  "fire_submit p req s =
     (if waiter_of s p = WNone \<and> processorIndex req < length (keys (sp s)) then
        Ret (set_waiter p WWait
               (s\<lparr>sp := (sp s)\<lparr>reqs := (reqs (sp s))(p := req)\<rparr>, submitting := submitting s @ [p]\<rparr>))
      else Blocked)"

definition fire_push :: "ptr \<Rightarrow> tsys \<Rightarrow> tsys outcome" where
  "fire_push p s =
     (if p \<in> set (submitting s) then
        bind_outcome (enqueue_unordered (sp s) p) (\<lambda>tp'.
          Ret (s\<lparr>sp := tp', submitting := remove1 p (submitting s)\<rparr>))
      else Blocked)"

text \<open>The workers: \<open>data := <-q.q\<close>, then the call of \<open>sort\<close> or \<open>send\<close>.\<close>

definition fire_sort_take :: "nat \<Rightarrow> tsys \<Rightarrow> tsys outcome" where
  "fire_sort_take i s =
     (if i < length (sorters s) \<and> sorters s ! i = SIdle then
        bind_outcome (slice_get (unordered (sp s)) i) (\<lambda>tq.
        bind_outcome (receive tq) (\<lambda>(x, tq').
          case x of
            None \<Rightarrow> Blocked
          | Some p \<Rightarrow> Ret (s\<lparr>sp := (sp s)\<lparr>unordered := (unordered (sp s))[i := tq']\<rparr>,
                            sorters := (sorters s)[i := STaken p]\<rparr>)))
      else Blocked)"

definition fire_sort_lock :: "near_api \<Rightarrow> nat \<Rightarrow> int \<Rightarrow> tsys \<Rightarrow> tsys outcome" where
  "fire_sort_lock api i now s =
     (if i < length (sorters s) then
        (case sorters s ! i of
           STaken p \<Rightarrow>
             bind_outcome (slice_get (retryMutex (sp s)) (idx (sp s) p)) (\<lambda>locked.
               if locked then Blocked
               else (let (act, tp') = sort_decide api now (sp s) p
                     in Ret (s\<lparr>sp := set_mutex True tp' (idx (sp s) p),
                               sorters := (sorters s)[i := SHolding act p]\<rparr>)))
         | _ \<Rightarrow> Blocked)
      else Blocked)"

definition fire_sort_finish :: "near_api \<Rightarrow> nat \<Rightarrow> int \<Rightarrow> int \<Rightarrow> tsys \<Rightarrow> tsys outcome" where
  "fire_sort_finish api i now later s =
     (if i < length (sorters s) then
        (case sorters s ! i of
           SHolding act p \<Rightarrow>
             bind_outcome (sort_finish api now later act (sp s) p) (\<lambda>tp'.
               Ret (s\<lparr>sp := set_mutex False tp' (idx (sp s) p), sorters := (sorters s)[i := SIdle]\<rparr>))
         | _ \<Rightarrow> Blocked)
      else Blocked)"

definition fire_timer :: "nat \<Rightarrow> int \<Rightarrow> tsys \<Rightarrow> tsys outcome" where
  "fire_timer k now s =
     (if k < length (timers (sp s)) then
        (let (p, t) = timers (sp s) ! k
         in if now < t then Blocked
            else bind_outcome (timer_fire now ((sp s)\<lparr>timers := drop_nth k (timers (sp s))\<rparr>) p)
                   (\<lambda>tp'. Ret (s\<lparr>sp := tp'\<rparr>)))
      else Blocked)"

definition fire_send_take :: "nat \<Rightarrow> tsys \<Rightarrow> tsys outcome" where
  "fire_send_take i s =
     (if i < length (senders s) \<and> senders s ! i = NIdle then
        bind_outcome (slice_get (ordered (sp s)) i) (\<lambda>tq.
        bind_outcome (receive tq) (\<lambda>(x, tq').
          case x of
            None \<Rightarrow> Blocked
          | Some p \<Rightarrow> Ret (s\<lparr>sp := (sp s)\<lparr>ordered := (ordered (sp s))[i := tq']\<rparr>,
                            senders := (senders s)[i := NTaken p]\<rparr>)))
      else Blocked)"

definition fire_send :: "near_api \<Rightarrow> nat \<Rightarrow> int \<Rightarrow> tsys \<Rightarrow> tsys outcome" where
  "fire_send api i now s =
     (if i < length (senders s) then
        (case senders s ! i of
           NTaken p \<Rightarrow>
             bind_outcome (send_txn api now (sp s) p) (\<lambda>tp'.
               Ret (s\<lparr>sp := tp', senders := (senders s)[i := NIdle]\<rparr>))
         | NIdle \<Rightarrow> Blocked)
      else Blocked)"

definition fire_reply :: "nat \<Rightarrow> int \<Rightarrow> goval \<Rightarrow> error option \<Rightarrow> tsys \<Rightarrow> tsys outcome" where
  "fire_reply k now r e s =
     (if k < length (sends (sp s)) then
        bind_outcome
          (send_reply now ((sp s)\<lparr>sends := drop_nth k (sends (sp s))\<rparr>) (fst (sends (sp s) ! k)) r e)
          (\<lambda>tp'. Ret (s\<lparr>sp := tp'\<rparr>))
      else Blocked)"

text \<open>The goroutine of a request.\<close>

definition fire_recv :: "ptr \<Rightarrow> tsys \<Rightarrow> tsys outcome" where
  "fire_recv p s =
     (case (waiter_of s p, respChan (sp s) p) of
        (WWait, r # rest) \<Rightarrow>
          Ret (set_waiter p (WEval r)
                 (s\<lparr>sp := (sp s)\<lparr>respChan := (respChan (sp s))(p := rest)\<rparr>\<rparr>))
      | _ \<Rightarrow> Blocked)"

definition fire_classify :: "ptr \<Rightarrow> tsys \<Rightarrow> tsys outcome" where
  "fire_classify p s =
     (case waiter_of s p of
        WEval r \<Rightarrow>
          bind_outcome (classify (retransmit (reqs (sp s) p)) r) (\<lambda>v.
            case v of
              Succeeded \<Rightarrow> Ret (set_waiter p (WDecide False r) s)
            | Evaluated b st \<Rightarrow>
                (let r' = r\<lparr>status := st\<rparr>
                 in Ret (set_waiter p (if needs_lock (statusActions st) then WLock r' else WBody False r')
                          (s\<lparr>sp := set_retransmit b (sp s) p\<rparr>))))
      | _ \<Rightarrow> Blocked)"

definition fire_lock :: "ptr \<Rightarrow> tsys \<Rightarrow> tsys outcome" where
  "fire_lock p s =
     (case waiter_of s p of
        WLock r \<Rightarrow>
          bind_outcome (slice_get (retryMutex (sp s)) (idx (sp s) p)) (\<lambda>locked.
            if locked then Blocked
            else Ret (set_waiter p (WBreaker r)
                        (s\<lparr>sp := set_mutex True (sp s) (idx (sp s) p)\<rparr>)))
      | _ \<Rightarrow> Blocked)"

definition fire_breaker :: "ptr \<Rightarrow> tsys \<Rightarrow> tsys outcome" where
  "fire_breaker p s =
     (case waiter_of s p of
        WBreaker r \<Rightarrow>
          bind_outcome (slice_get (circuitBreaker (sp s)) (idx (sp s) p)) (\<lambda>_.
            Ret (set_waiter p (WBody True r)
                   (s\<lparr>sp := set_breaker True (sp s) (idx (sp s) p)\<rparr>)))
      | _ \<Rightarrow> Blocked)"

definition fire_body :: "near_api \<Rightarrow> ptr \<Rightarrow> int \<Rightarrow> int \<Rightarrow> tsys \<Rightarrow> tsys outcome" where
  "fire_body api p now later s =
     (case waiter_of s p of
        WBody l r \<Rightarrow>
          bind_outcome (eval_body api now later (sp s) p r) (\<lambda>(re, r', tp').
            Ret (set_waiter p (if l then WUnlock re r' else WDecide re r') (s\<lparr>sp := tp'\<rparr>)))
      | _ \<Rightarrow> Blocked)"

text \<open>The deferred function of \<open>eval\<close>: unlock, then clear the breaker.\<close>

definition fire_unlock :: "ptr \<Rightarrow> tsys \<Rightarrow> tsys outcome" where
  "fire_unlock p s =
     (case waiter_of s p of
        WUnlock re r \<Rightarrow>
          Ret (set_waiter p (WClear re r) (s\<lparr>sp := set_mutex False (sp s) (idx (sp s) p)\<rparr>))
      | _ \<Rightarrow> Blocked)"

definition fire_clear :: "ptr \<Rightarrow> tsys \<Rightarrow> tsys outcome" where
  "fire_clear p s =
     (case waiter_of s p of
        WClear re r \<Rightarrow>
          Ret (set_waiter p (WDecide re r) (s\<lparr>sp := set_breaker False (sp s) (idx (sp s) p)\<rparr>))
      | _ \<Rightarrow> Blocked)"

definition fire_decide :: "ptr \<Rightarrow> tsys \<Rightarrow> tsys outcome" where
  "fire_decide p s =
     (case waiter_of s p of
        WDecide re r \<Rightarrow>
          if \<not> re then Ret (set_waiter p (WDone r) s)
          else bind_outcome (try_enqueue_unordered (sp s) p) (\<lambda>(ok, tp').
            Ret (set_waiter p (if ok then WWait else WDone r) (s\<lparr>sp := tp'\<rparr>)))
      | _ \<Rightarrow> Blocked)"

fun fire :: "near_api \<Rightarrow> event \<Rightarrow> tsys \<Rightarrow> tsys outcome" where
  "fire api (EvSubmit p req) s = fire_submit p req s"
| "fire api (EvPush p) s = fire_push p s"
| "fire api (EvSortTake i) s = fire_sort_take i s"
| "fire api (EvSortLock i now) s = fire_sort_lock api i now s"
| "fire api (EvSortFinish i now later) s = fire_sort_finish api i now later s"
| "fire api (EvTimer k now) s = fire_timer k now s"
| "fire api (EvSendTake i) s = fire_send_take i s"
| "fire api (EvSend i now) s = fire_send api i now s"
| "fire api (EvReply k now r e) s = fire_reply k now r e s"
| "fire api (EvRecv p) s = fire_recv p s"
| "fire api (EvClassify p) s = fire_classify p s"
| "fire api (EvLock p) s = fire_lock p s"
| "fire api (EvBreaker p) s = fire_breaker p s"
| "fire api (EvBody p now later) s = fire_body api p now later s"
| "fire api (EvUnlock p) s = fire_unlock p s"
| "fire api (EvClear p) s = fire_clear p s"
| "fire api (EvDecide p) s = fire_decide p s"

definition tstep :: "near_api \<Rightarrow> tsys \<Rightarrow> tsys \<Rightarrow> bool" where
  "tstep api s t \<longleftrightarrow> (\<exists>ev. fire api ev s = Ret t)"

end
