(* ===== verification/TxnTokens.thy ===== *)
theory TxnTokens
  imports TxnSystem
begin

text \<open>
  Every submitted request is in exactly one place, and every place is the right one: the
  invariant of the running processor, and what follows from it.  A response channel is never
  full when something is sent to it, and nothing panics but the reading of a response.
\<close>

section \<open>The invariant\<close>

fun sorter_hand :: "sorter \<Rightarrow> ptr list" where
  "sorter_hand SIdle = []"
| "sorter_hand (STaken p) = [p]"
| "sorter_hand (SHolding act p) = [p]"

fun sender_hand :: "sender \<Rightarrow> ptr list" where
  "sender_hand NIdle = []"
| "sender_hand (NTaken p) = [p]"

definition places :: "tsys \<Rightarrow> ptr \<Rightarrow> nat" where
  "places s p =
     load (sp s) p + count_list (submitting s) p + held sorter_hand (sorters s) p +
     held sender_hand (senders s) p"

text \<open>
  How many places a request has, by the phase of its goroutine.  When \<open>eval\<close> answers the request once
  more (its \<open>RespondWithStatus\<close> of \<open>Any\<close>) it asks for no retry: from the end of its body on, that one
  answer nobody waits for may be in the channel.
\<close>

fun expected :: "waiter \<Rightarrow> nat \<Rightarrow> bool" where
  "expected WWait n = (n = 1)"
| "expected (WUnlock re r) n = (n = 0 \<or> \<not> re \<and> n = 1)"
| "expected (WClear re r) n = (n = 0 \<or> \<not> re \<and> n = 1)"
| "expected (WDecide re r) n = (n = 0 \<or> \<not> re \<and> n = 1)"
| "expected (WDone r) n = (n \<le> 1)"
| "expected _ n = (n = 0)"

text \<open>The workers' lists have one entry per key, and a worker only holds requests of its key.\<close>

definition own_hands :: "('a \<Rightarrow> ptr list) \<Rightarrow> proc \<Rightarrow> 'a list \<Rightarrow> bool" where
  "own_hands f tp xs \<longleftrightarrow>
     length xs = length (keys tp) \<and> (\<forall>i < length xs. \<forall>p \<in> set (f (xs ! i)). idx tp p = i)"

definition place_inv :: "tsys \<Rightarrow> bool" where
  "place_inv s \<longleftrightarrow>
     good (sp s) \<and> own_hands sorter_hand (sp s) (sorters s) \<and>
     own_hands sender_hand (sp s) (senders s) \<and>
     (\<forall>p. waiter_of s p \<noteq> WNone \<longrightarrow> idx (sp s) p < length (keys (sp s)))"

lemma own_hands_cong:
  "keys tp' = keys tp \<Longrightarrow> (\<And>p. idx tp' p = idx tp p) \<Longrightarrow> own_hands f tp' xs = own_hands f tp xs"
  by (simp add: own_hands_def)

lemma own_hands_update:
  "own_hands f tp xs \<Longrightarrow> (\<And>p. p \<in> set (f x) \<Longrightarrow> idx tp p = i) \<Longrightarrow> own_hands f tp (xs[i := x])"
  by (cases "i < length xs") (auto simp: own_hands_def nth_list_update)

definition token_inv :: "tsys \<Rightarrow> bool" where
  "token_inv s \<longleftrightarrow> (\<forall>p. expected (waiter_of s p) (places s p))"

definition tok :: "tsys \<Rightarrow> bool" where
  "tok s \<longleftrightarrow> place_inv s \<and> token_inv s"

lemma expected_le: "expected w n \<Longrightarrow> n \<le> 1"
  by (cases w) auto

lemma tok_places: "tok s \<Longrightarrow> places s p \<le> 1"
  using expected_le by (auto simp: tok_def token_inv_def)

lemma tok_good: "tok s \<Longrightarrow> good (sp s)"
  by (simp add: tok_def place_inv_def)

lemma tok_lengths:
  "tok s \<Longrightarrow> length (sorters s) = length (keys (sp s))"
  "tok s \<Longrightarrow> length (senders s) = length (keys (sp s))"
  by (simp_all add: tok_def place_inv_def own_hands_def)

lemma tok_idx: "tok s \<Longrightarrow> waiter_of s p \<noteq> WNone \<Longrightarrow> idx (sp s) p < length (keys (sp s))"
  by (simp add: tok_def place_inv_def)

lemma tok_known: "tok s \<Longrightarrow> 0 < places s p \<Longrightarrow> waiter_of s p \<noteq> WNone"
  by (auto simp: tok_def token_inv_def dest: spec [of _ p])

text \<open>A request someone holds is nowhere else; in particular it is not answered.\<close>

lemma sorter_holds:
  assumes "tok s" "i < length (sorters s)" "sorter_hand (sorters s ! i) = [p]"
  shows "load (sp s) p = 0 \<and> idx (sp s) p = i \<and> i < length (keys (sp s)) \<and> waiter_of s p \<noteq> WNone \<and>
    count_list (submitting s) p = 0 \<and> held sender_hand (senders s) p = 0"
proof -
  have h: "1 \<le> held sorter_hand (sorters s) p"
    using held_le [OF assms(2), of sorter_hand p] assms(3) by simp
  then have "waiter_of s p \<noteq> WNone"
    using tok_known [OF assms(1), of p] by (simp add: places_def)
  moreover have "load (sp s) p = 0" "count_list (submitting s) p = 0"
      "held sender_hand (senders s) p = 0"
    using tok_places [OF assms(1), of p] h by (simp_all add: places_def)
  moreover have "idx (sp s) p = i" "i < length (keys (sp s))"
    using assms by (auto simp: tok_def place_inv_def own_hands_def)
  ultimately show ?thesis by simp
qed

lemma sender_holds:
  assumes "tok s" "i < length (senders s)" "senders s ! i = NTaken p"
  shows "load (sp s) p = 0 \<and> idx (sp s) p = i \<and> i < length (keys (sp s)) \<and> waiter_of s p \<noteq> WNone"
proof -
  have h: "1 \<le> held sender_hand (senders s) p"
    using held_le [OF assms(2), of sender_hand p] assms(3) by simp
  then have "waiter_of s p \<noteq> WNone"
    using tok_known [OF assms(1), of p] by (simp add: places_def)
  moreover have "load (sp s) p = 0"
    using tok_places [OF assms(1), of p] h by (simp add: places_def)
  moreover have "idx (sp s) p = i" "i < length (keys (sp s))"
    using assms by (auto simp: tok_def place_inv_def own_hands_def)
  ultimately show ?thesis by simp
qed

section \<open>Steps keep the invariant\<close>

text \<open>Requests move, the phases of the goroutines stay.\<close>

lemma tok_move:
  assumes "tok s" "good (sp t)" "keys (sp t) = keys (sp s)" "\<And>p. idx (sp t) p = idx (sp s) p"
    and "sorters t = (sorters s)[i := x]" "senders t = (senders s)[j := y]"
    and "\<And>p. p \<in> set (sorter_hand x) \<Longrightarrow> idx (sp s) p = i"
    and "\<And>p. p \<in> set (sender_hand y) \<Longrightarrow> idx (sp s) p = j"
    and "waiter_of t = waiter_of s" "\<And>p. places t p = places s p"
  shows "tok t"
proof -
  have "own_hands sorter_hand (sp s) (sorters s)" "own_hands sender_hand (sp s) (senders s)"
    using assms(1) by (simp_all add: tok_def place_inv_def)
  then have "own_hands sorter_hand (sp s) (sorters t)" "own_hands sender_hand (sp s) (senders t)"
    unfolding assms(5,6) using assms(7,8) by (blast intro: own_hands_update)+
  then have "own_hands sorter_hand (sp t) (sorters t)" "own_hands sender_hand (sp t) (senders t)"
    using own_hands_cong [OF assms(3,4)] by blast+
  then have "place_inv t"
    using assms(1-4,9) by (simp add: tok_def place_inv_def)
  moreover have "token_inv t" using assms(1,9,10) by (simp add: tok_def token_inv_def)
  ultimately show ?thesis by (simp add: tok_def)
qed

text \<open>The goroutine of one request moves on.\<close>

lemma tok_waiter:
  assumes "tok s" "good (sp t)" "keys (sp t) = keys (sp s)" "\<And>q. idx (sp t) q = idx (sp s) q"
    and "sorters t = sorters s" "senders t = senders s" "submitting t = submitting s"
    and "waiter_of t = (waiter_of s)(p := x)" "waiter_of s p \<noteq> WNone"
    and "\<And>q. q \<noteq> p \<Longrightarrow> load (sp t) q = load (sp s) q"
    and "expected x (load (sp t) p + (places s p - load (sp s) p))"
  shows "tok t"
proof -
  have "own_hands sorter_hand (sp s) (sorters t)" "own_hands sender_hand (sp s) (senders t)"
    using assms(1,5,6) by (simp_all add: tok_def place_inv_def)
  then have "own_hands sorter_hand (sp t) (sorters t)" "own_hands sender_hand (sp t) (senders t)"
    using own_hands_cong [OF assms(3,4)] by blast+
  then have "place_inv t"
    using assms(1-4,8,9) by (simp add: tok_def place_inv_def)
  moreover have "expected (waiter_of t q) (places t q)" for q
  proof (cases "q = p")
    case True
    have "places t p = load (sp t) p + (places s p - load (sp s) p)"
      using assms(5-7) by (simp add: places_def)
    with True assms(8,11) show ?thesis by simp
  next
    case False
    then have "places t q = places s q"
      using assms(5-7,10) by (simp add: places_def)
    with False assms(1,8) show ?thesis by (simp add: tok_def token_inv_def)
  qed
  ultimately show ?thesis by (simp add: tok_def token_inv_def)
qed

lemma delivered_facts:
  "delivered tp p tp' \<Longrightarrow> good tp'" "delivered tp p tp' \<Longrightarrow> keys tp' = keys tp"
  "delivered tp p tp' \<Longrightarrow> reqs tp' = reqs tp" "delivered tp p tp' \<Longrightarrow> retryMutex tp' = retryMutex tp"
  "delivered tp p tp' \<Longrightarrow> circuitBreaker tp' = circuitBreaker tp"
  "delivered tp p tp' \<Longrightarrow> load tp' q = load tp q + of_bool (q = p)"
  by (simp_all add: delivered_def)

lemma set_mutex_same_places [simp]:
  "same_places tp (set_mutex b tp i)" "same_places tp (set_breaker b tp i)"
  "same_places tp (set_retransmit b tp p)"
  by (simp_all add: same_places_def)

lemma set_mutex_load [simp]:
  "load (set_mutex b tp i) = load tp" "load (set_breaker b tp i) = load tp"
  "load (set_retransmit b tp p) = load tp"
  by (rule same_places_load [OF set_mutex_same_places(1)],
      rule same_places_load [OF set_mutex_same_places(2)],
      rule same_places_load [OF set_mutex_same_places(3)])

lemma set_mutex_good [simp]:
  "good tp \<Longrightarrow> good (set_mutex b tp i)" "good tp \<Longrightarrow> good (set_breaker b tp i)"
  "good tp \<Longrightarrow> good (set_retransmit b tp p)"
  by (rule same_places_good; simp)+

lemma held_take:
  "i < length xs \<Longrightarrow> f (xs ! i) = [] \<Longrightarrow> f x = [q] \<Longrightarrow>
     held f (xs[i := x]) p = held f xs p + of_bool (p = q)"
  using held_update [of i xs f x p] by auto

lemma held_put:
  "i < length xs \<Longrightarrow> f (xs ! i) = [q] \<Longrightarrow> f x = [] \<Longrightarrow>
     held f xs p = held f (xs[i := x]) p + of_bool (p = q)"
  using held_update [of i xs f x p] by (auto split: if_splits)

lemma held_swap:
  "i < length xs \<Longrightarrow> f (xs ! i) = f x \<Longrightarrow> held f (xs[i := x]) p = held f xs p"
  using held_update [of i xs f x p] by auto

lemma count_list_remove1: "p \<in> set xs \<Longrightarrow> count_list xs q = count_list (remove1 p xs) q + of_bool (q = p)"
  by (induction xs) auto

lemma drop_nth_count:
  "k < length xs \<Longrightarrow> count_list xs q = count_list (drop_nth k xs) q + of_bool (q = xs ! k)"
  unfolding drop_nth_def
  by (subst id_take_nth_drop [of k xs]) (simp_all del: append_take_drop_id)

lemma map_drop_nth: "map f (drop_nth k xs) = drop_nth k (map f xs)"
  by (simp add: drop_nth_def take_map drop_map)

lemma set_drop_nth: "set (drop_nth k xs) \<subseteq> set xs"
  by (auto simp: drop_nth_def dest: in_set_takeD in_set_dropD)

lemma in_range_drop_nth [simp]: "in_range tp ps \<Longrightarrow> in_range tp (drop_nth k ps)"
  using set_drop_nth by (fastforce simp: in_range_def)

lemma tok_move_plain:
  assumes "tok s" "good (sp t)" "keys (sp t) = keys (sp s)" "\<And>p. idx (sp t) p = idx (sp s) p"
    and "sorters t = sorters s" "senders t = senders s"
    and "waiter_of t = waiter_of s" "\<And>p. places t p = places s p"
  shows "tok t"
  using assms
  by (intro tok_move [of s t "length (sorters s)" SIdle "length (senders s)" NIdle])
     (simp_all add: list_update_beyond)

lemma tok_fire_push: "fire_push p s = Ret t \<Longrightarrow> tok s \<Longrightarrow> tok t"
proof -
  assume f: "fire_push p s = Ret t" and inv: "tok s"
  obtain tp' where p: "p \<in> set (submitting s)" and e: "enqueue_unordered (sp s) p = Ret tp'"
      and t: "t = s\<lparr>sp := tp', submitting := remove1 p (submitting s)\<rparr>"
    using f by (auto simp: fire_push_def bind_outcome_Ret_iff split: if_splits)
  note d = enqueue_unordered_delivers [OF tok_good [OF inv] e]
  have "places t q = places s q" for q
    using delivered_facts(6) [OF d, of q] count_list_remove1 [OF p, of q] by (simp add: t places_def)
  then show ?thesis
    using delivered_facts(1-3) [OF d] by (intro tok_move_plain [OF inv]) (simp_all add: t)
qed

lemma receive_pop:
  assumes "good tp" "routed tp tqs" "i < length tqs" "receive (tqs ! i) = Ret (Some p, tq')"
  shows "routed tp (tqs[i := tq'])" "idx tp p = i"
    "\<And>q. held buffer tqs q = held buffer (tqs[i := tq']) q + of_bool (q = p)"
proof -
  have b: "buffer (tqs ! i) = p # buffer tq'" "closed tq' = closed (tqs ! i)"
      "capacity tq' = capacity (tqs ! i)"
    using assms(4) by (auto simp: receive_Some_iff)
  from routed_pop [OF assms(2,3) b] show "routed tp (tqs[i := tq'])" "idx tp p = i" by auto
  show "held buffer tqs q = held buffer (tqs[i := tq']) q + of_bool (q = p)" for q
    using queued_pop [OF assms(3) b(1)] by simp
qed

lemma tok_fire_sort_take: "fire_sort_take i s = Ret t \<Longrightarrow> tok s \<Longrightarrow> tok t"
proof -
  assume f: "fire_sort_take i s = Ret t" and inv: "tok s"
  have g: "good (sp s)" "routed (sp s) (unordered (sp s))"
    using tok_good [OF inv] by (simp_all add: good_def)
  obtain p tq' where i: "i < length (sorters s)" "sorters s ! i = SIdle" "i < length (unordered (sp s))"
      and r: "receive (unordered (sp s) ! i) = Ret (Some p, tq')"
      and t: "t = s\<lparr>sp := (sp s)\<lparr>unordered := (unordered (sp s))[i := tq']\<rparr>,
                     sorters := (sorters s)[i := STaken p]\<rparr>"
    using f
    by (cases "i < length (unordered (sp s))")
       (auto simp: fire_sort_take_def bind_outcome_Ret_iff split: if_splits option.splits)
  note pop = receive_pop [OF g i(3) r]
  have "good (sp t)" using pop(1) g(1) by (simp add: t good_def)
  moreover have "places t q = places s q" for q
    using pop(3) [of q] held_take [of i "sorters s" sorter_hand "STaken p" p q] i
    by (simp add: t places_def load_def)
  ultimately show ?thesis
    using pop(2) by (intro tok_move [OF inv, of t i "STaken p" "length (senders s)" NIdle]) (simp_all add: t list_update_beyond)
qed

lemma tok_fire_send_take: "fire_send_take i s = Ret t \<Longrightarrow> tok s \<Longrightarrow> tok t"
proof -
  assume f: "fire_send_take i s = Ret t" and inv: "tok s"
  have g: "good (sp s)" "routed (sp s) (ordered (sp s))"
    using tok_good [OF inv] by (simp_all add: good_def)
  obtain p tq' where i: "i < length (senders s)" "senders s ! i = NIdle" "i < length (ordered (sp s))"
      and r: "receive (ordered (sp s) ! i) = Ret (Some p, tq')"
      and t: "t = s\<lparr>sp := (sp s)\<lparr>ordered := (ordered (sp s))[i := tq']\<rparr>,
                     senders := (senders s)[i := NTaken p]\<rparr>"
    using f
    by (cases "i < length (ordered (sp s))")
       (auto simp: fire_send_take_def bind_outcome_Ret_iff split: if_splits option.splits)
  note pop = receive_pop [OF g i(3) r]
  have "good (sp t)" using pop(1) g(1) by (simp add: t good_def)
  moreover have "places t q = places s q" for q
    using pop(3) [of q] held_take [of i "senders s" sender_hand "NTaken p" p q] i
    by (simp add: t places_def load_def)
  ultimately show ?thesis
    using pop(2) by (intro tok_move [OF inv, of t "length (sorters s)" SIdle i "NTaken p"])
      (simp_all add: t list_update_beyond)
qed

lemma sort_decide_same_places [simp]: "same_places tp (snd (sort_decide api now tp p))"
  by (simp add: same_places_def)

lemma tok_fire_sort_lock: "fire_sort_lock api i now s = Ret t \<Longrightarrow> tok s \<Longrightarrow> tok t"
proof -
  assume f: "fire_sort_lock api i now s = Ret t" and inv: "tok s"
  obtain p where i: "i < length (sorters s)" "sorters s ! i = STaken p"
    using f by (auto simp: fire_sort_lock_def split: if_splits sorter.splits)
  obtain act tp' where d: "sort_decide api now (sp s) p = (act, tp')"
    by (cases "sort_decide api now (sp s) p")
  have t: "t = s\<lparr>sp := set_mutex True tp' (idx (sp s) p), sorters := (sorters s)[i := SHolding act p]\<rparr>"
    using f i d by (auto simp: fire_sort_lock_def bind_outcome_Ret_iff split: if_splits)
  have same: "same_places (sp s) tp'" using sort_decide_same_places [of "sp s" api now p] d by simp
  have tp': "keys tp' = keys (sp s)" "\<And>q. idx tp' q = idx (sp s) q"
    using same by (simp_all add: same_places_def)
  have "idx (sp s) p = i" using sorter_holds [OF inv i(1)] i(2) by simp
  moreover have "places t q = places s q" for q
    using held_swap [of i "sorters s" sorter_hand "SHolding act p" q] i same_places_load [OF same]
    by (simp add: t places_def)
  ultimately show ?thesis
    using same_places_good [OF same tok_good [OF inv]] tp'
    by (intro tok_move [OF inv, of t i "SHolding act p" "length (senders s)" NIdle])
       (simp_all add: t list_update_beyond)
qed

lemma tok_fire_sort_finish: "fire_sort_finish api i now later s = Ret t \<Longrightarrow> tok s \<Longrightarrow> tok t"
proof -
  assume f: "fire_sort_finish api i now later s = Ret t" and inv: "tok s"
  obtain act p tp' where i: "i < length (sorters s)" "sorters s ! i = SHolding act p"
      and e: "sort_finish api now later act (sp s) p = Ret tp'"
      and t: "t = s\<lparr>sp := set_mutex False tp' (idx (sp s) p), sorters := (sorters s)[i := SIdle]\<rparr>"
    using f by (auto simp: fire_sort_finish_def bind_outcome_Ret_iff split: if_splits sorter.splits)
  have h: "idx (sp s) p = i" "i < length (keys (sp s))"
    using sorter_holds [OF inv i(1)] i(2) by simp_all
  have d: "delivered (sp s) p tp'" using sorter.delivers [OF tok_good [OF inv] _ e] h by simp
  have "places t q = places s q" for q
    using held_put [of i "sorters s" sorter_hand p SIdle q] i delivered_facts(6) [OF d, of q]
    by (simp add: t places_def)
  then show ?thesis
    using delivered_facts(1-3) [OF d]
    by (intro tok_move [OF inv, of t i SIdle "length (senders s)" NIdle]) (simp_all add: t list_update_beyond)
qed

lemma tok_fire_send: "fire_send api i now s = Ret t \<Longrightarrow> tok s \<Longrightarrow> tok t"
proof -
  assume f: "fire_send api i now s = Ret t" and inv: "tok s"
  obtain p tp' where i: "i < length (senders s)" "senders s ! i = NTaken p"
      and e: "send_txn api now (sp s) p = Ret tp'"
      and t: "t = s\<lparr>sp := tp', senders := (senders s)[i := NIdle]\<rparr>"
    using f by (auto simp: fire_send_def bind_outcome_Ret_iff split: if_splits sender.splits)
  have h: "idx (sp s) p = i" "i < length (keys (sp s))"
    using sender_holds [OF inv i] by simp_all
  have d: "delivered (sp s) p tp'" using sender.delivers [OF tok_good [OF inv] _ e] h by simp
  have "places t q = places s q" for q
    using held_put [of i "senders s" sender_hand p NIdle q] i delivered_facts(6) [OF d, of q]
    by (simp add: t places_def)
  then show ?thesis
    using delivered_facts(1-3) [OF d]
    by (intro tok_move [OF inv, of t "length (sorters s)" SIdle i NIdle]) (simp_all add: t list_update_beyond)
qed

lemma timer_dropped:
  assumes "good tp" "k < length (timers tp)" "fst (timers tp ! k) = p"
  shows "good (tp\<lparr>timers := drop_nth k (timers tp)\<rparr>)" "idx tp p < length (keys tp)"
    "load tp q = load (tp\<lparr>timers := drop_nth k (timers tp)\<rparr>) q + of_bool (q = p)"
proof -
  have k: "k < length (map fst (timers tp))" "map fst (timers tp) ! k = p"
    using assms(2,3) by simp_all
  show "good (tp\<lparr>timers := drop_nth k (timers tp)\<rparr>)"
    using assms(1) by (simp add: good_def map_drop_nth)
  have "p \<in> set (map fst (timers tp))" using k nth_mem by metis
  then show "idx tp p < length (keys tp)"
    using assms(1) by (auto simp: good_def in_range_def)
  show "load tp q = load (tp\<lparr>timers := drop_nth k (timers tp)\<rparr>) q + of_bool (q = p)"
    using drop_nth_count [OF k(1), of q] k(2) by (simp add: load_def map_drop_nth)
qed

lemma send_dropped:
  assumes "good tp" "k < length (sends tp)" "fst (sends tp ! k) = p"
  shows "good (tp\<lparr>sends := drop_nth k (sends tp)\<rparr>)" "idx tp p < length (keys tp)"
    "load tp q = load (tp\<lparr>sends := drop_nth k (sends tp)\<rparr>) q + of_bool (q = p)"
proof -
  have k: "k < length (map fst (sends tp))" "map fst (sends tp) ! k = p"
    using assms(2,3) by simp_all
  show "good (tp\<lparr>sends := drop_nth k (sends tp)\<rparr>)"
    using assms(1) by (simp add: good_def map_drop_nth)
  have "p \<in> set (map fst (sends tp))" using k nth_mem by metis
  then show "idx tp p < length (keys tp)"
    using assms(1) by (auto simp: good_def in_range_def)
  show "load tp q = load (tp\<lparr>sends := drop_nth k (sends tp)\<rparr>) q + of_bool (q = p)"
    using drop_nth_count [OF k(1), of q] k(2) by (simp add: load_def map_drop_nth)
qed

lemma tok_fire_timer: "fire_timer k now s = Ret t \<Longrightarrow> tok s \<Longrightarrow> tok t"
proof -
  assume f: "fire_timer k now s = Ret t" and inv: "tok s"
  obtain p u where k: "timers (sp s) ! k = (p, u)" by (cases "timers (sp s) ! k")
  let ?tp = "(sp s)\<lparr>timers := drop_nth k (timers (sp s))\<rparr>"
  from f k obtain tp' where l: "k < length (timers (sp s))"
      and e: "timer_fire now ?tp p = Ret tp'" and t: "t = s\<lparr>sp := tp'\<rparr>"
    by (auto simp: fire_timer_def bind_outcome_Ret_iff split: if_splits)
  note drop = timer_dropped [OF tok_good [OF inv] l, of p]
  have d: "delivered ?tp p tp'" using timer.delivers [OF _ _ e] drop k by simp
  have "places t q = places s q" for q
    using drop(3) [of q] delivered_facts(6) [OF d, of q] k by (simp add: t places_def)
  then show ?thesis
    using delivered_facts(1-3) [OF d] by (intro tok_move_plain [OF inv]) (simp_all add: t)
qed

lemma tok_fire_reply: "fire_reply k now r e s = Ret t \<Longrightarrow> tok s \<Longrightarrow> tok t"
proof -
  assume f: "fire_reply k now r e s = Ret t" and inv: "tok s"
  let ?tp = "(sp s)\<lparr>sends := drop_nth k (sends (sp s))\<rparr>" and ?p = "fst (sends (sp s) ! k)"
  from f obtain tp' where l: "k < length (sends (sp s))"
      and a: "send_reply now ?tp ?p r e = Ret tp'" and t: "t = s\<lparr>sp := tp'\<rparr>"
    by (auto simp: fire_reply_def bind_outcome_Ret_iff split: if_splits)
  note drop = send_dropped [OF tok_good [OF inv] l refl]
  have d: "delivered ?tp ?p tp'" using reply.delivers [OF _ _ a] drop by simp
  have "places t q = places s q" for q
    using drop(3) [of q] delivered_facts(6) [OF d, of q] by (simp add: t places_def)
  then show ?thesis
    using delivered_facts(1-3) [OF d] by (intro tok_move_plain [OF inv]) (simp_all add: t)
qed

text \<open>A new request is nowhere yet, so its fields can be set.\<close>

lemma load_zero_unheld:
  assumes "load tp p = 0"
  shows "i < length (unordered tp) \<Longrightarrow> p \<notin> set (buffer (unordered tp ! i))"
    "i < length (ordered tp) \<Longrightarrow> p \<notin> set (buffer (ordered tp ! i))"
    "p \<notin> set (map fst (timers tp))" "p \<notin> set (map fst (sends tp))"
  using assms held_le [of i "unordered tp" buffer p] held_le [of i "ordered tp" buffer p]
  by (auto simp: load_def count_list_0_iff)

lemma good_new_request:
  assumes "good tp" "load tp p = 0" "processorIndex req < length (keys tp)"
  shows "good (tp\<lparr>reqs := (reqs tp)(p := req)\<rparr>)"
proof -
  note un = load_zero_unheld [OF assms(2)]
  have "routed (tp\<lparr>reqs := (reqs tp)(p := req)\<rparr>) (unordered tp)"
      "routed (tp\<lparr>reqs := (reqs tp)(p := req)\<rparr>) (ordered tp)"
    using assms(1) un(1,2) by (auto simp: good_def routed_def)
  moreover have "in_range (tp\<lparr>reqs := (reqs tp)(p := req)\<rparr>) (map fst (timers tp))"
      "in_range (tp\<lparr>reqs := (reqs tp)(p := req)\<rparr>) (map fst (sends tp))"
    using assms(1,3) by (simp_all add: good_def in_range_def)
  ultimately show ?thesis using assms(1) by (simp add: good_def shape_def)
qed

lemma own_hands_new_request:
  assumes "own_hands f tp xs" "held f xs p = 0"
  shows "own_hands f (tp\<lparr>reqs := (reqs tp)(p := req)\<rparr>) xs"
proof -
  have "p \<notin> set (f (xs ! i))" if "i < length xs" for i
    using held_le [OF that, of f p] assms(2) by (simp add: count_list_0_iff)
  with assms(1) show ?thesis by (auto simp: own_hands_def)
qed

lemma tok_fire_submit: "fire_submit p req s = Ret t \<Longrightarrow> tok s \<Longrightarrow> tok t"
proof -
  assume f: "fire_submit p req s = Ret t" and inv: "tok s"
  let ?tp = "(sp s)\<lparr>reqs := (reqs (sp s))(p := req)\<rparr>"
  have w: "waiter_of s p = WNone" and i: "processorIndex req < length (keys (sp s))"
      and t: "t = set_waiter p WWait (s\<lparr>sp := ?tp, submitting := submitting s @ [p]\<rparr>)"
    using f by (simp_all add: fire_submit_def split: if_splits)
  have z: "places s p = 0" using inv w by (auto simp: tok_def token_inv_def dest: spec [of _ p])
  then have zero: "load (sp s) p = 0" "held sorter_hand (sorters s) p = 0"
      "held sender_hand (senders s) p = 0" by (simp_all add: places_def)
  have "own_hands sorter_hand ?tp (sorters s)" "own_hands sender_hand ?tp (senders s)"
    using inv zero(2,3) own_hands_new_request by (auto simp: tok_def place_inv_def)
  then have "place_inv t"
    using inv good_new_request [OF tok_good [OF inv] zero(1) i] i
    by (simp add: tok_def place_inv_def t set_waiter_def)
  moreover have "expected (waiter_of t q) (places t q)" for q
    using inv z by (auto simp: tok_def token_inv_def t set_waiter_def places_def load_def)
  ultimately show ?thesis by (simp add: tok_def token_inv_def)
qed

text \<open>The goroutine of a request.\<close>

lemma waiter_places: "tok s \<Longrightarrow> expected (waiter_of s p) (places s p)"
  by (simp add: tok_def token_inv_def)

lemma load_le_places: "load (sp s) p \<le> places s p"
  by (simp add: places_def)

lemma tok_same_load:
  assumes "tok s" "same_places (sp s) tp'" "waiter_of s p \<noteq> WNone" "expected x (places s p)"
  shows "tok (set_waiter p x (s\<lparr>sp := tp'\<rparr>))"
  using assms same_places_good [OF assms(2) tok_good [OF assms(1)]] same_places_load [OF assms(2)]
    load_le_places [of s p]
  by (intro tok_waiter [OF assms(1), of _ p x]) (simp_all add: set_waiter_def same_places_def)

lemma same_places_refl [simp]: "same_places tp tp"
  by (simp add: same_places_def)

lemma tok_set_waiter:
  "tok s \<Longrightarrow> waiter_of s p \<noteq> WNone \<Longrightarrow> expected x (places s p) \<Longrightarrow> tok (set_waiter p x s)"
  using tok_same_load [of s "sp s" p x] by simp

lemma tok_fire_recv: "fire_recv p s = Ret t \<Longrightarrow> tok s \<Longrightarrow> tok t"
proof -
  assume f: "fire_recv p s = Ret t" and inv: "tok s"
  obtain r rest where w: "waiter_of s p = WWait" and c: "respChan (sp s) p = r # rest"
      and t: "t = set_waiter p (WEval r) (s\<lparr>sp := (sp s)\<lparr>respChan := (respChan (sp s))(p := rest)\<rparr>\<rparr>)"
    using f by (auto simp: fire_recv_def split: waiter.splits list.splits)
  let ?tp = "(sp s)\<lparr>respChan := (respChan (sp s))(p := rest)\<rparr>"
  have "places s p = 1" using waiter_places [OF inv, of p] w by simp
  moreover have "load (sp s) p = Suc (load ?tp p)" by (simp add: load_def c)
  moreover have "load (sp s) p \<le> places s p" by (rule load_le_places)
  ultimately have "load ?tp p + (places s p - load (sp s) p) = 0" by simp
  moreover have "good ?tp" using tok_good [OF inv] by (simp add: good_def)
  moreover have "load ?tp q = load (sp s) q" if "q \<noteq> p" for q using that by (simp add: load_def)
  ultimately show ?thesis
    using w by (intro tok_waiter [OF inv, of t p "WEval r"]) (simp_all add: t set_waiter_def)
qed

lemma tok_fire_classify: "fire_classify p s = Ret t \<Longrightarrow> tok s \<Longrightarrow> tok t"
proof -
  assume f: "fire_classify p s = Ret t" and inv: "tok s"
  obtain r where w: "waiter_of s p = WEval r"
    using f by (auto simp: fire_classify_def split: waiter.splits)
  then have z: "places s p = 0" using waiter_places [OF inv, of p] by simp
  obtain v where c: "classify (retransmit (reqs (sp s) p)) r = Ret v"
    using f w by (auto simp: fire_classify_def bind_outcome_Ret_iff)
  show ?thesis
  proof (cases v)
    case Succeeded
    with f w c have "t = set_waiter p (WDecide False r) s" by (simp add: fire_classify_def)
    with inv w z show ?thesis by (simp add: tok_set_waiter)
  next
    case (Evaluated b st)
    let ?x = "if needs_lock (statusActions st) then WLock (r\<lparr>status := st\<rparr>) else WBody False (r\<lparr>status := st\<rparr>)"
    have t: "t = set_waiter p ?x (s\<lparr>sp := set_retransmit b (sp s) p\<rparr>)"
      using f w c Evaluated by (simp add: fire_classify_def Let_def)
    have "expected ?x (places s p)" using z by simp
    with inv w show ?thesis unfolding t by (intro tok_same_load) simp_all
  qed
qed

lemma tok_fire_lock: "fire_lock p s = Ret t \<Longrightarrow> tok s \<Longrightarrow> tok t"
proof -
  assume f: "fire_lock p s = Ret t" and inv: "tok s"
  obtain r where w: "waiter_of s p = WLock r"
      and t: "t = set_waiter p (WBreaker r) (s\<lparr>sp := set_mutex True (sp s) (idx (sp s) p)\<rparr>)"
    using f by (auto simp: fire_lock_def bind_outcome_Ret_iff split: waiter.splits if_splits)
  with inv waiter_places [OF inv, of p] show ?thesis unfolding t by (intro tok_same_load) simp_all
qed

lemma tok_fire_breaker: "fire_breaker p s = Ret t \<Longrightarrow> tok s \<Longrightarrow> tok t"
proof -
  assume f: "fire_breaker p s = Ret t" and inv: "tok s"
  obtain r where w: "waiter_of s p = WBreaker r"
      and t: "t = set_waiter p (WBody True r) (s\<lparr>sp := set_breaker True (sp s) (idx (sp s) p)\<rparr>)"
    using f by (auto simp: fire_breaker_def bind_outcome_Ret_iff split: waiter.splits)
  with inv waiter_places [OF inv, of p] show ?thesis unfolding t by (intro tok_same_load) simp_all
qed

lemma tok_fire_unlock: "fire_unlock p s = Ret t \<Longrightarrow> tok s \<Longrightarrow> tok t"
proof -
  assume f: "fire_unlock p s = Ret t" and inv: "tok s"
  obtain re r where w: "waiter_of s p = WUnlock re r"
      and t: "t = set_waiter p (WClear re r) (s\<lparr>sp := set_mutex False (sp s) (idx (sp s) p)\<rparr>)"
    using f by (auto simp: fire_unlock_def split: waiter.splits)
  with inv waiter_places [OF inv, of p] show ?thesis unfolding t by (intro tok_same_load) simp_all
qed

lemma tok_fire_clear: "fire_clear p s = Ret t \<Longrightarrow> tok s \<Longrightarrow> tok t"
proof -
  assume f: "fire_clear p s = Ret t" and inv: "tok s"
  obtain re r where w: "waiter_of s p = WClear re r"
      and t: "t = set_waiter p (WDecide re r) (s\<lparr>sp := set_breaker False (sp s) (idx (sp s) p)\<rparr>)"
    using f by (auto simp: fire_clear_def split: waiter.splits)
  with inv waiter_places [OF inv, of p] show ?thesis unfolding t by (intro tok_same_load) simp_all
qed

lemma tok_fire_decide: "fire_decide p s = Ret t \<Longrightarrow> tok s \<Longrightarrow> tok t"
proof -
  assume f: "fire_decide p s = Ret t" and inv: "tok s"
  obtain re r where w: "waiter_of s p = WDecide re r"
    using f by (auto simp: fire_decide_def split: waiter.splits)
  note n = waiter_places [OF inv, of p, unfolded w expected.simps]
  show ?thesis
  proof (cases re)
    case False
    with f w have "t = set_waiter p (WDone r) s" by (simp add: fire_decide_def)
    with inv w n show ?thesis by (auto intro: tok_set_waiter)
  next
    case True
    with n have z: "places s p = 0" by simp
    have g: "good (sp s)" "idx (sp s) p < length (keys (sp s))"
      using inv w by (simp_all add: tok_good tok_idx)
    show ?thesis
    proof (cases rule: try_enqueue_cases [OF g])
      case (1 tp')
      note d = delivered_facts [OF 1(2)]
      have t: "t = set_waiter p WWait (s\<lparr>sp := tp'\<rparr>)"
        using f w True 1(1) by (simp add: fire_decide_def)
      have "load (sp s) p = 0" using z load_le_places [of s p] by simp
      with w z show ?thesis
        by (intro tok_waiter [OF inv, of t p WWait]) (simp_all add: t set_waiter_def d)
    next
      case 2
      with f w True have "t = set_waiter p (WDone r) s" by (simp add: fire_decide_def)
      with inv w z show ?thesis by (simp add: tok_set_waiter)
    qed
  qed
qed

section \<open>The body of eval in the running system\<close>

lemma eval_eth_shape:
  obtains (plain) c re r' where "eval_eth api now later tp p r = Ret (re, r', tp\<lparr>ethNonceCache := c\<rparr>)"
  | (answered) c r' where "eval_eth api now later tp p r =
      bind_outcome (respond (tp\<lparr>ethNonceCache := c\<rparr>) p (status_response later txnStatus_Any))
        (\<lambda>tp''. Ret (False, r', tp''))"
proof (cases rule: updateEth_cases [of now "ethNonceCache tp" api "sender (reqs tp p)" later])
  case recent
  then have "eval_eth api now later tp p r = Ret (True, r, tp\<lparr>ethNonceCache := ethNonceCache tp\<rparr>)"
    by (simp add: eval_eth_def Let_def)
  with plain show ?thesis by blast
next
  case (failed e)
  then have "eval_eth api now later tp p r =
      Ret (True, r, tp\<lparr>ethNonceCache := ensure_entry now (ethNonceCache tp)
        (address_Hex api (sender (reqs tp p)))\<rparr>)"
    by (simp add: eval_eth_def Let_def)
  with plain show ?thesis by blast
next
  case (stored n)
  let ?c = "(ethNonceCache tp)(address_Hex api (sender (reqs tp p)) \<mapsto> \<lparr>nonce = n, updateTime = later\<rparr>)"
  show ?thesis
  proof (cases "n > req_nonce (reqs tp p) \<and> retransmit (reqs tp p) \<and> status r = txnStatus_EthNonceError")
    case True
    with stored have "eval_eth api now later tp p r =
        bind_outcome (respond (tp\<lparr>ethNonceCache := ?c\<rparr>) p (status_response later txnStatus_Any))
          (\<lambda>tp''. Ret (False, r\<lparr>resp := GStr success_case_for_retransmit\<rparr>, tp''))"
      by (simp add: eval_eth_def Let_def sender_key_def RespondWithStatus_def)
    with answered show ?thesis by blast
  next
    case False
    with stored have "\<exists>re. eval_eth api now later tp p r = Ret (re, r, tp\<lparr>ethNonceCache := ?c\<rparr>)"
      by (auto simp: eval_eth_def Let_def sender_key_def eval_tail_def)
    with plain show ?thesis by blast
  qed
qed

lemma near_refreshed_same_places [simp]: "same_places tp (near_refreshed api now later tp p s)"
  by (simp add: same_places_def near_refreshed_def)

lemma eval_body_shape:
  assumes "processorIndex (reqs tp p) < length (keys tp)"
  obtains (plain) re r' tp' where "eval_body api now later tp p r = Ret (re, r', tp')" "same_places tp tp'"
      "reqs tp' = reqs tp" "retryMutex tp' = retryMutex tp" "circuitBreaker tp' = circuitBreaker tp"
  | (answered) tp1 r' where "eval_body api now later tp p r =
      bind_outcome (respond tp1 p (status_response later txnStatus_Any)) (\<lambda>tp''. Ret (False, r', tp''))"
      "same_places tp tp1" "reqs tp1 = reqs tp" "retryMutex tp1 = retryMutex tp"
      "circuitBreaker tp1 = circuitBreaker tp"
proof (cases "updateEthCache (statusActions (status r))")
  case True
  let ?tp1 = "near_refreshed api now later tp p (status r)"
  have eq: "eval_body api now later tp p r = eval_eth api now later ?tp1 p r"
    using assms True by (simp add: eval_body_eq)
  have same: "same_places tp (?tp1\<lparr>ethNonceCache := c\<rparr>)" for c
    by (simp add: same_places_def near_refreshed_def)
  show ?thesis
  proof (cases rule: eval_eth_shape [of api now later ?tp1 p r])
    case (plain c re r')
    with eq same [of c] that(1) show ?thesis by simp
  next
    case (answered c r')
    with eq same [of c] that(2) [of "?tp1\<lparr>ethNonceCache := c\<rparr>" r'] show ?thesis by simp
  qed
next
  case False
  with assms that(1) [of _ _ "near_refreshed api now later tp p (status r)"] show ?thesis
    by (simp add: eval_body_eq eval_tail_def)
qed

lemma tok_fire_body: "fire_body api p now later s = Ret t \<Longrightarrow> tok s \<Longrightarrow> tok t"
proof -
  assume f: "fire_body api p now later s = Ret t" and inv: "tok s"
  obtain l r re r' tp' where w: "waiter_of s p = WBody l r"
      and e: "eval_body api now later (sp s) p r = Ret (re, r', tp')"
      and t: "t = set_waiter p (if l then WUnlock re r' else WDecide re r') (s\<lparr>sp := tp'\<rparr>)"
    using f by (auto simp: fire_body_def bind_outcome_Ret_iff split: waiter.splits)
  have z: "places s p = 0" using waiter_places [OF inv, of p] w by simp
  have i: "idx (sp s) p < length (keys (sp s))" using inv w by (simp add: tok_idx)
  show ?thesis
  proof (cases rule: eval_body_shape [OF i, of api now later r])
    case (1 re1 r1 tp1)
    with e have "same_places (sp s) tp'" by simp
    with inv w z show ?thesis unfolding t by (intro tok_same_load) simp_all
  next
    case (2 tp1 r1)
    with e have a: "respond tp1 p (status_response later txnStatus_Any) = Ret tp'" "\<not> re"
      by (auto simp: bind_outcome_Ret_iff)
    note d = delivered_facts [OF respond_delivers [OF a(1) same_places_good [OF 2(2) tok_good [OF inv]]]]
    have "keys tp1 = keys (sp s)" using 2(2) by (simp add: same_places_def)
    moreover have "load tp1 = load (sp s)" using 2(2) by (rule same_places_load)
    moreover have "load (sp s) p = 0" using z load_le_places [of s p] by simp
    ultimately show ?thesis
      using w z a(2) 2(3)
      by (intro tok_waiter [OF inv, of t p "if l then WUnlock re r' else WDecide re r'"])
         (simp_all add: t set_waiter_def d)
  qed
qed

lemma tok_fire: "fire api ev s = Ret t \<Longrightarrow> tok s \<Longrightarrow> tok t"
  by (cases ev)
     (simp_all add: tok_fire_submit tok_fire_push tok_fire_sort_take tok_fire_sort_lock
       tok_fire_sort_finish tok_fire_timer tok_fire_send_take tok_fire_send tok_fire_reply
       tok_fire_recv tok_fire_classify tok_fire_lock tok_fire_breaker tok_fire_body
       tok_fire_unlock tok_fire_clear tok_fire_decide)

lemma tok_start: "tok (tsys_start config ks)"
  by (simp add: tok_def place_inv_def token_inv_def tsys_start_def good_def shape_new routed_def
      in_range_def own_hands_def places_def load_def held_replicate NewTxnQ_def qCap_def)

interpretation tokens: transition_system
  "\<lambda>s. \<exists>config ks. s = tsys_start config ks" "tstep api" tok for api
  by unfold_locales (auto simp: tstep_def tok_start intro: tok_fire)

end
