(* ===== verification/TxnProgress.thy ===== *)
theory TxnProgress
  imports TxnTokens
begin

text \<open>
  The locks of the running processor, and progress: per key, sorting and evaluating exclude each
  other, and the goroutines never wait for each other in a circle.
\<close>

section \<open>Who holds a lock\<close>

datatype agent = ASort nat | AWait ptr

fun sort_locked :: "sorter \<Rightarrow> bool" where
  "sort_locked (SHolding act p) = True"
| "sort_locked _ = False"

fun eval_locked :: "waiter \<Rightarrow> bool" where
  "eval_locked (WBreaker r) = True"
| "eval_locked (WBody l r) = l"
| "eval_locked (WUnlock re r) = True"
| "eval_locked _ = False"

fun holds_lock :: "tsys \<Rightarrow> agent \<Rightarrow> nat \<Rightarrow> bool" where
  "holds_lock s (ASort j) i = (j = i \<and> j < length (sorters s) \<and> sort_locked (sorters s ! j))"
| "holds_lock s (AWait p) i = (eval_locked (waiter_of s p) \<and> idx (sp s) p = i)"

text \<open>A lock is taken exactly when an agent holds it, and then exactly one does.\<close>

definition lock_inv :: "tsys \<Rightarrow> bool" where
  "lock_inv s \<longleftrightarrow>
     (\<forall>i < length (keys (sp s)).
        if retryMutex (sp s) ! i then \<exists>!a. holds_lock s a i else \<not> (\<exists>a. holds_lock s a i))"

lemma lock_neutral:
  "lock_inv s \<Longrightarrow> keys (sp t) = keys (sp s) \<Longrightarrow> retryMutex (sp t) = retryMutex (sp s) \<Longrightarrow>
     (\<And>a i. holds_lock t a i = holds_lock s a i) \<Longrightarrow> lock_inv t"
  by (simp add: lock_inv_def)

lemma lock_acquire:
  assumes "lock_inv s" "keys (sp t) = keys (sp s)" "retryMutex (sp t) = (retryMutex (sp s))[i := True]"
    and "i < length (retryMutex (sp s))" "\<not> retryMutex (sp s) ! i"
    and "length (retryMutex (sp s)) = length (keys (sp s))"
    and "\<And>b j. holds_lock t b j \<longleftrightarrow> holds_lock s b j \<or> (b = a \<and> j = i)"
  shows "lock_inv t"
  unfolding lock_inv_def
proof (intro allI impI)
  fix j assume "j < length (keys (sp t))"
  then have j: "j < length (keys (sp s))" using assms(2) by simp
  show "if retryMutex (sp t) ! j then \<exists>!a. holds_lock t a j else \<not> (\<exists>a. holds_lock t a j)"
  proof (cases "j = i")
    case True
    then have "\<not> holds_lock s b j" for b
      using assms(1,5) j by (auto simp: lock_inv_def)
    with True assms(3,4,7) show ?thesis by simp
  next
    case False
    with assms(1,3,7) j show ?thesis by (simp add: lock_inv_def)
  qed
qed

lemma lock_release:
  assumes "lock_inv s" "keys (sp t) = keys (sp s)" "retryMutex (sp t) = (retryMutex (sp s))[i := False]"
    and "i < length (keys (sp s))" "holds_lock s a i"
    and "length (retryMutex (sp s)) = length (keys (sp s))"
    and "\<And>b j. holds_lock t b j \<longleftrightarrow> holds_lock s b j \<and> \<not> (b = a \<and> j = i)"
  shows "lock_inv t"
  unfolding lock_inv_def
proof (intro allI impI)
  fix j assume "j < length (keys (sp t))"
  then have j: "j < length (keys (sp s))" using assms(2) by simp
  show "if retryMutex (sp t) ! j then \<exists>!a. holds_lock t a j else \<not> (\<exists>a. holds_lock t a j)"
  proof (cases "j = i")
    case True
    have "retryMutex (sp s) ! i"
      using assms(1,4,5) by (auto simp: lock_inv_def split: if_splits)
    then have "\<exists>!b. holds_lock s b i" using assms(1,4) by (simp add: lock_inv_def)
    then have "\<not> holds_lock t b j" for b using True assms(5,7) by blast
    with True assms(3,4,6) show ?thesis by simp
  next
    case False
    with assms(1,3,7) j show ?thesis by (simp add: lock_inv_def)
  qed
qed

section \<open>Steps keep it\<close>

text \<open>Steps that leave the sort workers, the goroutines and the locks alone.\<close>

lemma lock_delivery:
  assumes "lock_inv s" "delivered tp p tp'" "keys tp = keys (sp s)" "reqs tp = reqs (sp s)"
    "retryMutex tp = retryMutex (sp s)"
    and "sp t = tp'" "sorters t = sorters s" "waiter_of t = waiter_of s"
  shows "lock_inv t"
proof (rule lock_neutral [OF assms(1)])
  show "holds_lock t a i = holds_lock s a i" for a i
    using assms delivered_facts(3) [OF assms(2)] by (cases a) simp_all
qed (use assms delivered_facts(2,4) [OF assms(2)] in simp_all)

lemma lock_waiter:
  assumes "lock_inv s" "keys tp' = keys (sp s)" "\<And>q. idx tp' q = idx (sp s) q"
    and "retryMutex tp' = retryMutex (sp s)" "eval_locked x = eval_locked (waiter_of s p)"
  shows "lock_inv (set_waiter p x (s\<lparr>sp := tp'\<rparr>))"
proof (rule lock_neutral [OF assms(1)])
  show "holds_lock (set_waiter p x (s\<lparr>sp := tp'\<rparr>)) a i = holds_lock s a i" for a i
    using assms by (cases a) (auto simp: set_waiter_def)
qed (use assms in \<open>simp_all add: set_waiter_def\<close>)

lemma lock_sort_lock:
  assumes f: "fire_sort_lock api i now s = Ret t" and inv: "tok s" "lock_inv s"
  shows "lock_inv t"
proof -
  obtain p where i: "i < length (sorters s)" "sorters s ! i = STaken p"
    using f by (auto simp: fire_sort_lock_def split: if_splits sorter.splits)
  obtain act tp' where d: "sort_decide api now (sp s) p = (act, tp')"
    by (cases "sort_decide api now (sp s) p")
  have h: "idx (sp s) p = i" "i < length (keys (sp s))"
    using sorter_holds [OF inv(1) i(1)] i(2) by simp_all
  have free: "\<not> retryMutex (sp s) ! i"
      and t: "t = s\<lparr>sp := set_mutex True tp' i, sorters := (sorters s)[i := SHolding act p]\<rparr>"
    using f i d h tok_good [OF inv(1)]
    by (auto simp: fire_sort_lock_def good_lengths split: if_splits)
  have tp': "keys tp' = keys (sp s)" "reqs tp' = reqs (sp s)" "retryMutex tp' = retryMutex (sp s)"
    using d sort_decide_frame [of api now "sp s" p] by simp_all
  show ?thesis
  proof (rule lock_acquire [OF inv(2), where i = i and a = "ASort i"])
    show "holds_lock t b j \<longleftrightarrow> holds_lock s b j \<or> (b = ASort i \<and> j = i)" for b j
      using i tp'(2) by (cases b) (auto simp: t nth_list_update)
  qed (use free h tp' good_lengths(1) [OF tok_good [OF inv(1)]] in \<open>simp_all add: t\<close>)
qed

lemma lock_sort_finish:
  assumes f: "fire_sort_finish api i now later s = Ret t" and inv: "tok s" "lock_inv s"
  shows "lock_inv t"
proof -
  obtain act p tp' where i: "i < length (sorters s)" "sorters s ! i = SHolding act p"
      and e: "sort_finish api now later act (sp s) p = Ret tp'"
      and t: "t = s\<lparr>sp := set_mutex False tp' (idx (sp s) p), sorters := (sorters s)[i := SIdle]\<rparr>"
    using f by (auto simp: fire_sort_finish_def bind_outcome_Ret_iff split: if_splits sorter.splits)
  have h: "idx (sp s) p = i" "i < length (keys (sp s))"
    using sorter_holds [OF inv(1) i(1)] i(2) by simp_all
  note d = delivered_facts [OF sorter.delivers [OF tok_good [OF inv(1)] _ e]]
  show ?thesis
  proof (rule lock_release [OF inv(2), where i = i and a = "ASort i"])
    show "holds_lock t b j \<longleftrightarrow> holds_lock s b j \<and> \<not> (b = ASort i \<and> j = i)" for b j
      using i h d(3) by (cases b) (auto simp: t nth_list_update)
  qed (use i h d good_lengths(1) [OF tok_good [OF inv(1)]] in \<open>simp_all add: t\<close>)
qed

lemma lock_fire_lock:
  assumes f: "fire_lock p s = Ret t" and inv: "tok s" "lock_inv s"
  shows "lock_inv t"
proof -
  let ?i = "idx (sp s) p"
  obtain r where w: "waiter_of s p = WLock r" and free: "?i < length (retryMutex (sp s))"
        "\<not> retryMutex (sp s) ! ?i"
      and t: "t = set_waiter p (WBreaker r) (s\<lparr>sp := set_mutex True (sp s) ?i\<rparr>)"
    using f
    by (auto simp: fire_lock_def bind_outcome_Ret_iff slice_get_def split: waiter.splits if_splits)
  show ?thesis
  proof (rule lock_acquire [OF inv(2), where i = ?i and a = "AWait p"])
    show "holds_lock t b j \<longleftrightarrow> holds_lock s b j \<or> (b = AWait p \<and> j = ?i)" for b j
      using w by (cases b) (auto simp: t set_waiter_def)
  qed (use free good_lengths(1) [OF tok_good [OF inv(1)]] in \<open>simp_all add: t set_waiter_def\<close>)
qed

lemma lock_fire_unlock:
  assumes f: "fire_unlock p s = Ret t" and inv: "tok s" "lock_inv s"
  shows "lock_inv t"
proof -
  let ?i = "idx (sp s) p"
  obtain re r where w: "waiter_of s p = WUnlock re r"
      and t: "t = set_waiter p (WClear re r) (s\<lparr>sp := set_mutex False (sp s) ?i\<rparr>)"
    using f by (auto simp: fire_unlock_def split: waiter.splits)
  have i: "?i < length (keys (sp s))" using inv(1) w by (simp add: tok_idx)
  show ?thesis
  proof (rule lock_release [OF inv(2), where i = ?i and a = "AWait p"])
    show "holds_lock t b j \<longleftrightarrow> holds_lock s b j \<and> \<not> (b = AWait p \<and> j = ?i)" for b j
      using w by (cases b) (auto simp: t set_waiter_def)
  qed (use w i good_lengths(1) [OF tok_good [OF inv(1)]] in \<open>simp_all add: t set_waiter_def\<close>)
qed

lemma lock_takes:
  "fire_submit p req s = Ret t \<Longrightarrow> lock_inv s \<Longrightarrow> lock_inv t"
  "fire_sort_take i s = Ret t \<Longrightarrow> lock_inv s \<Longrightarrow> lock_inv t"
  "fire_send_take i s = Ret t \<Longrightarrow> lock_inv s \<Longrightarrow> lock_inv t"
proof -
  assume inv: "lock_inv s"
  show "lock_inv t" if f: "fire_submit p req s = Ret t"
  proof (rule lock_neutral [OF inv])
    show "holds_lock t a j = holds_lock s a j" for a j
      using f by (cases a) (auto simp: fire_submit_def set_waiter_def split: if_splits)
  qed (use f in \<open>auto simp: fire_submit_def set_waiter_def split: if_splits\<close>)
  show "lock_inv t" if f: "fire_sort_take i s = Ret t"
  proof (rule lock_neutral [OF inv])
    show "holds_lock t a j = holds_lock s a j" for a j
      using f
      by (cases a) (auto simp: fire_sort_take_def bind_outcome_Ret_iff nth_list_update
          split: if_splits option.splits)
  qed (use f in \<open>auto simp: fire_sort_take_def bind_outcome_Ret_iff split: if_splits option.splits\<close>)
  show "lock_inv t" if f: "fire_send_take i s = Ret t"
  proof (rule lock_neutral [OF inv])
    show "holds_lock t a j = holds_lock s a j" for a j
      using f
      by (cases a) (auto simp: fire_send_take_def bind_outcome_Ret_iff split: if_splits option.splits)
  qed (use f in \<open>auto simp: fire_send_take_def bind_outcome_Ret_iff split: if_splits option.splits\<close>)
qed

lemma lock_deliveries:
  assumes inv: "tok s" "lock_inv s"
  shows "fire_push p s = Ret t \<Longrightarrow> lock_inv t" "fire_timer k now s = Ret t \<Longrightarrow> lock_inv t"
    "fire_reply k now r e s = Ret t \<Longrightarrow> lock_inv t" "fire_send api i now s = Ret t \<Longrightarrow> lock_inv t"
proof -
  note g = tok_good [OF inv(1)]
  show "lock_inv t" if f: "fire_push p s = Ret t"
  proof -
    obtain tp' where e: "enqueue_unordered (sp s) p = Ret tp'"
        and t: "t = s\<lparr>sp := tp', submitting := remove1 p (submitting s)\<rparr>"
      using f by (auto simp: fire_push_def bind_outcome_Ret_iff split: if_splits)
    from enqueue_unordered_delivers [OF g e] show ?thesis
      by (rule lock_delivery [OF inv(2)]) (simp_all add: t)
  qed
  show "lock_inv t" if f: "fire_timer k now s = Ret t"
  proof -
    obtain q u where k: "timers (sp s) ! k = (q, u)" by (cases "timers (sp s) ! k")
    let ?tp = "(sp s)\<lparr>timers := drop_nth k (timers (sp s))\<rparr>"
    from f k obtain tp' where l: "k < length (timers (sp s))"
        and e: "timer_fire now ?tp q = Ret tp'" and t: "t = s\<lparr>sp := tp'\<rparr>"
      by (auto simp: fire_timer_def bind_outcome_Ret_iff split: if_splits)
    have "delivered ?tp q tp'"
      using timer.delivers [OF _ _ e] timer_dropped [OF g l, of q] k by simp
    then show ?thesis by (rule lock_delivery [OF inv(2)]) (simp_all add: t)
  qed
  show "lock_inv t" if f: "fire_reply k now r e s = Ret t"
  proof -
    let ?tp = "(sp s)\<lparr>sends := drop_nth k (sends (sp s))\<rparr>" and ?q = "fst (sends (sp s) ! k)"
    from f obtain tp' where l: "k < length (sends (sp s))"
        and a: "send_reply now ?tp ?q r e = Ret tp'" and t: "t = s\<lparr>sp := tp'\<rparr>"
      by (auto simp: fire_reply_def bind_outcome_Ret_iff split: if_splits)
    have "delivered ?tp ?q tp'"
      using reply.delivers [OF _ _ a] send_dropped [OF g l refl] by simp
    then show ?thesis by (rule lock_delivery [OF inv(2)]) (simp_all add: t)
  qed
  show "lock_inv t" if f: "fire_send api i now s = Ret t"
  proof -
    obtain q tp' where i: "i < length (senders s)" "senders s ! i = NTaken q"
        and e: "send_txn api now (sp s) q = Ret tp'"
        and t: "t = s\<lparr>sp := tp', senders := (senders s)[i := NIdle]\<rparr>"
      using f by (auto simp: fire_send_def bind_outcome_Ret_iff split: if_splits sender.splits)
    have "delivered (sp s) q tp'"
      using sender.delivers [OF g _ e] sender_holds [OF inv(1) i] by simp
    then show ?thesis by (rule lock_delivery [OF inv(2)]) (simp_all add: t)
  qed
qed

lemma lock_goroutine:
  assumes inv: "tok s" "lock_inv s"
  shows "fire_recv p s = Ret t \<Longrightarrow> lock_inv t" "fire_classify p s = Ret t \<Longrightarrow> lock_inv t"
    "fire_breaker p s = Ret t \<Longrightarrow> lock_inv t" "fire_clear p s = Ret t \<Longrightarrow> lock_inv t"
    "fire_body api p now later s = Ret t \<Longrightarrow> lock_inv t" "fire_decide p s = Ret t \<Longrightarrow> lock_inv t"
proof -
  note lw = lock_waiter [OF inv(2)]
  have lw0: "lock_inv (set_waiter p x s)" if "eval_locked x = eval_locked (waiter_of s p)" for x
    using lw [of "sp s" x p] that by simp
  show "lock_inv t" if "fire_recv p s = Ret t"
    using that by (auto simp: fire_recv_def split: waiter.splits list.splits intro!: lw)
  show "lock_inv t" if f: "fire_classify p s = Ret t"
  proof -
    obtain r v where w: "waiter_of s p = WEval r" "classify (retransmit (reqs (sp s) p)) r = Ret v"
      using f by (auto simp: fire_classify_def bind_outcome_Ret_iff split: waiter.splits)
    show ?thesis
    proof (cases v)
      case Succeeded
      with f w have "t = set_waiter p (WDecide False r) s" by (simp add: fire_classify_def)
      with w show ?thesis by (simp add: lw0)
    next
      case (Evaluated b st)
      with f w have "t = set_waiter p
          (if needs_lock (statusActions st) then WLock (r\<lparr>status := st\<rparr>) else WBody False (r\<lparr>status := st\<rparr>))
          (s\<lparr>sp := set_retransmit b (sp s) p\<rparr>)"
        by (simp add: fire_classify_def Let_def)
      with w show ?thesis by (simp add: lw)
    qed
  qed
  show "lock_inv t" if "fire_breaker p s = Ret t"
    using that
    by (auto simp: fire_breaker_def bind_outcome_Ret_iff set_breaker_def split: waiter.splits intro!: lw)
  show "lock_inv t" if "fire_clear p s = Ret t"
    using that by (auto simp: fire_clear_def set_breaker_def split: waiter.splits intro!: lw)
  show "lock_inv t" if f: "fire_body api p now later s = Ret t"
  proof -
    obtain l r re r' tp' where w: "waiter_of s p = WBody l r"
        and e: "eval_body api now later (sp s) p r = Ret (re, r', tp')"
        and t: "t = set_waiter p (if l then WUnlock re r' else WDecide re r') (s\<lparr>sp := tp'\<rparr>)"
      using f by (auto simp: fire_body_def bind_outcome_Ret_iff split: waiter.splits)
    have i: "idx (sp s) p < length (keys (sp s))" using inv(1) w by (simp add: tok_idx)
    have "keys tp' = keys (sp s)" "reqs tp' = reqs (sp s)" "retryMutex tp' = retryMutex (sp s)"
      using eval_body_same_queues [OF i e] by (simp_all add: same_queues_def)
    with w show ?thesis unfolding t by (intro lw) simp_all
  qed
  show "lock_inv t" if f: "fire_decide p s = Ret t"
  proof -
    obtain re r where w: "waiter_of s p = WDecide re r"
      using f by (auto simp: fire_decide_def split: waiter.splits)
    have g: "good (sp s)" "idx (sp s) p < length (keys (sp s))"
      using inv(1) w by (simp_all add: tok_good tok_idx)
    show ?thesis
    proof (cases rule: try_enqueue_cases [OF g])
      case (1 tp')
      note d = delivered_facts [OF 1(2)]
      from f w 1(1) d show ?thesis
        by (auto simp: fire_decide_def split: if_splits intro!: lw lw0)
    next
      case 2
      with f w show ?thesis by (auto simp: fire_decide_def split: if_splits intro!: lw lw0)
    qed
  qed
qed

lemma lock_fire: "fire api ev s = Ret t \<Longrightarrow> tok s \<Longrightarrow> lock_inv s \<Longrightarrow> lock_inv t"
  by (cases ev)
     (auto intro: lock_takes lock_deliveries lock_goroutine lock_sort_lock lock_sort_finish
       lock_fire_lock lock_fire_unlock)

lemma lock_start: "lock_inv (tsys_start config ks)"
proof -
  have "\<not> holds_lock (tsys_start config ks) a i" for a i
    by (cases a) (simp_all add: tsys_start_def)
  then show ?thesis by (simp add: lock_inv_def tsys_start_def)
qed

interpretation processor: transition_system
  "\<lambda>s. \<exists>config ks. s = tsys_start config ks" "tstep api" "\<lambda>s. tok s \<and> lock_inv s" for api
  by unfold_locales (auto simp: tstep_def tok_start lock_start intro: tok_fire lock_fire)

section \<open>Progress\<close>

text \<open>Some goroutine or worker can act: an event other than a new submission is not blocked.\<close>

definition moves_on :: "near_api \<Rightarrow> tsys \<Rightarrow> bool" where
  "moves_on api s \<longleftrightarrow> (\<exists>ev. (\<forall>p req. ev \<noteq> EvSubmit p req) \<and> fire api ev s \<noteq> Blocked)"

lemma moves_onI:
  "fire api ev s \<noteq> Blocked \<Longrightarrow> (\<And>p req. ev \<noteq> EvSubmit p req) \<Longrightarrow> moves_on api s"
  by (auto simp: moves_on_def)

lemma sender_moves:
  assumes "tok s" "i < length (senders s)" "senders s ! i = NTaken p"
  shows "fire api (EvSend i now) s \<noteq> Blocked"
proof -
  have "\<exists>tp'. send_txn api now (sp s) p = Ret tp'"
    using sender.returns_when_unanswered [OF tok_good [OF assms(1)]] sender_holds [OF assms]
    by simp
  with assms(2,3) show ?thesis by (auto simp: fire_send_def)
qed

lemma ordered_moves:
  assumes "tok s" "i < length (keys (sp s))" "buffer (ordered (sp s) ! i) \<noteq> []"
  shows "moves_on api s"
proof -
  have i: "i < length (senders s)" "i < length (ordered (sp s))"
    using assms(1,2) by (simp_all add: tok_lengths tok_good good_lengths)
  show ?thesis
  proof (cases "senders s ! i")
    case NIdle
    obtain q qs where "buffer (ordered (sp s) ! i) = q # qs"
      using assms(3) by (cases "buffer (ordered (sp s) ! i)") auto
    with i NIdle show ?thesis
      by (intro moves_onI [of _ "EvSendTake i"]) (simp_all add: fire_send_take_def receive_def)
  next
    case (NTaken p)
    from sender_moves [OF assms(1) i(1) this] show ?thesis by (rule moves_onI) simp
  qed
qed

lemma sort_holder_moves:
  assumes "tok s" "i < length (sorters s)" "sorters s ! i = SHolding act p"
  shows "moves_on api s"
proof (cases "sort_finish api now later act (sp s) p")
  case (Ret tp')
  with assms(2,3) show ?thesis
    by (intro moves_onI [of _ "EvSortFinish i now later"]) (simp_all add: fire_sort_finish_def)
next
  case (Panic k)
  with assms(2,3) show ?thesis
    by (intro moves_onI [of _ "EvSortFinish i now later"]) (simp_all add: fire_sort_finish_def)
next
  case Blocked
  have h: "load (sp s) p = 0" "idx (sp s) p = i" "i < length (keys (sp s))"
    using sorter_holds [OF assms(1,2)] assms(3) by simp_all
  then have "respChan (sp s) p = []" using respChan_le_load [of "sp s" p] by simp
  then have "buffer (ordered (sp s) ! i) \<noteq> []"
    using sorter.blocks [OF tok_good [OF assms(1)] _ Blocked] h by auto
  with assms(1) h(3) show ?thesis by (rule ordered_moves)
qed

lemma eval_holder_moves:
  assumes "tok s" "eval_locked (waiter_of s p) \<or> (\<exists>l r. waiter_of s p = WBody l r)"
  shows "moves_on api s"
proof (cases "waiter_of s p")
  case (WBreaker r)
  have "idx (sp s) p < length (circuitBreaker (sp s))"
    using tok_idx [OF assms(1), of p] WBreaker good_lengths(2) [OF tok_good [OF assms(1)]] by simp
  with WBreaker show ?thesis
    by (intro moves_onI [of _ "EvBreaker p"]) (simp_all add: fire_breaker_def)
next
  case (WBody l r)
  have i: "idx (sp s) p < length (keys (sp s))"
    using tok_idx [OF assms(1), of p] WBody by simp
  have "places s p = 0" using waiter_places [OF assms(1), of p] WBody by simp
  then have l: "load (sp s) p = 0" using load_le_places [of s p] by simp
  have "eval_body api 0 0 (sp s) p r \<noteq> Blocked"
  proof (cases rule: eval_body_shape [OF i, of api 0 0 r])
    case (2 tp1 r1)
    have "respChan tp1 p = []"
      using l respChan_le_load [of tp1 p] same_places_load [OF 2(2)] by simp
    with 2(1) show ?thesis by (simp add: respond_def)
  qed simp
  with WBody show ?thesis
    by (intro moves_onI [of _ "EvBody p 0 0"])
       (cases "eval_body api 0 0 (sp s) p r"; auto simp: fire_body_def)+
next
  case (WUnlock re r)
  then show ?thesis by (intro moves_onI [of _ "EvUnlock p"]) (simp_all add: fire_unlock_def)
qed (use assms(2) in simp_all)

lemma locked_moves:
  assumes "tok s" "lock_inv s" "i < length (keys (sp s))" "retryMutex (sp s) ! i"
  shows "moves_on api s"
proof -
  have "\<exists>!a. holds_lock s a i" using assms(2-4) by (simp add: lock_inv_def)
  then obtain a where a: "holds_lock s a i" by blast
  show ?thesis
  proof (cases a)
    case (ASort j)
    with a obtain act p where "j < length (sorters s)" "sorters s ! j = SHolding act p"
      by (cases "sorters s ! j") auto
    with assms(1) show ?thesis by (rule sort_holder_moves)
  next
    case (AWait p)
    with a assms(1) show ?thesis by (intro eval_holder_moves [of s p]) auto
  qed
qed

lemma sorter_moves:
  assumes "tok s" "lock_inv s" "i < length (sorters s)" "sorters s ! i \<noteq> SIdle"
  shows "moves_on api s"
proof (cases "sorters s ! i")
  case (STaken p)
  have h: "idx (sp s) p = i" "i < length (keys (sp s))"
    using sorter_holds [OF assms(1,3)] STaken by simp_all
  show ?thesis
  proof (cases "retryMutex (sp s) ! i")
    case True
    from locked_moves [OF assms(1,2) h(2) this] show ?thesis .
  next
    case False
    with h assms(3) STaken good_lengths(1) [OF tok_good [OF assms(1)]] show ?thesis
      by (intro moves_onI [of _ "EvSortLock i 0"])
         (simp_all add: fire_sort_lock_def split: prod.split)
  qed
next
  case (SHolding act p)
  from sort_holder_moves [OF assms(1,3) this] show ?thesis .
qed (use assms(4) in simp)

lemma unordered_moves:
  assumes "tok s" "lock_inv s" "i < length (keys (sp s))" "buffer (unordered (sp s) ! i) \<noteq> []"
  shows "moves_on api s"
proof -
  have i: "i < length (sorters s)" "i < length (unordered (sp s))"
    using assms(1,3) by (simp_all add: tok_lengths tok_good good_lengths)
  show ?thesis
  proof (cases "sorters s ! i = SIdle")
    case True
    obtain q qs where "buffer (unordered (sp s) ! i) = q # qs"
      using assms(4) by (cases "buffer (unordered (sp s) ! i)") auto
    with i True show ?thesis
      by (intro moves_onI [of _ "EvSortTake i"]) (simp_all add: fire_sort_take_def receive_def)
  next
    case False
    from sorter_moves [OF assms(1,2) i(1) this] show ?thesis .
  qed
qed

lemma held_positive: "0 < held f xs p \<Longrightarrow> \<exists>i < length xs. p \<in> set (f (xs ! i))"
proof -
  have "p \<notin> set (f x) \<Longrightarrow> count_list (f x) p = 0" for x by (simp add: count_list_0_iff)
  then have "0 < held f xs p \<Longrightarrow> \<exists>x \<in> set xs. p \<in> set (f x)"
    unfolding held_def by (induction xs) fastforce+
  then show "0 < held f xs p \<Longrightarrow> ?thesis" by (metis in_set_conv_nth)
qed

lemma count_list_pos: "0 < count_list ps p \<longleftrightarrow> p \<in> set ps"
  using count_list_0_iff [of ps p] by auto

lemma fst_nth: "p \<in> set (map fst xs) \<Longrightarrow> \<exists>k < length xs. fst (xs ! k) = p"
  by (fastforce simp: in_set_conv_nth)

lemma match_fields_not_blocked: "match_fields st rs v fs \<noteq> Blocked"
proof (induction st rs v fs rule: match_fields.induct)
  case (3 st rs p v w vs)
  then show ?case by (cases p) (auto split: option.split)
qed (auto split: goval.split)

lemma scan_mappings_not_blocked: "scan_mappings rs v ms \<noteq> Blocked"
proof (induction rs v ms rule: scan_mappings.induct)
  case (2 rs v entry entries)
  then show ?case
    using match_fields_not_blocked [of "mapped_status entry" rs v "fm_fields entry"]
    by (cases "match_fields (mapped_status entry) rs v (fm_fields entry)") auto
qed simp

lemma isTxnResponseFailure_not_blocked: "isTxnResponseFailure v \<noteq> Blocked"
proof (cases v)
  case (GMap m)
  show ?thesis
  proof (cases "map_of m ''status''")
    case (Some u)
    with GMap show ?thesis by (cases u) (auto simp: isTxnResponseFailure_def split: option.split)
  qed (auto simp: GMap isTxnResponseFailure_def)
qed (auto simp: isTxnResponseFailure_def)

lemma classify_not_blocked: "classify b r \<noteq> Blocked"
proof (cases "err r")
  case None
  show ?thesis
  proof (cases "isTxnResponseFailure (resp r)")
    case (Ret v)
    have "getTxnStatusForFailureType u \<noteq> Blocked" for u
      by (simp add: getTxnStatusForFailureType_def scan_mappings_not_blocked)
    with None Ret show ?thesis
      by (cases v) (auto simp: classify_def bind_outcome_Blocked_iff split: option.split)
  qed (use None isTxnResponseFailure_not_blocked [of "resp r"] in \<open>simp_all add: classify_def\<close>)
qed (simp add: classify_def)

text \<open>A request that waits is somewhere, and where it is someone can act.\<close>

lemma waiting_moves:
  assumes inv: "tok s" "lock_inv s" and w: "waiter_of s p = WWait"
  shows "moves_on api s"
proof -
  have g: "good (sp s)" using inv(1) by (rule tok_good)
  have i: "idx (sp s) p < length (keys (sp s))" using inv(1) w by (simp add: tok_idx)
  have "places s p = 1" using waiter_places [OF inv(1), of p] w by simp
  then have "0 < held buffer (unordered (sp s)) p \<or> 0 < held buffer (ordered (sp s)) p \<or>
      0 < count_list (map fst (timers (sp s))) p \<or> 0 < count_list (map fst (sends (sp s))) p \<or>
      0 < length (respChan (sp s) p) \<or> 0 < count_list (submitting s) p \<or>
      0 < held sorter_hand (sorters s) p \<or> 0 < held sender_hand (senders s) p"
    unfolding places_def load_def by linarith
  then consider "0 < held buffer (unordered (sp s)) p" | "0 < held buffer (ordered (sp s)) p"
    | "p \<in> set (map fst (timers (sp s)))" | "p \<in> set (map fst (sends (sp s)))"
    | "respChan (sp s) p \<noteq> []" | "p \<in> set (submitting s)"
    | "0 < held sorter_hand (sorters s) p" | "0 < held sender_hand (senders s) p"
    unfolding count_list_pos length_greater_0_conv by (elim disjE) simp_all
  then show ?thesis
  proof cases
    case 1
    then obtain j where "j < length (unordered (sp s))" "buffer (unordered (sp s) ! j) \<noteq> []"
      using held_positive [of buffer "unordered (sp s)" p] by fastforce
    with inv good_lengths(4) [OF g] show ?thesis by (intro unordered_moves [of s j]) simp_all
  next
    case 2
    then obtain j where "j < length (ordered (sp s))" "buffer (ordered (sp s) ! j) \<noteq> []"
      using held_positive [of buffer "ordered (sp s)" p] by fastforce
    with inv good_lengths(3) [OF g] show ?thesis by (intro ordered_moves [of s j]) simp_all
  next
    case 3
    then obtain k u where k: "k < length (timers (sp s))" "timers (sp s) ! k = (p, u)"
      using fst_nth [of p "timers (sp s)"] by (metis prod.collapse)
    let ?tp = "(sp s)\<lparr>timers := drop_nth k (timers (sp s))\<rparr>"
    note drop = timer_dropped [OF g k(1), of p]
    have "load ?tp p = 0"
      using drop(3) [of p] k(2) \<open>places s p = 1\<close> load_le_places [of s p] by simp
    then have "\<exists>tp'. timer_fire u ?tp p = Ret tp'"
      using timer.returns_when_unanswered [of ?tp p] drop k(2) by simp
    with k show ?thesis by (intro moves_onI [of _ "EvTimer k u"]) (auto simp: fire_timer_def)
  next
    case 4
    then obtain k where k: "k < length (sends (sp s))" "fst (sends (sp s) ! k) = p"
      using fst_nth [of p "sends (sp s)"] by blast
    let ?tp = "(sp s)\<lparr>sends := drop_nth k (sends (sp s))\<rparr>"
    note drop = send_dropped [OF g k]
    have "load ?tp p = 0"
      using drop(3) [of p] \<open>places s p = 1\<close> load_le_places [of s p] by simp
    then have "\<exists>tp'. send_reply 0 ?tp p GNil None = Ret tp'"
      using reply.returns_when_unanswered [of ?tp p] drop by simp
    with k show ?thesis
      by (intro moves_onI [of _ "EvReply k 0 GNil None"]) (auto simp: fire_reply_def)
  next
    case 5
    then obtain r rest where "respChan (sp s) p = r # rest" by (cases "respChan (sp s) p") auto
    with w show ?thesis by (intro moves_onI [of _ "EvRecv p"]) (simp_all add: fire_recv_def)
  next
    case 6
    let ?tq = "unordered (sp s) ! idx (sp s) p"
    have r: "routed (sp s) (unordered (sp s))" using g by (simp add: good_def)
    have l: "idx (sp s) p < length (unordered (sp s))" using good_lengths(4) [OF g] i by simp
    show ?thesis
    proof (cases "buffer ?tq = []")
      case True
      with 6 l routed_open [OF r l] routed_capacity [OF r l] show ?thesis
        by (intro moves_onI [of _ "EvPush p"])
           (simp_all add: fire_push_def enqueue_unordered_def Let_def Enqueue_def)
    next
      case False
      with inv i show ?thesis by (rule unordered_moves)
    qed
  next
    case 7
    then obtain j where "j < length (sorters s)" "sorters s ! j \<noteq> SIdle"
      using held_positive [of sorter_hand "sorters s" p] by fastforce
    with inv show ?thesis by (intro sorter_moves)
  next
    case 8
    then obtain j where j: "j < length (senders s)" "p \<in> set (sender_hand (senders s ! j))"
      using held_positive [of sender_hand "senders s" p] by blast
    then have "senders s ! j = NTaken p" by (cases "senders s ! j") auto
    from sender_moves [OF inv(1) j(1) this] show ?thesis by (rule moves_onI) simp
  qed
qed

lemma active_moves:
  assumes inv: "tok s" "lock_inv s"
    and w: "waiter_of s p \<noteq> WNone" "\<And>r. waiter_of s p \<noteq> WDone r"
  shows "moves_on api s"
proof (cases "waiter_of s p")
  case WWait
  with inv show ?thesis by (rule waiting_moves)
next
  case (WEval r)
  have "fire_classify p s \<noteq> Blocked"
    using WEval by (cases "classify (retransmit (reqs (sp s) p)) r")
      (auto simp: fire_classify_def Let_def classify_not_blocked split: verdict.splits)
  then show ?thesis by (intro moves_onI [of _ "EvClassify p"]) simp_all
next
  case (WLock r)
  have i: "idx (sp s) p < length (keys (sp s))" using inv(1) w(1) by (rule tok_idx)
  show ?thesis
  proof (cases "retryMutex (sp s) ! idx (sp s) p")
    case True
    from locked_moves [OF inv i this] show ?thesis .
  next
    case False
    with WLock i good_lengths(1) [OF tok_good [OF inv(1)]] show ?thesis
      by (intro moves_onI [of _ "EvLock p"]) (simp_all add: fire_lock_def)
  qed
next
  case (WClear re r)
  then show ?thesis by (intro moves_onI [of _ "EvClear p"]) (simp_all add: fire_clear_def)
next
  case (WDecide re r)
  have g: "good (sp s)" "idx (sp s) p < length (keys (sp s))"
    using inv(1) w(1) by (simp_all add: tok_good tok_idx)
  have "fire_decide p s \<noteq> Blocked"
    using WDecide by (cases rule: try_enqueue_cases [OF g]) (simp_all add: fire_decide_def)
  then show ?thesis by (intro moves_onI [of _ "EvDecide p"]) simp_all
qed (use inv w eval_holder_moves [of s p] in auto)

end
