(* ===== verification/TxnGuarantees.thy ===== *)
theory TxnGuarantees
  imports TxnProgress
begin

text \<open>
  What the running transaction processor guarantees: no request is lost or duplicated, no
  channel blocks an answer, nothing panics but the reading of a response, the lock of a key
  excludes, nothing deadlocks; and the one order of statements that goes wrong, the circuit
  breaker cleared while another evaluation relies on it.
\<close>

section \<open>A run with two requests\<close>

text \<open>States between requests, with one key: the two caches, the requests, the goroutines.\<close>

definition quiet :: "nonce_map \<Rightarrow> nonce_map \<Rightarrow> (ptr \<Rightarrow> txnReq) \<Rightarrow> bool \<Rightarrow> bool \<Rightarrow> (ptr \<Rightarrow> waiter) \<Rightarrow> tsys"
  where
  "quiet c n R locked cb w =
     \<lparr>sp = \<lparr>mapper = Some CRC32Mapper, keys = [''k0''], ethNonceCache = c, nearNonceCache = n,
        retryMutex = [locked], circuitBreaker = [cb], ordered = [NewTxnQ qCap],
        unordered = [NewTxnQ qCap], reqs = R, respChan = (\<lambda>_. []), timers = [], sends = []\<rparr>,
      submitting = [], sorters = [SIdle], senders = [NIdle], waiter_of = w\<rparr>"

lemma fire_tstep: "fire api ev s = Ret t \<Longrightarrow> tstep api s t"
  by (auto simp: tstep_def)

text \<open>
  A fresh request whose sender is not cached goes through both workers to NEAR; the call fails
  with an unknown error, whose evaluation needs the lock.
\<close>

definition failed_call :: txnResp where
  "failed_call = (near_response 0 GNil (Some ''x''))\<lparr>status := txnStatus_UnhandledError\<rparr>"

definition fresh_nonce :: "near_api \<Rightarrow> txnReq \<Rightarrow> string \<times> nonceCache" where
  "fresh_nonce api req =
     (sender_key api req, \<lparr>nonce = req_nonce req + 1, updateTime = - minNonceUpdateInterval\<rparr>)"

lemma classify_failed:
  "classify b (near_response 0 GNil (Some ''x'')) = Ret (Evaluated b txnStatus_UnhandledError)"
  by (simp add: classify_def near_response_def)

lemma to_eval:
  assumes w: "w p = WNone" and req: "processorIndex req = 0" "timestamp req = 0"
    and c: "c (sender_key api req) = None"
    and n: "nextNearNonce api 0 n ''k0'' = (Inr k, n')"
  shows "(tstep api)\<^sup>*\<^sup>* (quiet c n R False False w)
    (quiet (c(fst (fresh_nonce api req) \<mapsto> snd (fresh_nonce api req))) n'
       (R(p := req)) False False (w(p := WEval (near_response 0 r e))))"
proof -
  let ?R = "R(p := req)" and ?c = "c(fst (fresh_nonce api req) \<mapsto> snd (fresh_nonce api req))"
  let ?w = "w(p := WWait)" and ?q = "(NewTxnQ qCap :: ptr txnq)\<lparr>buffer := [p]\<rparr>"
  let ?a = "quiet c n ?R False False ?w"
  let ?s1 = "?a\<lparr>submitting := [p]\<rparr>"
  let ?s2 = "?a\<lparr>sp := (sp ?a)\<lparr>unordered := [?q]\<rparr>\<rparr>"
  let ?s3 = "?a\<lparr>sorters := [STaken p]\<rparr>"
  let ?b = "quiet ?c n ?R True False ?w"
  let ?s4 = "?b\<lparr>sorters := [SHolding SortForward p]\<rparr>"
  let ?d = "quiet ?c n ?R False False ?w"
  let ?s5 = "?d\<lparr>sp := (sp ?d)\<lparr>ordered := [?q]\<rparr>\<rparr>"
  let ?s6 = "?d\<lparr>senders := [NTaken p]\<rparr>"
  let ?e = "quiet ?c n' ?R False False ?w"
  let ?s7 = "?e\<lparr>sp := (sp ?e)\<lparr>sends := [(p, ''k0'', k)]\<rparr>\<rparr>"
  let ?r = "near_response 0 r e"
  let ?s8 = "?e\<lparr>sp := (sp ?e)\<lparr>respChan := (\<lambda>_. [])(p := [?r])\<rparr>\<rparr>"
  let ?s9 = "quiet ?c n' ?R False False (w(p := WEval ?r))"
  note ds = quiet_def set_waiter_def NewTxnQ_def qCap_def
  have "tstep api (quiet c n R False False w) ?s1"
    using w req by (intro fire_tstep [of _ "EvSubmit p req"]) (simp add: fire_submit_def ds)
  moreover have "tstep api ?s1 ?s2"
    using req by (intro fire_tstep [of _ "EvPush p"])
      (simp add: fire_push_def enqueue_unordered_def Enqueue_def ds)
  moreover have "tstep api ?s2 ?s3"
    by (intro fire_tstep [of _ "EvSortTake 0"]) (simp add: fire_sort_take_def receive_def ds)
  moreover have "tstep api ?s3 ?s4"
    using req c by (intro fire_tstep [of _ "EvSortLock 0 0"])
      (simp add: fire_sort_lock_def sort_decide_def Expired_def timeoutSeconds_def fresh_nonce_def
        set_mutex_def ds Let_def)
  moreover have "tstep api ?s4 ?s5"
    using req by (intro fire_tstep [of _ "EvSortFinish 0 0 0"])
      (simp add: fire_sort_finish_def sort_finish_def enqueue_ordered_def Enqueue_def set_mutex_def ds)
  moreover have "tstep api ?s5 ?s6"
    by (intro fire_tstep [of _ "EvSendTake 0"]) (simp add: fire_send_take_def receive_def ds)
  moreover have "tstep api ?s6 ?s7"
    using req n by (intro fire_tstep [of _ "EvSend 0 0"])
      (simp add: fire_send_def send_txn_def Expired_def timeoutSeconds_def ds)
  moreover have "tstep api ?s7 ?s8"
    by (intro fire_tstep [of _ "EvReply 0 0 r e"])
      (simp add: fire_reply_def send_reply_def respond_def drop_nth_def ds)
  moreover have "tstep api ?s8 ?s9"
    by (intro fire_tstep [of _ "EvRecv p"]) (simp add: fire_recv_def ds fun_upd_idem)
  ultimately show ?thesis
    by (meson r_into_rtranclp rtranclp_trans)
qed

lemma to_lock:
  assumes w: "w p = WNone" and req: "processorIndex req = 0" "timestamp req = 0"
    and c: "c (sender_key api req) = None"
    and n: "nextNearNonce api 0 n ''k0'' = (Inr k, n')"
    and re: "\<not> retransmit req"
  shows "(tstep api)\<^sup>*\<^sup>* (quiet c n R False False w)
    (quiet (c(fst (fresh_nonce api req) \<mapsto> snd (fresh_nonce api req))) n'
       (R(p := req)) False False (w(p := WLock failed_call)))"
proof -
  have "(tstep api)\<^sup>*\<^sup>* (quiet c n R False False w)
    (quiet (c(fst (fresh_nonce api req) \<mapsto> snd (fresh_nonce api req))) n' (R(p := req)) False False
        (w(p := WEval (near_response 0 GNil (Some ''x'')))))"
    using assms(1-5) by (rule to_eval)
  moreover have id: "req\<lparr>retransmit := False\<rparr> = req" using re by simp
  have "tstep api
     (quiet (c(fst (fresh_nonce api req) \<mapsto> snd (fresh_nonce api req))) n' (R(p := req)) False False
        (w(p := WEval (near_response 0 GNil (Some ''x'')))))
     (quiet (c(fst (fresh_nonce api req) \<mapsto> snd (fresh_nonce api req))) n' (R(p := req)) False False
        (w(p := WLock failed_call)))"
    by (intro fire_tstep [of _ "EvClassify p"])
      (simp add: fire_classify_def classify_failed failed_call_def needs_lock_def make_action_def
        set_retransmit_def quiet_def set_waiter_def fun_upd_idem id)
  ultimately show ?thesis by (rule rtranclp.rtrancl_into_rtrancl)
qed

definition demo_req :: "u8 list \<Rightarrow> txnReq" where
  "demo_req a =
     \<lparr>processorIndex = 0, timestamp = 0, req_nonce = 5, requestId = [], sender = a, rawTxn = [],
      hash = [], retransmit = False\<rparr>"

definition one_key_config :: EngineConfig where
  "one_key_config = demo_config"

abbreviation one_key_start :: tsys where
  "one_key_start \<equiv> tsys_start one_key_config [''k0'']"

lemma one_key_start_quiet:
  "\<exists>R. one_key_start = quiet Map.empty Map.empty R False False (\<lambda>_. WNone)"
proof -
  have "one_key_start = quiet Map.empty Map.empty (reqs (sp one_key_start)) False False (\<lambda>_. WNone)"
    by (simp add: tsys_start_def quiet_def NewTxnProcessor_def add_key_state_def one_key_config_def
        demo_config_def select_mapper_def)
  then show ?thesis by blast
qed

text \<open>A request whose response has a status that is not an object, just received.\<close>

abbreviation not_started_at_0 :: txnResp where
  "not_started_at_0 \<equiv> near_response 0 (GMap [(''status'', GStr ''NotStarted'')]) None"

lemma one_at_eval:
  "\<exists>c n R. (tstep demo_api)\<^sup>*\<^sup>* one_key_start
     (quiet c n R False False ((\<lambda>_. WNone)(1 := WEval not_started_at_0)))"
proof -
  obtain R where R: "one_key_start = quiet Map.empty Map.empty R False False (\<lambda>_. WNone)"
    using one_key_start_quiet by blast
  obtain n where n: "nextNearNonce demo_api 0 Map.empty ''k0'' = (Inr 42, n)"
    by (simp add: nextNearNonce_def demo_api_def Let_def)
  have "(tstep demo_api)\<^sup>*\<^sup>* one_key_start
      (quiet (Map.empty(fst (fresh_nonce demo_api (demo_req [])) \<mapsto> snd (fresh_nonce demo_api (demo_req []))))
        n (R(1 := demo_req [])) False False ((\<lambda>_. WNone)(1 := WEval not_started_at_0)))"
    unfolding R by (rule to_eval [OF _ _ _ _ n]) (simp_all add: demo_req_def)
  then show ?thesis by blast
qed

text \<open>Both requests of two senders wait for the lock.\<close>

lemma two_at_lock:
  "\<exists>c n R. (tstep demo_api)\<^sup>*\<^sup>* one_key_start
     (quiet c n R False False ((\<lambda>_. WNone)(1 := WLock failed_call, 2 := WLock failed_call))) \<and>
     processorIndex (R 1) = 0 \<and> processorIndex (R 2) = 0"
proof -
  obtain R where R: "one_key_start = quiet Map.empty Map.empty R False False (\<lambda>_. WNone)"
    using one_key_start_quiet by blast
  obtain n1 where n1: "nextNearNonce demo_api 0 Map.empty ''k0'' = (Inr 42, n1)" "n1 ''k0'' \<noteq> None"
    by (simp add: nextNearNonce_def demo_api_def Let_def)
  then obtain k2 n2 where n2: "nextNearNonce demo_api 0 n1 ''k0'' = (Inr k2, n2)"
    by (auto simp: nextNearNonce_def Let_def split: option.splits)
  let ?r1 = "demo_req []" and ?r2 = "demo_req [1]"
  let ?c1 = "[fst (fresh_nonce demo_api ?r1) \<mapsto> snd (fresh_nonce demo_api ?r1)]"
  have 1: "(tstep demo_api)\<^sup>*\<^sup>* one_key_start
      (quiet ?c1 n1 (R(1 := ?r1)) False False ((\<lambda>_. WNone)(1 := WLock failed_call)))"
    unfolding R by (rule to_lock [OF _ _ _ _ n1(1)]) (simp_all add: demo_req_def)
  have c1: "?c1 (sender_key demo_api ?r2) = None"
    by (simp add: fresh_nonce_def sender_key_def demo_req_def demo_api_def string_of_bytes_def)
  have 2: "(tstep demo_api)\<^sup>*\<^sup>* (quiet ?c1 n1 (R(1 := ?r1)) False False ((\<lambda>_. WNone)(1 := WLock failed_call)))
      (quiet (?c1(fst (fresh_nonce demo_api ?r2) \<mapsto> snd (fresh_nonce demo_api ?r2))) n2
        (R(1 := ?r1, 2 := ?r2)) False False
        ((\<lambda>_. WNone)(1 := WLock failed_call, 2 := WLock failed_call)))"
    by (rule to_lock [where req = ?r2 and c = ?c1, OF _ _ _ c1 n2]) (simp_all add: demo_req_def)
  have idx: "processorIndex ((R(1 := ?r1, 2 := ?r2)) 1) = 0"
    "processorIndex ((R(1 := ?r1, 2 := ?r2)) 2) = 0"
    by (simp_all add: demo_req_def)
  show ?thesis using rtranclp_trans [OF 1 2] idx by blast
qed

section \<open>Guarantees\<close>

text \<open>
  C1. No request is lost or duplicated: in every reachable state, with any number of requests,
  keys and callers, a request whose goroutine waits is in exactly one place (a push of its
  caller, a queue of its own key, a worker's hands, a timer, a call to NEAR, its response
  channel); while it is evaluated it is nowhere; it is never in two places.  So the response
  channel, of capacity one, is empty whenever the request is anywhere else.
\<close>

theorem request_in_one_place:
  assumes "(tstep api)\<^sup>*\<^sup>* (tsys_start config ks) s"
  shows "expected (waiter_of s p) (places s p) \<and> places s p \<le> 1 \<and>
    length (respChan (sp s) p) \<le> places s p"
proof -
  have inv: "tok s" using tokens.reachable_inv [OF _ assms] by blast
  show ?thesis
    using waiter_places [OF inv] tok_places [OF inv] respChan_le_load load_le_places
    by (blast intro: order.trans)
qed

theorem request_in_one_place_witness:
  "\<exists>c n R. places (quiet c n R False False
     ((\<lambda>_. WNone)(1 := WLock failed_call, 2 := WLock failed_call))) 1 = 0"
proof -
  obtain c n R where "(tstep demo_api)\<^sup>*\<^sup>* one_key_start
     (quiet c n R False False ((\<lambda>_. WNone)(1 := WLock failed_call, 2 := WLock failed_call)))"
    using two_at_lock by blast
  from request_in_one_place [OF this, of 1] show ?thesis
    by (intro exI [of _ c] exI [of _ n] exI [of _ R]) (simp add: quiet_def)
qed

lemma fire_panics:
  assumes inv: "tok s" and f: "fire api ev s = Panic k"
  shows "\<exists>p r. ev = EvClassify p \<and> waiter_of s p = WEval r \<and>
    classify (retransmit (reqs (sp s) p)) r = Panic k"
proof -
  note g = tok_good [OF inv]
  have rec: "receive tq \<noteq> Panic k" for tq :: "ptr txnq"
    by (simp add: receive_def split: list.split)
  have bindr: "bind_outcome m (\<lambda>x. Ret (h x)) = Panic k \<longleftrightarrow> m = Panic k" for m :: "proc outcome" and h :: "proc \<Rightarrow> tsys"
    by (cases m) auto
  show ?thesis
  proof (cases ev)
    case (EvSubmit p req)
    with f show ?thesis by (simp add: fire_submit_def split: if_splits)
  next
    case (EvPush p)
    have "enqueue_unordered (sp s) p \<noteq> Panic k" if "p \<in> set (submitting s)"
    proof -
      have "0 < places s p" using that count_list_pos [of "submitting s" p] by (simp add: places_def)
      then have "idx (sp s) p < length (keys (sp s))" using inv by (simp add: tok_idx tok_known)
      then have i: "idx (sp s) p < length (unordered (sp s))" using good_lengths(4) [OF g] by simp
      have "\<not> closed (unordered (sp s) ! idx (sp s) p)"
        using routed_open [of "sp s" "unordered (sp s)" "idx (sp s) p"] g i by (simp add: good_def)
      with i show ?thesis by (simp add: enqueue_unordered_def Let_def Enqueue_def)
    qed
    with f EvPush show ?thesis by (simp add: fire_push_def bindr split: if_splits)
  next
    case (EvSortTake i)
    have "i < length (unordered (sp s))" if "i < length (sorters s)"
      using that by (simp add: tok_lengths [OF inv] good_lengths [OF g])
    with f EvSortTake rec show ?thesis
      by (auto simp: fire_sort_take_def bind_outcome_Panic_iff split: if_splits option.splits prod.splits)
  next
    case (EvSortLock i now)
    show ?thesis
    proof (cases "i < length (sorters s) \<and> (\<exists>p. sorters s ! i = STaken p)")
      case True
      then obtain p where p: "i < length (sorters s)" "sorters s ! i = STaken p" by blast
      have "idx (sp s) p < length (retryMutex (sp s))"
        using sorter_holds [OF inv p(1)] p(2) by (simp add: good_lengths [OF g])
      with f EvSortLock p show ?thesis
        by (simp add: fire_sort_lock_def split: if_splits prod.splits)
    next
      case False
      with f EvSortLock show ?thesis by (auto simp: fire_sort_lock_def split: if_splits sorter.splits)
    qed
  next
    case (EvSortFinish i now later)
    show ?thesis
    proof (cases "i < length (sorters s) \<and> (\<exists>act p. sorters s ! i = SHolding act p)")
      case True
      then obtain act p where p: "i < length (sorters s)" "sorters s ! i = SHolding act p" by blast
      have "sort_finish api now later act (sp s) p \<noteq> Panic k"
        using sorter.no_panic [OF g] sorter_holds [OF inv p(1)] p(2) by simp
      with f EvSortFinish p show ?thesis by (simp add: fire_sort_finish_def bindr)
    next
      case False
      with f EvSortFinish show ?thesis
        by (auto simp: fire_sort_finish_def split: if_splits sorter.splits)
    qed
  next
    case (EvTimer j now)
    obtain q u where q: "timers (sp s) ! j = (q, u)" by (cases "timers (sp s) ! j")
    have "timer_fire now ((sp s)\<lparr>timers := drop_nth j (timers (sp s))\<rparr>) q \<noteq> Panic k"
      if "j < length (timers (sp s))"
      using timer.no_panic timer_dropped [OF g that, of q] q by simp
    with f EvTimer q show ?thesis by (simp add: fire_timer_def bindr split: if_splits)
  next
    case (EvSendTake i)
    have "i < length (ordered (sp s))" if "i < length (senders s)"
      using that by (simp add: tok_lengths [OF inv] good_lengths [OF g])
    with f EvSendTake rec show ?thesis
      by (auto simp: fire_send_take_def bind_outcome_Panic_iff split: if_splits option.splits prod.splits)
  next
    case (EvSend i now)
    show ?thesis
    proof (cases "i < length (senders s) \<and> (\<exists>p. senders s ! i = NTaken p)")
      case True
      then obtain p where p: "i < length (senders s)" "senders s ! i = NTaken p" by blast
      have "send_txn api now (sp s) p \<noteq> Panic k"
        using sender.no_panic [OF g] sender_holds [OF inv p] by simp
      with f EvSend p show ?thesis by (simp add: fire_send_def bindr)
    next
      case False
      with f EvSend show ?thesis by (auto simp: fire_send_def split: if_splits sender.splits)
    qed
  next
    case (EvReply j now r e)
    have "send_reply now ((sp s)\<lparr>sends := drop_nth j (sends (sp s))\<rparr>) (fst (sends (sp s) ! j)) r e \<noteq> Panic k"
      if "j < length (sends (sp s))"
      using reply.no_panic send_dropped [OF g that refl] by simp
    with f EvReply show ?thesis by (simp add: fire_reply_def bindr split: if_splits)
  next
    case (EvRecv p)
    with f show ?thesis by (simp add: fire_recv_def split: waiter.splits list.splits)
  next
    case (EvClassify p)
    show ?thesis
    proof (cases "waiter_of s p")
      case (WEval r)
      with f EvClassify show ?thesis
        by (cases "classify (retransmit (reqs (sp s) p)) r")
          (auto simp: fire_classify_def Let_def split: verdict.splits)
    qed (use f EvClassify in \<open>simp_all add: fire_classify_def\<close>)
  next
    case (EvLock p)
    show ?thesis
    proof (cases "\<exists>r. waiter_of s p = WLock r")
      case True
      then have "idx (sp s) p < length (retryMutex (sp s))"
        using tok_idx [OF inv, of p] by (auto simp: good_lengths [OF g])
      with f EvLock True show ?thesis by (auto simp: fire_lock_def split: if_splits)
    next
      case False
      with f EvLock show ?thesis by (auto simp: fire_lock_def split: waiter.splits)
    qed
  next
    case (EvBreaker p)
    show ?thesis
    proof (cases "\<exists>r. waiter_of s p = WBreaker r")
      case True
      then have "idx (sp s) p < length (circuitBreaker (sp s))"
        using tok_idx [OF inv, of p] by (auto simp: good_lengths [OF g])
      with f EvBreaker True show ?thesis by (auto simp: fire_breaker_def)
    next
      case False
      with f EvBreaker show ?thesis by (auto simp: fire_breaker_def split: waiter.splits)
    qed
  next
    case (EvBody p now later)
    show ?thesis
    proof (cases "\<exists>l r. waiter_of s p = WBody l r")
      case True
      then obtain l r where w: "waiter_of s p = WBody l r" by blast
      have "eval_body api now later (sp s) p r \<noteq> Panic k"
        using eval_body_no_panic tok_idx [OF inv, of p] w by simp
      with f EvBody w show ?thesis
        by (cases "eval_body api now later (sp s) p r") (auto simp: fire_body_def)
    next
      case False
      with f EvBody show ?thesis by (auto simp: fire_body_def split: waiter.splits)
    qed
  next
    case (EvUnlock p)
    with f show ?thesis by (simp add: fire_unlock_def split: waiter.splits)
  next
    case (EvClear p)
    with f show ?thesis by (simp add: fire_clear_def split: waiter.splits)
  next
    case (EvDecide p)
    show ?thesis
    proof (cases "\<exists>re r. waiter_of s p = WDecide re r")
      case True
      then have i: "idx (sp s) p < length (keys (sp s))" using tok_idx [OF inv, of p] by auto
      from f EvDecide True show ?thesis
        by (cases rule: try_enqueue_cases [OF g i]) (auto simp: fire_decide_def split: if_splits)
    next
      case False
      with f EvDecide show ?thesis by (auto simp: fire_decide_def split: waiter.splits)
    qed
  qed
qed

text \<open>
  Until \<open>Close\<close>, the processor cannot crash but by reading a response: in every reachable
  state the only step that panics is the classification of a received response, and only when
  that response itself makes it panic.  No index is out of range, no channel is closed, no
  cache entry is missing.
\<close>

theorem only_reading_a_response_panics:
  assumes "(tstep api)\<^sup>*\<^sup>* (tsys_start config ks) s" "fire api ev s = Panic k"
  shows "\<exists>p r. ev = EvClassify p \<and> waiter_of s p = WEval r \<and>
    classify (retransmit (reqs (sp s) p)) r = Panic k"
proof -
  have "tok s" using tokens.reachable_inv [OF _ assms(1)] by blast
  then show ?thesis using assms(2) by (rule fire_panics)
qed

theorem only_reading_a_response_panics_witness:
  "\<exists>c n R. fire demo_api (EvClassify 1)
     (quiet c n R False False ((\<lambda>_. WNone)(1 := WEval not_started_at_0))) = Panic TypeAssertion \<and>
     classify (retransmit (R 1)) not_started_at_0 = Panic TypeAssertion"
proof -
  obtain c n R where r: "(tstep demo_api)\<^sup>*\<^sup>* one_key_start
     (quiet c n R False False ((\<lambda>_. WNone)(1 := WEval not_started_at_0)))"
    using one_at_eval by blast
  let ?s = "quiet c n R False False ((\<lambda>_. WNone)(1 := WEval not_started_at_0))"
  have p: "fire demo_api (EvClassify 1) ?s = Panic TypeAssertion"
    by (simp add: fire_classify_def quiet_def classify_def near_response_def isTxnResponseFailure_def)
  from only_reading_a_response_panics [OF r p] p show ?thesis
    by (intro exI [of _ c] exI [of _ n] exI [of _ R]) (simp add: quiet_def)
qed

text \<open>
  C10. The lock of a key excludes: in every reachable state it is taken exactly when a sort worker
  with a decided request or the evaluation of a request of that key holds it, and there is
  never more than one such holder.
\<close>

theorem retry_lock_excludes:
  assumes "(tstep api)\<^sup>*\<^sup>* (tsys_start config ks) s" "i < length (keys (sp s))"
  shows "(retryMutex (sp s) ! i \<longleftrightarrow> (\<exists>a. holds_lock s a i)) \<and>
    (\<forall>a b. holds_lock s a i \<and> holds_lock s b i \<longrightarrow> a = b)"
proof -
  have "tok s \<and> lock_inv s" by (rule processor.reachable_inv [OF _ assms(1)]) blast
  then have l: "if retryMutex (sp s) ! i then \<exists>!a. holds_lock s a i else \<not> (\<exists>a. holds_lock s a i)"
    using assms(2) by (simp add: lock_inv_def)
  show ?thesis
  proof (cases "retryMutex (sp s) ! i")
    case True
    with l have "\<exists>!a. holds_lock s a i" by simp
    with True show ?thesis by blast
  next
    case False
    with l show ?thesis by simp
  qed
qed

theorem retry_lock_excludes_witness:
  "\<exists>c n R. \<not> (\<exists>a. holds_lock (quiet c n R False False
     ((\<lambda>_. WNone)(1 := WLock failed_call, 2 := WLock failed_call))) a 0)"
proof -
  obtain c n R where r: "(tstep demo_api)\<^sup>*\<^sup>* one_key_start
     (quiet c n R False False ((\<lambda>_. WNone)(1 := WLock failed_call, 2 := WLock failed_call)))"
    using two_at_lock by blast
  have "0 < length (keys (sp (quiet c n R False False
     ((\<lambda>_. WNone)(1 := WLock failed_call, 2 := WLock failed_call)))))" by (simp add: quiet_def)
  from retry_lock_excludes [OF r this] show ?thesis
    by (intro exI [of _ c] exI [of _ n] exI [of _ R]) (simp add: quiet_def)
qed

text \<open>
  C3. The processor does not deadlock: in every reachable state with a request that was
  submitted and is not finished, some step other than a new submission is possible (calls to
  NEAR are assumed to return, timers to fire).  Full queues, the lock of a key and the sort
  worker that holds it while it waits for room never wait for each other in a circle.
\<close>

theorem processor_deadlock_free:
  assumes "(tstep api)\<^sup>*\<^sup>* (tsys_start config ks) s"
    and "waiter_of s p \<noteq> WNone" "\<And>r. waiter_of s p \<noteq> WDone r"
  shows "\<exists>ev. (\<forall>q req. ev \<noteq> EvSubmit q req) \<and> fire api ev s \<noteq> Blocked"
proof -
  have "tok s \<and> lock_inv s" by (rule processor.reachable_inv [OF _ assms(1)]) blast
  with active_moves [OF _ _ assms(2,3)] show ?thesis by (simp add: moves_on_def)
qed

theorem processor_deadlock_free_witness:
  "\<exists>c n R ev. (\<forall>q req. ev \<noteq> EvSubmit q req) \<and> fire demo_api ev
     (quiet c n R False False ((\<lambda>_. WNone)(1 := WLock failed_call, 2 := WLock failed_call))) \<noteq> Blocked"
proof -
  obtain c n R where "(tstep demo_api)\<^sup>*\<^sup>* one_key_start
     (quiet c n R False False ((\<lambda>_. WNone)(1 := WLock failed_call, 2 := WLock failed_call)))"
    using two_at_lock by blast
  from processor_deadlock_free [OF this, of 1] show ?thesis
    by (simp add: quiet_def) blast
qed

section \<open>The circuit breaker\<close>

text \<open>The body of \<open>eval\<close> on the failed call changes the caches only.\<close>

lemma quiet_body:
  assumes w: "w p = WBody True failed_call" and R: "processorIndex (R p) = 0"
  shows "\<exists>c' n' re x. tstep api (quiet c n R True True w)
    (quiet c' n' R True True (w(p := WUnlock re x)))"
proof -
  obtain u e c' where u: "updateEthNonceCache api 0 0 c (sender (R p)) = ((u, e), c')"
    by (metis prod.exhaust)
  have k: "sender_key api (R p) \<in> dom c'" if "u"
    using u that by (auto simp: cache_defs sender_key_def split: if_splits sum.splits)
  have "\<exists>re. eval_body api 0 0 (sp (quiet c n R True True w)) p failed_call =
      Ret (re, failed_call, sp (quiet c' n R True True w))"
    using u k R by (cases "c' (sender_key api (R p))")
      (auto simp: eval_body_def eval_eth_def eval_tail_def quiet_def failed_call_def make_action_def
        Let_def)
  then obtain re where re: "eval_body api 0 0 (sp (quiet c n R True True w)) p failed_call =
      Ret (re, failed_call, sp (quiet c' n R True True w))" by blast
  have "fire api (EvBody p 0 0) (quiet c n R True True w) =
      Ret (quiet c' n R True True (w(p := WUnlock re failed_call)))"
    using w re by (simp add: fire_body_def quiet_def set_waiter_def)
  then show ?thesis by (blast intro: fire_tstep)
qed

text \<open>
  C11. The circuit breaker does not cover the evaluation that set it: the deferred function of
  \<open>eval\<close> releases the lock of the key before it clears the breaker, so another evaluation can
  take the lock and set the breaker in between, and then lose it.  A state is reachable in which
  that evaluation holds the lock and is about to refresh a nonce or to sleep, yet the breaker is
  clear and requests are admitted.
\<close>

theorem breaker_cleared_while_evaluating:
  "\<exists>s r. (tstep demo_api)\<^sup>*\<^sup>* one_key_start s \<and> waiter_of s 2 = WBody True r \<and>
     needs_lock (statusActions (status r)) \<and> retryMutex (sp s) ! idx (sp s) 2 \<and>
     \<not> circuitBreaker (sp s) ! idx (sp s) 2"
proof -
  obtain c n R where r: "(tstep demo_api)\<^sup>*\<^sup>* one_key_start
     (quiet c n R False False ((\<lambda>_. WNone)(1 := WLock failed_call, 2 := WLock failed_call)))"
    and R: "processorIndex (R 1) = 0" "processorIndex (R 2) = 0"
    using two_at_lock by blast
  let ?w = "(\<lambda>_. WNone)(1 := WLock failed_call, 2 := WLock failed_call) :: ptr \<Rightarrow> waiter"
  note ds = quiet_def set_waiter_def set_mutex_def set_breaker_def R
  have "tstep demo_api (quiet c n R False False ?w) (quiet c n R True False (?w(1 := WBreaker failed_call)))"
    by (intro fire_tstep [of _ "EvLock 1"]) (simp add: fire_lock_def ds del: One_nat_def)
  moreover have "tstep demo_api (quiet c n R True False (?w(1 := WBreaker failed_call)))
      (quiet c n R True True (?w(1 := WBody True failed_call)))"
    by (intro fire_tstep [of _ "EvBreaker 1"]) (simp add: fire_breaker_def ds del: One_nat_def)
  moreover obtain c' n' re x where
    "tstep demo_api (quiet c n R True True (?w(1 := WBody True failed_call)))
      (quiet c' n' R True True (?w(1 := WUnlock re x)))"
    using quiet_body [of "?w(1 := WBody True failed_call)" 1 R demo_api c n] R by auto
  moreover have "tstep demo_api (quiet c' n' R True True (?w(1 := WUnlock re x)))
      (quiet c' n' R False True (?w(1 := WClear re x)))"
    by (intro fire_tstep [of _ "EvUnlock 1"]) (simp add: fire_unlock_def ds del: One_nat_def)
  moreover have "tstep demo_api (quiet c' n' R False True (?w(1 := WClear re x)))
      (quiet c' n' R True True (?w(1 := WClear re x, 2 := WBreaker failed_call)))"
    by (intro fire_tstep [of _ "EvLock 2"]) (simp add: fire_lock_def ds del: One_nat_def)
  moreover have "tstep demo_api (quiet c' n' R True True (?w(1 := WClear re x, 2 := WBreaker failed_call)))
      (quiet c' n' R True True (?w(1 := WClear re x, 2 := WBody True failed_call)))"
    by (intro fire_tstep [of _ "EvBreaker 2"]) (simp add: fire_breaker_def ds del: One_nat_def)
  moreover have "tstep demo_api (quiet c' n' R True True (?w(1 := WClear re x, 2 := WBody True failed_call)))
      (quiet c' n' R True False (?w(1 := WDecide re x, 2 := WBody True failed_call)))"
    by (intro fire_tstep [of _ "EvClear 1"]) (simp add: fire_clear_def ds fun_upd_twist del: One_nat_def)
  ultimately have "(tstep demo_api)\<^sup>*\<^sup>* one_key_start
      (quiet c' n' R True False (?w(1 := WDecide re x, 2 := WBody True failed_call)))"
    using r by (meson r_into_rtranclp rtranclp_trans)
  moreover have "needs_lock (statusActions (status failed_call))"
    by (simp add: failed_call_def needs_lock_def make_action_def)
  ultimately show ?thesis
    by (intro exI [of _ "quiet c' n' R True False (?w(1 := WDecide re x, 2 := WBody True failed_call))"]
        exI [of _ failed_call] conjI) (assumption | simp add: quiet_def R del: One_nat_def)+
qed

end
