(* ===== verification/TxnRefine.thy ===== *)
theory TxnRefine
  imports TxnGuarantees
begin

text \<open>
  The two models of the processor agree: the operations of theory \<open>TxnProcessor\<close>, one atomic
  function each, are what the events of theory \<open>TxnSystem\<close> do when nothing interferes.
\<close>

lemma set_mutex_back:
  "i < length (retryMutex tp) \<Longrightarrow> \<not> retryMutex tp ! i \<Longrightarrow> set_mutex False (set_mutex True tp i) i = tp"
  by (simp add: set_mutex_def list_update_same_conv)

lemma respond_set_mutex:
  "respond (set_mutex b tp i) p r = bind_outcome (respond tp p r) (\<lambda>t. Ret (set_mutex b t i))"
  by (simp add: respond_def set_mutex_def)

lemma enqueue_ordered_set_mutex:
  "enqueue_ordered (set_mutex b tp i) p =
     bind_outcome (enqueue_ordered tp p) (\<lambda>t. Ret (set_mutex b t i))"
proof (cases "slice_get (ordered tp) (idx tp p)")
  case (Ret tq)
  then show ?thesis
    by (cases "Enqueue tq p") (simp_all add: enqueue_ordered_def set_mutex_def Let_def)
qed (simp_all add: enqueue_ordered_def set_mutex_def Let_def)

lemma sort_finish_set_mutex:
  "sort_finish api now later act (set_mutex b tp i) p =
     bind_outcome (sort_finish api now later act tp p) (\<lambda>t. Ret (set_mutex b t i))"
proof (cases act)
  case SortDefer
  then show ?thesis by (simp add: sort_finish_def sort_defer_def set_mutex_def)
qed (simp_all add: sort_finish_def RespondWithStatus_def respond_set_mutex enqueue_ordered_set_mutex)

lemma sort_finish_frame:
  "sort_finish api now later act tp p = Ret tp' \<Longrightarrow> reqs tp' = reqs tp \<and> retryMutex tp' = retryMutex tp"
  by (cases act) (auto simp: sort_finish_def RespondWithStatus_def respond_def enqueue_ordered_def
      sort_defer_def bind_outcome_Ret_iff Let_def split: if_splits)

text \<open>The sort worker: the lock step and the finishing step together are \<open>sort\<close>.\<close>

lemma sort_steps_refine:
  assumes i: "i < length (sorters s)" and taken: "sorters s ! i = STaken p"
    and sort: "sort_txn api now later (sp s) p = Ret tp'"
  shows "(tstep api)\<^sup>*\<^sup>* s (s\<lparr>sp := tp', sorters := (sorters s)[i := SIdle]\<rparr>)"
proof -
  let ?j = "idx (sp s) p"
  obtain act tp1 where dec: "sort_decide api now (sp s) p = (act, tp1)" by (cases "sort_decide api now (sp s) p")
  have j: "?j < length (retryMutex (sp s))" "\<not> retryMutex (sp s) ! ?j"
    and fin: "sort_finish api now later act tp1 p = Ret tp'"
    using sort dec by (auto simp: sort_txn_def slice_get_def split: if_splits)
  have same: "reqs tp1 = reqs (sp s)" "retryMutex tp1 = retryMutex (sp s)"
    using dec sort_decide_frame [of api now "sp s" p] by auto
  let ?t = "s\<lparr>sp := set_mutex True tp1 ?j, sorters := (sorters s)[i := SHolding act p]\<rparr>"
  have "fire api (EvSortLock i now) s = Ret ?t"
    using i taken j dec by (simp add: fire_sort_lock_def)
  then have 1: "tstep api s ?t" by (rule fire_tstep)
  have "idx tp' p = ?j" "retryMutex tp' = retryMutex (sp s)"
    using sort_finish_frame [OF fin] same by simp_all
  then have "set_mutex False (set_mutex True tp' ?j) ?j = tp'"
    using j by (intro set_mutex_back) simp_all
  then have "fire api (EvSortFinish i now later) ?t = Ret (s\<lparr>sp := tp', sorters := (sorters s)[i := SIdle]\<rparr>)"
    using i fin sort_finish_frame [OF fin] same
    by (simp add: fire_sort_finish_def sort_finish_set_mutex)
  then have "tstep api ?t (s\<lparr>sp := tp', sorters := (sorters s)[i := SIdle]\<rparr>)" by (rule fire_tstep)
  with 1 show ?thesis by (meson r_into_rtranclp rtranclp_trans)
qed

text \<open>
  The evaluation: the events from the classification of a response to the clearing of the
  breaker together are \<open>eval\<close>.
\<close>

lemma eval_steps_refine:
  assumes range: "idx (sp s) p < length (keys (sp s))" and w: "waiter_of s p = WEval r"
    and eval: "eval_txn api now later (sp s) p r = Ret (re, r', tp')"
  shows "(tstep api)\<^sup>*\<^sup>* s (set_waiter p (WDecide re r') (s\<lparr>sp := tp'\<rparr>))"
proof -
  obtain v where v: "classify (retransmit (reqs (sp s) p)) r = Ret v"
    using eval by (auto simp: eval_txn_def bind_outcome_Ret_iff)
  show ?thesis
  proof (cases v)
    case Succeeded
    with eval v have "re = False" "r' = r" "tp' = sp s" by (auto simp: eval_txn_def)
    moreover have "tstep api s (set_waiter p (WDecide False r) s)"
      using w v Succeeded by (intro fire_tstep [of _ "EvClassify p"]) (simp add: fire_classify_def)
    ultimately show ?thesis by (simp add: r_into_rtranclp)
  next
    case (Evaluated b st)
    let ?tp1 = "set_retransmit b (sp s) p" and ?r1 = "r\<lparr>status := st\<rparr>" and ?i = "idx (sp s) p"
    have i [simp]: "idx ?tp1 p = ?i" "retryMutex ?tp1 = retryMutex (sp s)" "keys ?tp1 = keys (sp s)"
        "circuitBreaker ?tp1 = circuitBreaker (sp s)"
      by (simp_all add: set_retransmit_def)
    show ?thesis
    proof (cases "needs_lock (statusActions st)")
      case False
      let ?t = "set_waiter p (WBody False ?r1) (s\<lparr>sp := ?tp1\<rparr>)"
      have "fire api (EvClassify p) s = Ret ?t"
        using w v Evaluated False by (simp add: fire_classify_def Let_def)
      then have 1: "tstep api s ?t" by (rule fire_tstep)
      have "eval_body api now later ?tp1 p ?r1 = Ret (re, r', tp')"
        using eval v Evaluated False by (simp add: eval_txn_def Let_def)
      then have "fire api (EvBody p now later) ?t = Ret (set_waiter p (WDecide re r') (s\<lparr>sp := tp'\<rparr>))"
        by (simp add: fire_body_def set_waiter_def)
      from 1 fire_tstep [OF this] show ?thesis by (meson r_into_rtranclp rtranclp_trans)
    next
      case True
      let ?m = "set_mutex True ?tp1 ?i" and ?c = "set_breaker True (set_mutex True ?tp1 ?i) ?i"
      let ?rest = "bind_outcome (eval_body api now later ?c p ?r1)
        (\<lambda>(re, r2, tp2). Ret (re, r2, set_breaker False (set_mutex False tp2 ?i) ?i))"
      have e: "bind_outcome (slice_get (retryMutex (sp s)) ?i) (\<lambda>locked.
          if locked then Blocked else bind_outcome (slice_get (circuitBreaker (sp s)) ?i) (\<lambda>_. ?rest)) =
          Ret (re, r', tp')"
        using eval by (simp only: eval_txn_def v Evaluated True bind_outcome.simps verdict.case Let_def i if_True)
      have "?i < length (retryMutex (sp s))" by (rule ccontr) (use e in simp)
      moreover from this have "\<not> retryMutex (sp s) ! ?i" using e by (auto split: if_splits)
      moreover from calculation have "?i < length (circuitBreaker (sp s))" by (intro ccontr [of "?i < length (circuitBreaker (sp s))"]) (use e in simp)
      ultimately have lock: "?i < length (retryMutex (sp s))" "\<not> retryMutex (sp s) ! ?i"
          "?i < length (circuitBreaker (sp s))" by auto
      have "?rest = Ret (re, r', tp')" using e lock by simp
      then obtain tp2 where body: "eval_body api now later ?c p ?r1 = Ret (re, r', tp2)"
        and tp': "tp' = set_breaker False (set_mutex False tp2 ?i) ?i"
        by (auto simp: bind_outcome_Ret_iff)
      have c: "idx ?c p = ?i" "keys ?c = keys (sp s)" by (simp_all add: set_breaker_def set_mutex_def)
      have j: "idx tp2 p = ?i"
        using eval_body_same_queues [OF _ body] range c by simp
      have 1: "tstep api s (set_waiter p (WLock ?r1) (s\<lparr>sp := ?tp1\<rparr>))"
        using w v Evaluated True by (intro fire_tstep [of _ "EvClassify p"]) (simp add: fire_classify_def Let_def)
      have 2: "tstep api (set_waiter p (WLock ?r1) (s\<lparr>sp := ?tp1\<rparr>)) (set_waiter p (WBreaker ?r1) (s\<lparr>sp := ?m\<rparr>))"
        using lock by (intro fire_tstep [of _ "EvLock p"]) (simp add: fire_lock_def set_waiter_def)
      have 3: "tstep api (set_waiter p (WBreaker ?r1) (s\<lparr>sp := ?m\<rparr>)) (set_waiter p (WBody True ?r1) (s\<lparr>sp := ?c\<rparr>))"
        using lock by (intro fire_tstep [of _ "EvBreaker p"])
          (simp add: fire_breaker_def set_waiter_def set_mutex_def)
      have 4: "tstep api (set_waiter p (WBody True ?r1) (s\<lparr>sp := ?c\<rparr>)) (set_waiter p (WUnlock re r') (s\<lparr>sp := tp2\<rparr>))"
        using body by (intro fire_tstep [of _ "EvBody p now later"]) (simp add: fire_body_def set_waiter_def)
      have 5: "tstep api (set_waiter p (WUnlock re r') (s\<lparr>sp := tp2\<rparr>))
          (set_waiter p (WClear re r') (s\<lparr>sp := set_mutex False tp2 ?i\<rparr>))"
        using j by (intro fire_tstep [of _ "EvUnlock p"]) (simp add: fire_unlock_def set_waiter_def)
      have 6: "tstep api (set_waiter p (WClear re r') (s\<lparr>sp := set_mutex False tp2 ?i\<rparr>))
          (set_waiter p (WDecide re r') (s\<lparr>sp := tp'\<rparr>))"
        using j tp' by (intro fire_tstep [of _ "EvClear p"])
          (simp add: fire_clear_def set_waiter_def set_mutex_def)
      from 1 2 3 4 5 6 show ?thesis by (meson r_into_rtranclp rtranclp_trans)
    qed
  qed
qed

text \<open>A failed call, just received.\<close>

abbreviation failed_reply :: txnResp where
  "failed_reply \<equiv> near_response 0 GNil (Some ''x'')"

lemma one_failed_reply:
  "\<exists>c n R. (tstep demo_api)\<^sup>*\<^sup>* one_key_start
     (quiet c n R False False ((\<lambda>_. WNone)(1 := WEval failed_reply))) \<and> processorIndex (R 1) = 0"
proof -
  obtain R where R: "one_key_start = quiet Map.empty Map.empty R False False (\<lambda>_. WNone)"
    using one_key_start_quiet by blast
  obtain n where n: "nextNearNonce demo_api 0 Map.empty ''k0'' = (Inr 42, n)"
    by (simp add: nextNearNonce_def demo_api_def Let_def)
  have "(tstep demo_api)\<^sup>*\<^sup>* one_key_start
      (quiet (Map.empty(fst (fresh_nonce demo_api (demo_req [])) \<mapsto> snd (fresh_nonce demo_api (demo_req []))))
        n (R(1 := demo_req [])) False False ((\<lambda>_. WNone)(1 := WEval failed_reply)))"
    unfolding R by (rule to_eval [OF _ _ _ _ n]) (simp_all add: demo_req_def)
  moreover have "processorIndex ((R(1 := demo_req [])) 1) = 0" by (simp add: demo_req_def)
  ultimately show ?thesis by blast
qed

lemma failed_reply_evaluated:
  assumes "ready tp p"
  shows "\<exists>x. eval_txn demo_api 0 0 tp p failed_reply = Ret x"
proof -
  have c: "classify (retransmit (reqs tp p)) failed_reply =
      Ret (Evaluated (retransmit (reqs tp p)) txnStatus_UnhandledError)"
    by (rule classify_failed)
  have "eval_eth demo_api 0 0 t p q \<noteq> Blocked" if "status q = txnStatus_UnhandledError" for t q
    using that by (auto simp: eval_eth_def eval_tail_def Let_def split: prod.split option.split)
  then have ret: "\<exists>x. eval_eth demo_api 0 0 t p q = Ret x" if "status q = txnStatus_UnhandledError" for t q
    using that eval_eth_no_panic by (metis outcome.exhaust)
  let ?t = "near_refreshed demo_api 0 0 (set_breaker True (set_mutex True
    (set_retransmit (retransmit (reqs tp p)) tp p) (idx tp p)) (idx tp p)) p txnStatus_UnhandledError"
  obtain x where x: "eval_eth demo_api 0 0 ?t p (failed_reply\<lparr>status := txnStatus_UnhandledError\<rparr>) = Ret x"
    using ret [of "failed_reply\<lparr>status := txnStatus_UnhandledError\<rparr>" ?t] by auto
  obtain re r2 tp2 where "x = (re, r2, tp2)" by (cases x)
  with eval_locked_eq [OF assms c, of demo_api 0 0] x show ?thesis by (simp add: make_action_def)
qed

text \<open>
  The two models of the processor agree: in every reachable state with a received response,
  what the atomic \<open>eval\<close> returns and leaves is reached by the events of the running processor,
  from the classification to the clearing of the breaker; and what the atomic \<open>sort\<close> leaves, by
  the two events of the sort worker that took the request.
\<close>

theorem operations_are_runs:
  assumes "(tstep api)\<^sup>*\<^sup>* (tsys_start config ks) s"
  shows "(waiter_of s p = WEval r \<and> eval_txn api now later (sp s) p r = Ret (re, r', tp') \<longrightarrow>
      (tstep api)\<^sup>*\<^sup>* s (set_waiter p (WDecide re r') (s\<lparr>sp := tp'\<rparr>))) \<and>
    (i < length (sorters s) \<and> sorters s ! i = STaken p \<and> sort_txn api now later (sp s) p = Ret tp' \<longrightarrow>
      (tstep api)\<^sup>*\<^sup>* s (s\<lparr>sp := tp', sorters := (sorters s)[i := SIdle]\<rparr>))"
proof -
  have "tok s" using tokens.reachable_inv [OF _ assms] by blast
  then show ?thesis using tok_idx [of s p] eval_steps_refine sort_steps_refine by auto
qed

theorem operations_are_runs_witness:
  "\<exists>c n R re r' tp'. (tstep demo_api)\<^sup>*\<^sup>*
     (quiet c n R False False ((\<lambda>_. WNone)(1 := WEval failed_reply)))
     (set_waiter 1 (WDecide re r') ((quiet c n R False False ((\<lambda>_. WNone)(1 := WEval failed_reply)))\<lparr>sp := tp'\<rparr>))"
proof -
  obtain c n R where r: "(tstep demo_api)\<^sup>*\<^sup>* one_key_start
     (quiet c n R False False ((\<lambda>_. WNone)(1 := WEval failed_reply)))" and R: "processorIndex (R 1) = 0"
    using one_failed_reply by blast
  let ?s = "quiet c n R False False ((\<lambda>_. WNone)(1 := WEval failed_reply))"
  have "ready (sp ?s) 1" using R by (simp add: ready_def shape_def quiet_def)
  from failed_reply_evaluated [OF this] obtain x where x: "eval_txn demo_api 0 0 (sp ?s) 1 failed_reply = Ret x"
    by blast
  obtain re r' tp' where "x = (re, r', tp')" by (cases x)
  with x have "eval_txn demo_api 0 0 (sp ?s) 1 failed_reply = Ret (re, r', tp')" by simp
  moreover have "waiter_of ?s 1 = WEval failed_reply" by (simp add: quiet_def)
  ultimately have "(tstep demo_api)\<^sup>*\<^sup>* ?s (set_waiter 1 (WDecide re r') (?s\<lparr>sp := tp'\<rparr>))"
    using operations_are_runs [OF r, of 1 failed_reply 0 0 re r' tp'] by blast
  then show ?thesis by blast
qed

end
