(* ===== verification/TxnClose.thy ===== *)
theory TxnClose
  imports TxnGuarantees
begin

text \<open>
  \<open>Close\<close> beside the running processor: it closes the queues one by one, the unordered ones first,
  and after each waits for the queue's worker (\<open>txnQ.go\<close>, \<open>Close\<close>), while everything else goes on.
  The workers are taken to have been counted in the queues' wait groups; theory \<open>TxnQueue\<close> treats
  the window in which a worker has not.
\<close>

section \<open>The closing system\<close>

text \<open>
  \<open>nclosed\<close> counts the queues \<open>Close\<close> has closed: 0 before \<open>Close\<close>, and with \<open>n\<close> keys first the
  unordered queues 0 to \<open>n - 1\<close>, then the ordered ones.  A worker that finds its closed queue empty
  ends; \<open>worker_ended s k\<close> is that state for queue \<open>k\<close>.
\<close>

record csys =
  running :: tsys
  nclosed :: nat

definition csys_start :: "EngineConfig \<Rightarrow> string list \<Rightarrow> csys" where
  "csys_start config ks = \<lparr>running = tsys_start config ks, nclosed = 0\<rparr>"

definition worker_ended :: "tsys \<Rightarrow> nat \<Rightarrow> bool" where
  "worker_ended s k =
     (let n = length (keys (sp s))
      in if k < n
         then closed (unordered (sp s) ! k) \<and> buffer (unordered (sp s) ! k) = [] \<and> sorters s ! k = SIdle
         else closed (ordered (sp s) ! (k - n)) \<and> buffer (ordered (sp s) ! (k - n)) = [] \<and>
              senders s ! (k - n) = NIdle)"

text \<open>
  The next \<open>q.Close()\<close> of the two loops: it is reached when the previous queue's worker has ended.
\<close>

definition fire_close :: "csys \<Rightarrow> csys outcome" where
  "fire_close c =
     (let s = running c; tp = sp s; n = length (keys tp); k = nclosed c
      in if 2 * n \<le> k \<or> (0 < k \<and> \<not> worker_ended s (k - 1)) then Blocked
         else if k < n then
           bind_outcome (slice_get (unordered tp) k) (\<lambda>tq.
           bind_outcome (close_queue tq) (\<lambda>tq'.
           Ret (c\<lparr>running := s\<lparr>sp := tp\<lparr>unordered := (unordered tp)[k := tq']\<rparr>\<rparr>, nclosed := k + 1\<rparr>)))
         else
           bind_outcome (slice_get (ordered tp) (k - n)) (\<lambda>tq.
           bind_outcome (close_queue tq) (\<lambda>tq'.
           Ret (c\<lparr>running := s\<lparr>sp := tp\<lparr>ordered := (ordered tp)[k - n := tq']\<rparr>\<rparr>, nclosed := k + 1\<rparr>))))"

text \<open>\<open>Close\<close> returns when the worker of the last queue has ended.\<close>

definition close_returned :: "csys \<Rightarrow> bool" where
  "close_returned c =
     (let n = length (keys (sp (running c)))
      in nclosed c = 2 * n \<and> (0 < n \<longrightarrow> worker_ended (running c) (2 * n - 1)))"

datatype cevent = Run event | CloseNext

fun cfire :: "near_api \<Rightarrow> cevent \<Rightarrow> csys \<Rightarrow> csys outcome" where
  "cfire api (Run ev) c = bind_outcome (fire api ev (running c)) (\<lambda>s. Ret (c\<lparr>running := s\<rparr>))"
| "cfire api CloseNext c = fire_close c"

definition cstep :: "near_api \<Rightarrow> csys \<Rightarrow> csys \<Rightarrow> bool" where
  "cstep api c d \<longleftrightarrow> (\<exists>ev. cfire api ev c = Ret d)"

section \<open>A processor whose queues were never closed\<close>

text \<open>
  \<open>reopen_sys\<close> forgets that queues were closed.  What the processor does, it also does with all
  queues open, as long as it does not send on a closed one: \<open>mimics P f m m'\<close> says it of an outcome
  \<open>m\<close> and the outcome \<open>m'\<close> with open queues, \<open>P\<close> being what holds when \<open>m\<close> is such a send.
\<close>

definition reopen_queue :: "'a txnq \<Rightarrow> 'a txnq" where
  "reopen_queue tq = tq\<lparr>closed := False\<rparr>"

definition reopen :: "proc \<Rightarrow> proc" where
  "reopen tp = tp\<lparr>ordered := map reopen_queue (ordered tp), unordered := map reopen_queue (unordered tp)\<rparr>"

definition reopen_sys :: "tsys \<Rightarrow> tsys" where
  "reopen_sys s = s\<lparr>sp := reopen (sp s)\<rparr>"

definition mimics :: "bool \<Rightarrow> ('a \<Rightarrow> 'b) \<Rightarrow> 'a outcome \<Rightarrow> 'b outcome \<Rightarrow> bool" where
  "mimics P f m m' =
     (case m of
        Ret x \<Rightarrow> m' = Ret (f x)
      | Panic k \<Rightarrow> m' = Panic k \<or> k = SendOnClosed \<and> P
      | Blocked \<Rightarrow> True)"

lemma mimics_simps [simp]:
  "mimics P f (Ret x) m' \<longleftrightarrow> m' = Ret (f x)"
  "mimics P f (Panic k) m' \<longleftrightarrow> m' = Panic k \<or> k = SendOnClosed \<and> P"
  "mimics P f Blocked m'"
  by (simp_all add: mimics_def)

lemma mimics_bind:
  assumes "mimics P f m m'" "\<And>x. m = Ret x \<Longrightarrow> mimics P g (h x) (h' (f x))"
  shows "mimics P g (bind_outcome m h) (bind_outcome m' h')"
  using assms by (cases m) auto

lemma mimics_same:
  "(\<And>x. m = Ret x \<Longrightarrow> mimics P g (h x) (h' x)) \<Longrightarrow> mimics P g (bind_outcome m h) (bind_outcome m h')"
  by (cases m) auto

lemma mimics_mono: "mimics P f m m' \<Longrightarrow> (P \<Longrightarrow> Q) \<Longrightarrow> mimics Q f m m'"
  by (cases m) auto

lemma reopen_queue_fields [simp]:
  "buffer (reopen_queue tq) = buffer tq" "capacity (reopen_queue tq) = capacity tq"
  "\<not> closed (reopen_queue tq)" "cancelled (reopen_queue tq) = cancelled tq"
  "reopen_queue (tq\<lparr>buffer := b\<rparr>) = (reopen_queue tq)\<lparr>buffer := b\<rparr>"
  "reopen_queue (tq\<lparr>closed := c\<rparr>) = reopen_queue tq"
  by (simp_all add: reopen_queue_def)

lemma reopen_fields [simp]:
  "mapper (reopen tp) = mapper tp" "keys (reopen tp) = keys tp"
  "ethNonceCache (reopen tp) = ethNonceCache tp" "nearNonceCache (reopen tp) = nearNonceCache tp"
  "retryMutex (reopen tp) = retryMutex tp" "circuitBreaker (reopen tp) = circuitBreaker tp"
  "reqs (reopen tp) = reqs tp" "respChan (reopen tp) = respChan tp"
  "timers (reopen tp) = timers tp" "sends (reopen tp) = sends tp"
  "ordered (reopen tp) = map reopen_queue (ordered tp)"
  "unordered (reopen tp) = map reopen_queue (unordered tp)"
  by (simp_all add: reopen_def)

lemma reopen_updates [simp]:
  "reopen (tp\<lparr>ethNonceCache := a\<rparr>) = (reopen tp)\<lparr>ethNonceCache := a\<rparr>"
  "reopen (tp\<lparr>nearNonceCache := a\<rparr>) = (reopen tp)\<lparr>nearNonceCache := a\<rparr>"
  "reopen (tp\<lparr>retryMutex := l\<rparr>) = (reopen tp)\<lparr>retryMutex := l\<rparr>"
  "reopen (tp\<lparr>circuitBreaker := l\<rparr>) = (reopen tp)\<lparr>circuitBreaker := l\<rparr>"
  "reopen (tp\<lparr>reqs := r\<rparr>) = (reopen tp)\<lparr>reqs := r\<rparr>"
  "reopen (tp\<lparr>respChan := r'\<rparr>) = (reopen tp)\<lparr>respChan := r'\<rparr>"
  "reopen (tp\<lparr>timers := ts\<rparr>) = (reopen tp)\<lparr>timers := ts\<rparr>"
  "reopen (tp\<lparr>sends := ss\<rparr>) = (reopen tp)\<lparr>sends := ss\<rparr>"
  "reopen (tp\<lparr>ordered := qs\<rparr>) = (reopen tp)\<lparr>ordered := map reopen_queue qs\<rparr>"
  "reopen (tp\<lparr>unordered := qs\<rparr>) = (reopen tp)\<lparr>unordered := map reopen_queue qs\<rparr>"
  by (simp_all add: reopen_def)

lemma reopen_setters [simp]:
  "reopen (set_mutex b tp i) = set_mutex b (reopen tp) i"
  "reopen (set_breaker b tp i) = set_breaker b (reopen tp) i"
  "reopen (set_retransmit b tp p) = set_retransmit b (reopen tp) p"
  by (simp_all add: set_mutex_def set_breaker_def set_retransmit_def)

lemma reopen_sys_fields [simp]:
  "sp (reopen_sys s) = reopen (sp s)" "submitting (reopen_sys s) = submitting s"
  "sorters (reopen_sys s) = sorters s" "senders (reopen_sys s) = senders s"
  "waiter_of (reopen_sys s) = waiter_of s"
  "reopen_sys (s\<lparr>sp := tp\<rparr>) = (reopen_sys s)\<lparr>sp := reopen tp\<rparr>"
  "reopen_sys (s\<lparr>submitting := ps\<rparr>) = (reopen_sys s)\<lparr>submitting := ps\<rparr>"
  "reopen_sys (s\<lparr>sorters := xs\<rparr>) = (reopen_sys s)\<lparr>sorters := xs\<rparr>"
  "reopen_sys (s\<lparr>senders := ys\<rparr>) = (reopen_sys s)\<lparr>senders := ys\<rparr>"
  "reopen_sys (set_waiter p x s) = set_waiter p x (reopen_sys s)"
  by (simp_all add: reopen_sys_def set_waiter_def)

section \<open>The operations with open queues\<close>

lemma mimics_Enqueue: "mimics (closed tq) reopen_queue (Enqueue tq d) (Enqueue (reopen_queue tq) d)"
  by (simp add: Enqueue_def)

lemma mimics_TryEnqueue:
  "mimics (closed tq) (apsnd reopen_queue) (TryEnqueue tq d) (TryEnqueue (reopen_queue tq) d)"
  by (simp add: TryEnqueue_def)

lemma map_update_same: "(map f xs)[i := f (xs ! i)] = map f xs"
  by (metis list_update_id map_update)

lemma reopen_unordered_same: "(reopen tp)\<lparr>unordered := map reopen_queue (unordered tp)\<rparr> = reopen tp"
  by (simp add: reopen_def)

lemma mimics_slice_get: "mimics P reopen_queue (slice_get tqs i) (slice_get (map reopen_queue tqs) i)"
  by (cases "i < length tqs") simp_all

abbreviation closed_at :: "ptr txnq list \<Rightarrow> nat \<Rightarrow> bool" where
  "closed_at tqs i \<equiv> i < length tqs \<and> closed (tqs ! i)"

lemma mimics_enqueue_ordered:
  "mimics (closed_at (ordered tp) (idx tp p)) reopen (enqueue_ordered tp p) (enqueue_ordered (reopen tp) p)"
proof (cases "idx tp p < length (ordered tp)")
  case True
  then show ?thesis
    by (simp add: enqueue_ordered_def Let_def Enqueue_def map_update)
qed (simp add: enqueue_ordered_def)

lemma mimics_enqueue_unordered:
  "mimics (closed_at (unordered tp) (idx tp p)) reopen (enqueue_unordered tp p)
     (enqueue_unordered (reopen tp) p)"
proof (cases "idx tp p < length (unordered tp)")
  case True
  then show ?thesis
    by (simp add: enqueue_unordered_def Let_def Enqueue_def map_update)
qed (simp add: enqueue_unordered_def)

lemma mimics_try_enqueue_unordered:
  "mimics (closed_at (unordered tp) (idx tp p)) (apsnd reopen) (try_enqueue_unordered tp p)
     (try_enqueue_unordered (reopen tp) p)"
proof (cases "idx tp p < length (unordered tp)")
  case True
  then show ?thesis
    by (simp add: try_enqueue_unordered_def Let_def TryEnqueue_def map_update map_update_same
        reopen_unordered_same)
qed (simp add: try_enqueue_unordered_def)

lemma mimics_respond: "mimics P reopen (respond tp p r) (respond (reopen tp) p r)"
  by (simp add: respond_def)

lemma sort_decide_reopen:
  "sort_decide api now (reopen tp) p = apsnd reopen (sort_decide api now tp p)"
  by (simp add: sort_decide_def Let_def split: option.split)

lemma mimics_sort_finish:
  "mimics (act = SortForward \<and> closed_at (ordered tp) (idx tp p)) reopen
     (sort_finish api now later act tp p) (sort_finish api now later act (reopen tp) p)"
proof (cases act)
  case SortForward
  then show ?thesis using mimics_enqueue_ordered [of tp p] by (simp add: sort_finish_def)
qed (simp_all add: sort_finish_def RespondWithStatus_def mimics_respond sort_defer_def)

lemma mimics_timer_fire:
  "mimics (closed_at (unordered tp) (idx tp p)) reopen (timer_fire now tp p) (timer_fire now (reopen tp) p)"
  unfolding timer_fire_def
  by (rule mimics_bind [OF mimics_try_enqueue_unordered])
     (simp add: RespondWithStatus_def mimics_respond split: prod.split)

lemma mimics_send_txn: "mimics P reopen (send_txn api now tp p) (send_txn api now (reopen tp) p)"
  unfolding send_txn_def Let_def reopen_fields
proof (rule mimics_same)
  fix cb
  have "mimics P reopen (RespondWithStatus now (tp\<lparr>nearNonceCache := c\<rparr>) p st)
      (RespondWithStatus now ((reopen tp)\<lparr>nearNonceCache := c\<rparr>) p st)" for c st
    using mimics_respond [of P "tp\<lparr>nearNonceCache := c\<rparr>"] by (simp add: RespondWithStatus_def)
  then show "mimics P reopen
      (if cb then RespondWithStatus now tp p txnStatus_Reorder
       else if Expired now (reqs tp p) then RespondWithStatus now tp p txnStatus_TimeOutError3
       else bind_outcome (slice_get (keys tp) (idx tp p)) (\<lambda>key.
         case nextNearNonce api now (nearNonceCache tp) key of
           (Inl e, c) \<Rightarrow> RespondWithStatus now (tp\<lparr>nearNonceCache := c\<rparr>) p txnStatus_NearNonceError
         | (Inr n, c) \<Rightarrow> Ret (tp\<lparr>nearNonceCache := c, sends := sends tp @ [(p, key, n)]\<rparr>)))
      (if cb then RespondWithStatus now (reopen tp) p txnStatus_Reorder
       else if Expired now (reqs tp p) then RespondWithStatus now (reopen tp) p txnStatus_TimeOutError3
       else bind_outcome (slice_get (keys tp) (idx tp p)) (\<lambda>key.
         case nextNearNonce api now (nearNonceCache tp) key of
           (Inl e, c) \<Rightarrow> RespondWithStatus now ((reopen tp)\<lparr>nearNonceCache := c\<rparr>) p txnStatus_NearNonceError
         | (Inr n, c) \<Rightarrow> Ret ((reopen tp)\<lparr>nearNonceCache := c, sends := sends tp @ [(p, key, n)]\<rparr>)))"
    by (auto simp: RespondWithStatus_def mimics_respond intro!: mimics_same split: prod.split sum.split)
qed

lemma mimics_eval_tail:
  "mimics P (apsnd (apsnd reopen)) (eval_tail act r tp) (eval_tail act r (reopen tp))"
  by (simp add: eval_tail_def)

lemma mimics_eval_eth:
  "mimics P (apsnd (apsnd reopen)) (eval_eth api now later tp p r) (eval_eth api now later (reopen tp) p r)"
proof -
  obtain u e c where u: "updateEthNonceCache api now later (ethNonceCache tp) (sender (reqs tp p)) = ((u, e), c)"
    by (metis surj_pair)
  have res: "mimics P (apsnd (apsnd reopen))
      (bind_outcome (RespondWithStatus later (tp\<lparr>ethNonceCache := c\<rparr>) p st) (\<lambda>tp''. Ret (False, x, tp'')))
      (bind_outcome (RespondWithStatus later ((reopen tp)\<lparr>ethNonceCache := c\<rparr>) p st) (\<lambda>tp''. Ret (False, x, tp'')))"
    for x st
    unfolding RespondWithStatus_def
    by (rule mimics_bind [OF mimics_respond [of P "tp\<lparr>ethNonceCache := c\<rparr>", simplified]]) simp
  show ?thesis
    using mimics_eval_tail [of P _ r "tp\<lparr>ethNonceCache := c\<rparr>"]
    by (auto simp: eval_eth_def u Let_def sender_key_def res split: option.split)
qed

lemma mimics_eval_body:
  "mimics P (apsnd (apsnd reopen)) (eval_body api now later tp p r) (eval_body api now later (reopen tp) p r)"
proof -
  let ?f = "\<lambda>tp. if updateNearCache (statusActions (status r)) then
      bind_outcome (slice_get (keys tp) (idx tp p)) (\<lambda>key.
        Ret (tp\<lparr>nearNonceCache := snd (updateNearNonceCache api now later (nearNonceCache tp) key)\<rparr>))
    else Ret tp"
  have "mimics P reopen (?f tp) (?f (reopen tp))"
    by (auto intro: mimics_same)
  then show ?thesis
    unfolding eval_body_def Let_def
    by (rule mimics_bind) (simp add: mimics_eval_eth mimics_eval_tail)
qed

section \<open>The steps with open queues\<close>

text \<open>The send on a closed queue an event can be.\<close>

fun closed_push :: "tsys \<Rightarrow> event \<Rightarrow> bool" where
  "closed_push s (EvPush p) = closed_at (unordered (sp s)) (idx (sp s) p)"
| "closed_push s (EvTimer k now) = (\<exists>p t. timers (sp s) ! k = (p, t) \<and>
     closed_at (unordered (sp s)) (idx (sp s) p))"
| "closed_push s (EvDecide p) = closed_at (unordered (sp s)) (idx (sp s) p)"
| "closed_push s (EvSortFinish i now later) = (\<exists>p. i < length (sorters s) \<and>
     sorters s ! i = SHolding SortForward p \<and> closed_at (ordered (sp s)) (idx (sp s) p))"
| "closed_push s _ = False"

lemma receive_reopen:
  "receive tq = Ret (Some p, tq') \<Longrightarrow> receive (reopen_queue tq) = Ret (Some p, reopen_queue tq')"
  by (auto simp: receive_Some_iff)

lemma mimics_fire_sort_take:
  "mimics P reopen_sys (fire_sort_take i s) (fire_sort_take i (reopen_sys s))"
proof (cases "i < length (sorters s) \<and> sorters s ! i = SIdle \<and> i < length (unordered (sp s))")
  case True
  show ?thesis
  proof (cases "receive (unordered (sp s) ! i)")
    case (Ret y)
    then obtain x tq where y: "receive (unordered (sp s) ! i) = Ret (x, tq)" by (cases y) simp
    with True receive_reopen [of _ _ tq] show ?thesis
      by (cases x) (auto simp: fire_sort_take_def map_update)
  qed (use True in \<open>simp_all add: fire_sort_take_def receive_def split: list.splits if_splits\<close>)
qed (auto simp: fire_sort_take_def)

lemma mimics_fire_send_take:
  "mimics P reopen_sys (fire_send_take i s) (fire_send_take i (reopen_sys s))"
proof (cases "i < length (senders s) \<and> senders s ! i = NIdle \<and> i < length (ordered (sp s))")
  case True
  show ?thesis
  proof (cases "receive (ordered (sp s) ! i)")
    case (Ret y)
    then obtain x tq where y: "receive (ordered (sp s) ! i) = Ret (x, tq)" by (cases y) simp
    with True receive_reopen [of _ _ tq] show ?thesis
      by (cases x) (auto simp: fire_send_take_def map_update)
  qed (use True in \<open>simp_all add: fire_send_take_def receive_def split: list.splits if_splits\<close>)
qed (auto simp: fire_send_take_def)

lemma mimics_fire: "mimics (closed_push s ev) reopen_sys (fire api ev s) (fire api ev (reopen_sys s))"
proof (cases ev)
  case (EvPush p)
  then show ?thesis
    by (auto simp: fire_push_def intro!: mimics_bind [OF mimics_enqueue_unordered])
next
  case (EvSortFinish i now later)
  show ?thesis
  proof (cases "i < length (sorters s) \<and> (\<exists>act p. sorters s ! i = SHolding act p)")
    case True
    then obtain act p where a: "i < length (sorters s)" "sorters s ! i = SHolding act p" by blast
    from mimics_sort_finish [of act "sp s" p api now later]
    have "mimics (closed_push s ev) reopen (sort_finish api now later act (sp s) p)
        (sort_finish api now later act (reopen (sp s)) p)"
      by (rule mimics_mono) (use a EvSortFinish in simp)
    from mimics_bind [OF this, where g = reopen_sys] a EvSortFinish show ?thesis
      by (simp add: fire_sort_finish_def)
  qed (auto simp: EvSortFinish fire_sort_finish_def split: sorter.splits)
next
  case (EvTimer k now)
  obtain p t where p: "timers (sp s) ! k = (p, t)" by (cases "timers (sp s) ! k")
  have "mimics (closed_push s ev) reopen
      (timer_fire now ((sp s)\<lparr>timers := drop_nth k (timers (sp s))\<rparr>) p)
      (timer_fire now ((reopen (sp s))\<lparr>timers := drop_nth k (timers (sp s))\<rparr>) p)"
    using mimics_mono [OF mimics_timer_fire [of "(sp s)\<lparr>timers := drop_nth k (timers (sp s))\<rparr>"]] p EvTimer
    by simp
  from mimics_bind [OF this, where g = reopen_sys] p EvTimer show ?thesis
    by (simp add: fire_timer_def)
next
  case (EvDecide p)
  then show ?thesis
    by (auto simp: fire_decide_def split: waiter.split
        intro!: mimics_bind [OF mimics_try_enqueue_unordered])
next
  case (EvSend i now)
  then show ?thesis
    by (auto simp: fire_send_def split: sender.split intro!: mimics_bind [OF mimics_send_txn])
next
  case (EvReply k now r e)
  have "mimics P reopen (send_reply now ((sp s)\<lparr>sends := x\<rparr>) q r e)
      (send_reply now ((reopen (sp s))\<lparr>sends := x\<rparr>) q r e)" for P x q
    using mimics_respond [of P "(sp s)\<lparr>sends := x\<rparr>"] by (simp add: send_reply_def)
  from mimics_bind [OF this, where g = reopen_sys] EvReply show ?thesis
    by (simp add: fire_reply_def)
next
  case (EvBody p now later)
  then show ?thesis
    by (auto simp: fire_body_def split: waiter.split intro!: mimics_bind [OF mimics_eval_body])
next
  case (EvSortLock i now)
  then show ?thesis
    by (auto simp: fire_sort_lock_def sort_decide_reopen split: sorter.split prod.split
        intro!: mimics_same)
next
  case (EvLock p)
  then show ?thesis
    by (auto simp: fire_lock_def split: waiter.split intro!: mimics_same)
next
  case (EvBreaker p)
  then show ?thesis
    by (auto simp: fire_breaker_def split: waiter.split intro!: mimics_same)
next
  case (EvClassify p)
  then show ?thesis
    by (auto simp: fire_classify_def Let_def split: waiter.split verdict.split intro!: mimics_same)
next
  case (EvSortTake i)
  then show ?thesis by (simp add: mimics_fire_sort_take)
next
  case (EvSendTake i)
  then show ?thesis by (simp add: mimics_fire_send_take)
next
  case (EvSubmit p req)
  then show ?thesis by (simp add: fire_submit_def)
next
  case (EvRecv p)
  then show ?thesis by (simp add: fire_recv_def split: waiter.split list.split)
next
  case (EvUnlock p)
  then show ?thesis by (simp add: fire_unlock_def split: waiter.split)
next
  case (EvClear p)
  then show ?thesis by (simp add: fire_clear_def split: waiter.split)
qed

section \<open>What the steps keep of closed queues\<close>

text \<open>A closed queue stays closed, and once it is empty it stays empty.\<close>

definition queue_kept :: "'a txnq \<Rightarrow> 'a txnq \<Rightarrow> bool" where
  "queue_kept tq tq' \<longleftrightarrow> closed tq' = closed tq \<and> (closed tq \<and> buffer tq = [] \<longrightarrow> buffer tq' = [])"

definition queues_kept :: "proc \<Rightarrow> proc \<Rightarrow> bool" where
  "queues_kept tp tp' \<longleftrightarrow>
     keys tp' = keys tp \<and> list_all2 queue_kept (unordered tp) (unordered tp') \<and>
     list_all2 queue_kept (ordered tp) (ordered tp')"

lemma queue_kept_refl [simp]: "queue_kept tq tq"
  by (simp add: queue_kept_def)

lemma all_kept_refl [simp]: "list_all2 queue_kept tqs tqs"
  by (simp add: list_all2_refl)

lemma all_kept_update: "queue_kept (tqs ! i) tq \<Longrightarrow> list_all2 queue_kept tqs (tqs[i := tq])"
  by (metis list_all2_update_cong list_update_id all_kept_refl)

lemma queues_kept_same:
  "keys tp' = keys tp \<Longrightarrow> unordered tp' = unordered tp \<Longrightarrow> ordered tp' = ordered tp \<Longrightarrow>
     queues_kept tp tp'"
  by (simp add: queues_kept_def)

lemma queues_kept_refl [simp]: "queues_kept tp tp"
  by (simp add: queues_kept_def)

lemma queues_kept_cong:
  "queues_kept tp tp' \<Longrightarrow> keys tq = keys tp \<Longrightarrow> unordered tq = unordered tp \<Longrightarrow> ordered tq = ordered tp \<Longrightarrow>
     keys tq' = keys tp' \<Longrightarrow> unordered tq' = unordered tp' \<Longrightarrow> ordered tq' = ordered tp' \<Longrightarrow>
     queues_kept tq tq'"
  by (simp add: queues_kept_def)

lemma respond_kept: "respond tp p r = Ret tp' \<Longrightarrow> queues_kept tp tp'"
  by (auto simp: respond_def queues_kept_same split: if_splits)

lemma enqueue_ordered_kept: "enqueue_ordered tp p = Ret tp' \<Longrightarrow> queues_kept tp tp'"
  by (auto simp: enqueue_ordered_def Let_def bind_outcome_Ret_iff Enqueue_Ret_iff queues_kept_def
      slice_get_def queue_kept_def intro!: all_kept_update split: if_splits)

lemma enqueue_unordered_kept: "enqueue_unordered tp p = Ret tp' \<Longrightarrow> queues_kept tp tp'"
  by (auto simp: enqueue_unordered_def Let_def bind_outcome_Ret_iff Enqueue_Ret_iff queues_kept_def
      slice_get_def queue_kept_def intro!: all_kept_update split: if_splits)

lemma try_enqueue_kept: "try_enqueue_unordered tp p = Ret (ok, tp') \<Longrightarrow> queues_kept tp tp'"
  by (auto simp: try_enqueue_unordered_def Let_def bind_outcome_Ret_iff TryEnqueue_def queues_kept_def
      slice_get_def queue_kept_def intro!: all_kept_update split: if_splits)

lemma sort_finish_kept: "sort_finish api now later act tp p = Ret tp' \<Longrightarrow> queues_kept tp tp'"
  by (cases act)
     (auto simp: sort_finish_def RespondWithStatus_def sort_defer_def queues_kept_same
       dest: respond_kept enqueue_ordered_kept)

lemma timer_fire_kept: "timer_fire now tp p = Ret tp' \<Longrightarrow> queues_kept tp tp'"
  by (auto simp: timer_fire_def bind_outcome_Ret_iff RespondWithStatus_def try_enqueue_unordered_def
      Let_def TryEnqueue_def respond_def queues_kept_def slice_get_def queue_kept_def
      intro!: all_kept_update split: if_splits)

lemma send_txn_kept: "send_txn api now tp p = Ret tp' \<Longrightarrow> queues_kept tp tp'"
proof (cases "slice_get (keys tp) (idx tp p)")
  case (Ret key)
  obtain res c where "nextNearNonce api now (nearNonceCache tp) key = (res, c)"
    by (cases "nextNearNonce api now (nearNonceCache tp) key")
  then show "send_txn api now tp p = Ret tp' \<Longrightarrow> queues_kept tp tp'"
    using Ret
    by (cases res) (auto simp: send_txn_def Let_def bind_outcome_Ret_iff RespondWithStatus_def
        respond_def queues_kept_same split: if_splits)
qed (auto simp: send_txn_def Let_def bind_outcome_Ret_iff RespondWithStatus_def respond_def
      queues_kept_same split: if_splits)

lemma eval_body_kept:
  assumes "eval_body api now later tp p r = Ret (re, r', tp')"
  shows "queues_kept tp tp'"
proof -
  let ?act = "statusActions (status r)"
  obtain tp1 where m: "(if updateNearCache ?act then
        bind_outcome (slice_get (keys tp) (idx tp p)) (\<lambda>key.
          Ret (tp\<lparr>nearNonceCache := snd (updateNearNonceCache api now later (nearNonceCache tp) key)\<rparr>))
      else Ret tp) = Ret tp1"
    and b: "(if updateEthCache ?act then eval_eth api now later tp1 p r else eval_tail ?act r tp1) =
      Ret (re, r', tp')"
    using assms unfolding eval_body_def Let_def bind_outcome_Ret_iff by blast
  from m have 1: "keys tp1 = keys tp \<and> unordered tp1 = unordered tp \<and> ordered tp1 = ordered tp"
    by (auto simp: bind_outcome_Ret_iff split: if_splits)
  from b have "keys tp' = keys tp1 \<and> unordered tp' = unordered tp1 \<and> ordered tp' = ordered tp1"
    by (auto simp: same_queues_def eval_tail_def dest: eval_eth_same_queues split: if_splits)
  with 1 show ?thesis by (simp add: queues_kept_same)
qed

text \<open>The worker of a closed and empty queue stays idle.\<close>

definition drained :: "'a txnq list \<Rightarrow> nat \<Rightarrow> bool" where
  "drained tqs i \<longleftrightarrow> i < length tqs \<and> closed (tqs ! i) \<and> buffer (tqs ! i) = []"

definition workers_kept :: "tsys \<Rightarrow> tsys \<Rightarrow> bool" where
  "workers_kept s t \<longleftrightarrow>
     queues_kept (sp s) (sp t) \<and>
     (\<forall>i. drained (unordered (sp s)) i \<and> sorters s ! i = SIdle \<longrightarrow> sorters t ! i = SIdle) \<and>
     (\<forall>i. drained (ordered (sp s)) i \<and> senders s ! i = NIdle \<longrightarrow> senders t ! i = NIdle)"

lemma workers_kept_procs:
  "queues_kept (sp s) (sp t) \<Longrightarrow> sorters t = sorters s \<Longrightarrow> senders t = senders s \<Longrightarrow> workers_kept s t"
  by (simp add: workers_kept_def)

lemma take_kept: "receive (tqs ! i) = Ret (Some p, tq) \<Longrightarrow> list_all2 queue_kept tqs (tqs[i := tq])"
  by (auto simp: receive_Some_iff queue_kept_def intro!: all_kept_update)

lemma take_not_drained: "receive (tqs ! i) = Ret (Some p, tq) \<Longrightarrow> \<not> drained tqs i"
  by (auto simp: receive_Some_iff drained_def)

lemma fire_sort_take_kept:
  assumes "fire_sort_take i s = Ret t"
  shows "workers_kept s t"
proof -
  obtain p tq where r: "receive (unordered (sp s) ! i) = Ret (Some p, tq)" "sp t = (sp s)\<lparr>unordered := (unordered (sp s))[i := tq]\<rparr>"
      "sorters t = (sorters s)[i := STaken p]" "senders t = senders s"
    using assms
    by (auto simp: fire_sort_take_def bind_outcome_Ret_iff slice_get_def split: if_splits option.splits)
  with take_kept [OF r(1)] take_not_drained [OF r(1)] show ?thesis
    by (auto simp: workers_kept_def queues_kept_def) (metis nth_list_update_neq)
qed

lemma fire_send_take_kept:
  assumes "fire_send_take i s = Ret t"
  shows "workers_kept s t"
proof -
  obtain p tq where r: "receive (ordered (sp s) ! i) = Ret (Some p, tq)" "sp t = (sp s)\<lparr>ordered := (ordered (sp s))[i := tq]\<rparr>"
      "sorters t = sorters s" "senders t = (senders s)[i := NTaken p]"
    using assms
    by (auto simp: fire_send_take_def bind_outcome_Ret_iff slice_get_def split: if_splits option.splits)
  with take_kept [OF r(1)] take_not_drained [OF r(1)] show ?thesis
    by (auto simp: workers_kept_def queues_kept_def) (metis nth_list_update_neq)
qed

lemma fire_kept:
  assumes "fire api ev s = Ret t"
  shows "workers_kept s t"
proof (cases ev)
  case (EvSortTake i)
  with assms show ?thesis by (simp add: fire_sort_take_kept)
next
  case (EvSendTake i)
  with assms show ?thesis by (simp add: fire_send_take_kept)
next
  case (EvSortLock i now)
  with assms show ?thesis
    by (auto simp: fire_sort_lock_def workers_kept_def bind_outcome_Ret_iff nth_list_update
        queues_kept_def set_mutex_def split: if_splits sorter.splits prod.splits)
      (metis all_kept_refl snd_conv sort_decide_frame)+
next
  case (EvSortFinish i now later)
  with assms show ?thesis
    by (auto simp: fire_sort_finish_def workers_kept_def bind_outcome_Ret_iff nth_list_update
        set_mutex_def split: if_splits sorter.splits elim: queues_kept_cong dest!: sort_finish_kept)
next
  case (EvSend i now)
  with assms show ?thesis
    by (auto simp: fire_send_def workers_kept_def bind_outcome_Ret_iff nth_list_update
        split: if_splits sender.splits dest!: send_txn_kept)
next
  case (EvPush p)
  with assms show ?thesis
    by (auto simp: fire_push_def bind_outcome_Ret_iff split: if_splits
        intro!: workers_kept_procs dest!: enqueue_unordered_kept)
next
  case (EvTimer k now)
  with assms show ?thesis
    by (auto simp: fire_timer_def bind_outcome_Ret_iff split: if_splits prod.splits
        intro!: workers_kept_procs elim: queues_kept_cong dest!: timer_fire_kept)
next
  case (EvReply k now r e)
  with assms show ?thesis
    by (auto simp: fire_reply_def send_reply_def bind_outcome_Ret_iff split: if_splits
        intro!: workers_kept_procs elim: queues_kept_cong dest!: respond_kept)
next
  case (EvBody p now later)
  with assms show ?thesis
    by (auto simp: fire_body_def bind_outcome_Ret_iff set_waiter_def split: waiter.splits
        intro!: workers_kept_procs dest!: eval_body_kept)
next
  case (EvDecide p)
  with assms show ?thesis
    by (auto simp: fire_decide_def bind_outcome_Ret_iff set_waiter_def split: waiter.splits if_splits
        intro!: workers_kept_procs dest!: try_enqueue_kept)
next
  case (EvSubmit p req)
  with assms show ?thesis
    by (auto simp: fire_submit_def set_waiter_def split: if_splits
        intro!: workers_kept_procs queues_kept_same)
next
  case (EvRecv p)
  with assms show ?thesis
    by (auto simp: fire_recv_def set_waiter_def split: waiter.splits list.splits
        intro!: workers_kept_procs queues_kept_same)
next
  case (EvClassify p)
  show ?thesis
  proof (cases "waiter_of s p")
    case (WEval r)
    with assms EvClassify show ?thesis
      by (cases "classify (retransmit (reqs (sp s) p)) r")
         (auto simp: fire_classify_def set_waiter_def set_retransmit_def Let_def
           split: verdict.splits intro!: workers_kept_procs queues_kept_same)
  qed (use assms EvClassify in \<open>simp_all add: fire_classify_def\<close>)
next
  case (EvLock p)
  with assms show ?thesis
    by (auto simp: fire_lock_def bind_outcome_Ret_iff set_waiter_def set_mutex_def
        split: waiter.splits if_splits intro!: workers_kept_procs queues_kept_same)
next
  case (EvBreaker p)
  with assms show ?thesis
    by (auto simp: fire_breaker_def bind_outcome_Ret_iff set_waiter_def set_breaker_def
        split: waiter.splits intro!: workers_kept_procs queues_kept_same)
next
  case (EvUnlock p)
  with assms show ?thesis
    by (auto simp: fire_unlock_def set_waiter_def set_mutex_def split: waiter.splits
        intro!: workers_kept_procs queues_kept_same)
next
  case (EvClear p)
  with assms show ?thesis
    by (auto simp: fire_clear_def set_waiter_def set_breaker_def split: waiter.splits
        intro!: workers_kept_procs queues_kept_same)
qed

section \<open>What holds while Close runs\<close>

definition closing_inv :: "csys \<Rightarrow> bool" where
  "closing_inv c \<longleftrightarrow>
     (let s = running c; n = length (keys (sp s)); k = nclosed c
      in tok (reopen_sys s) \<and> k \<le> 2 * n \<and>
         (\<forall>i < n. (closed (unordered (sp s) ! i) \<longleftrightarrow> i < k) \<and> (closed (ordered (sp s) ! i) \<longleftrightarrow> n + i < k)) \<and>
         (\<forall>j. j + 1 < k \<longrightarrow> worker_ended s j))"

lemma tok_reopen_lengths:
  assumes "tok (reopen_sys s)"
  shows "length (unordered (sp s)) = length (keys (sp s))" "length (ordered (sp s)) = length (keys (sp s))"
    "length (sorters s) = length (keys (sp s))" "length (senders s) = length (keys (sp s))"
  using good_lengths(3,4) [OF tok_good [OF assms]] tok_lengths [OF assms] by simp_all

lemma fire_reopen:
  "fire api ev s = Ret t \<Longrightarrow> fire api ev (reopen_sys s) = Ret (reopen_sys t)"
  using mimics_fire [of s ev api] by simp

lemma worker_ended_fire:
  assumes f: "fire api ev s = Ret t" and tok: "tok (reopen_sys s)" and j: "j < 2 * length (keys (sp s))"
    and e: "worker_ended s j"
  shows "worker_ended t j"
proof -
  let ?n = "length (keys (sp s))"
  note len = tok_reopen_lengths [OF tok]
  from fire_kept [OF f] have k: "queues_kept (sp s) (sp t)"
    and w: "\<And>i. drained (unordered (sp s)) i \<Longrightarrow> sorters s ! i = SIdle \<Longrightarrow> sorters t ! i = SIdle"
      "\<And>i. drained (ordered (sp s)) i \<Longrightarrow> senders s ! i = NIdle \<Longrightarrow> senders t ! i = NIdle"
    by (auto simp: workers_kept_def)
  from k have keys: "keys (sp t) = keys (sp s)"
    and q: "\<And>i. i < ?n \<Longrightarrow> queue_kept (unordered (sp s) ! i) (unordered (sp t) ! i)"
      "\<And>i. i < ?n \<Longrightarrow> queue_kept (ordered (sp s) ! i) (ordered (sp t) ! i)"
    using len by (auto simp: queues_kept_def list_all2_conv_all_nth)
  show ?thesis
  proof (cases "j < ?n")
    case True
    with e w(1) [of j] q(1) [of j] len keys show ?thesis
      by (simp add: worker_ended_def Let_def drained_def queue_kept_def)
  next
    case False
    with j have "j - ?n < ?n" by simp
    with False e w(2) [of "j - ?n"] q(2) [of "j - ?n"] len keys show ?thesis
      by (simp add: worker_ended_def Let_def drained_def queue_kept_def)
  qed
qed

lemma closing_inv_run:
  assumes inv: "closing_inv c" and f: "fire api ev (running c) = Ret t"
  shows "closing_inv (c\<lparr>running := t\<rparr>)"
proof -
  let ?s = "running c"
  have tok: "tok (reopen_sys ?s)" using inv by (simp add: closing_inv_def Let_def)
  then have "tok (reopen_sys t)" using fire_reopen [OF f] by (blast intro: tok_fire)
  moreover have k: "queues_kept (sp ?s) (sp t)" using fire_kept [OF f] by (simp add: workers_kept_def)
  moreover have "worker_ended t j" if "j + 1 < nclosed c" for j
    using that inv worker_ended_fire [OF f tok, of j] by (simp add: closing_inv_def Let_def)
  ultimately show ?thesis
    using inv tok_reopen_lengths [OF tok]
    by (auto simp: closing_inv_def Let_def queues_kept_def list_all2_conv_all_nth queue_kept_def)
qed

lemma reopen_close_queue:
  "close_queue (tqs ! i) = Ret tq \<Longrightarrow> (map reopen_queue tqs)[i := reopen_queue tq] = map reopen_queue tqs"
  by (auto simp: close_queue_def map_update_same split: if_splits)

lemma closing_inv_close:
  assumes inv: "closing_inv c" and f: "fire_close c = Ret d"
  shows "closing_inv d"
proof -
  let ?s = "running c" and ?k = "nclosed c" let ?tp = "sp ?s" let ?n = "length (keys ?tp)"
  have tok: "tok (reopen_sys ?s)" using inv by (simp add: closing_inv_def Let_def)
  note len = tok_reopen_lengths [OF tok]
  have go: "?k < 2 * ?n" "?k = 0 \<or> worker_ended ?s (?k - 1)"
    using f by (auto simp: fire_close_def Let_def split: if_splits)
  then have ended: "worker_ended ?s j" if "j < ?k" for j
  proof (cases "j + 1 = ?k")
    case True
    then have "?k - 1 = j" by simp
    with True go(2) show ?thesis by auto
  next
    case False
    with that inv show ?thesis by (simp add: closing_inv_def Let_def)
  qed
  show ?thesis
  proof (cases "?k < ?n")
    case True
    with f len obtain tq where tq: "close_queue (unordered ?tp ! ?k) = Ret tq"
        "d = c\<lparr>running := ?s\<lparr>sp := ?tp\<lparr>unordered := (unordered ?tp)[?k := tq]\<rparr>\<rparr>, nclosed := ?k + 1\<rparr>"
      by (auto simp: fire_close_def Let_def bind_outcome_Ret_iff split: if_splits)
    have "reopen_sys (running d) = reopen_sys ?s"
      by (simp add: tq(2) map_update reopen_close_queue [OF tq(1)])
    moreover have "worker_ended (running d) j" if "j < ?k" for j
      using ended [OF that] that True by (simp add: tq(2) worker_ended_def Let_def)
    ultimately show ?thesis
      using inv tq(1) True len
      by (auto simp: closing_inv_def Let_def tq(2) nth_list_update close_queue_def split: if_splits)
  next
    case False
    with f go len obtain tq where tq: "close_queue (ordered ?tp ! (?k - ?n)) = Ret tq"
        "d = c\<lparr>running := ?s\<lparr>sp := ?tp\<lparr>ordered := (ordered ?tp)[?k - ?n := tq]\<rparr>\<rparr>, nclosed := ?k + 1\<rparr>"
      by (auto simp: fire_close_def Let_def bind_outcome_Ret_iff split: if_splits)
    have "reopen_sys (running d) = reopen_sys ?s"
      by (simp add: tq(2) map_update reopen_close_queue [OF tq(1)])
    moreover have "worker_ended (running d) j" if "j < ?k" for j
      using ended [OF that] that False by (auto simp: tq(2) worker_ended_def Let_def)
    moreover have "closed (unordered ?tp ! i) \<longleftrightarrow> i < ?k + 1" if "i < ?n" for i
      using inv that False by (simp add: closing_inv_def Let_def)
    moreover have "closed ((ordered ?tp)[?k - ?n := tq] ! i) \<longleftrightarrow> ?n + i < ?k + 1" if "i < ?n" for i
    proof (cases "i = ?k - ?n")
      case True
      with that tq(1) False len show ?thesis by (auto simp: close_queue_def split: if_splits)
    next
      case False
      with inv that \<open>\<not> ?k < ?n\<close> show ?thesis by (auto simp: closing_inv_def Let_def)
    qed
    ultimately show ?thesis
      using tok go(1) by (simp add: closing_inv_def Let_def tq(2))
  qed
qed

interpretation closing: transition_system
  "\<lambda>c. \<exists>config ks. c = csys_start config ks" "cstep api" closing_inv for api
proof
  fix c assume "\<exists>config ks. c = csys_start config ks"
  then obtain config ks where c: "c = csys_start config ks" by blast
  have "reopen_sys (tsys_start config ks) = tsys_start config ks"
    by (simp add: reopen_sys_def reopen_def tsys_start_def)
       (simp add: NewTxnProcessor_def fold_add_key_state reopen_queue_def NewTxnQ_def)
  then show "closing_inv c"
    using tok_start [of config ks]
    by (simp add: c csys_start_def closing_inv_def) (simp add: tsys_start_def NewTxnQ_def)
next
  fix c d :: csys
  assume "closing_inv c" "cstep api c d"
  then obtain ev where ev: "cfire api ev c = Ret d" by (auto simp: cstep_def)
  show "closing_inv d"
  proof (cases ev)
    case (Run e)
    with ev closing_inv_run [OF \<open>closing_inv c\<close>] show ?thesis by (auto simp: bind_outcome_Ret_iff)
  next
    case CloseNext
    with ev closing_inv_close [OF \<open>closing_inv c\<close>] show ?thesis by simp
  qed
qed

lemma closing_reachable:
  "(cstep api)\<^sup>*\<^sup>* (csys_start config ks) c \<Longrightarrow> closing_inv c"
  by (rule closing.reachable_inv) blast

lemma ordered_closed_after_sorters:
  assumes inv: "closing_inv c" and i: "i < length (keys (sp (running c)))"
    and o: "closed (ordered (sp (running c)) ! i)" and j: "j < length (keys (sp (running c)))"
  shows "sorters (running c) ! j = SIdle"
proof -
  have "length (keys (sp (running c))) + i < nclosed c"
    using inv i o by (simp add: closing_inv_def Let_def)
  then have "worker_ended (running c) j"
    using inv j by (simp add: closing_inv_def Let_def)
  with j show ?thesis by (simp add: worker_ended_def)
qed

lemma fire_close_no_panic:
  assumes "closing_inv c"
  shows "fire_close c \<noteq> Panic k"
proof -
  let ?s = "running c" and ?k = "nclosed c" let ?n = "length (keys (sp ?s))"
  have tok: "tok (reopen_sys ?s)" using assms by (simp add: closing_inv_def Let_def)
  have "\<not> closed (unordered (sp ?s) ! ?k)" if "?k < ?n"
    using assms that by (simp add: closing_inv_def Let_def)
  moreover have "\<not> closed (ordered (sp ?s) ! (?k - ?n))" if "\<not> ?k < ?n" "?k < 2 * ?n"
  proof -
    have "?k - ?n < ?n" "\<not> ?n + (?k - ?n) < ?k" using that by simp_all
    with assms show ?thesis unfolding closing_inv_def Let_def by blast
  qed
  ultimately show ?thesis
    using tok_reopen_lengths [OF tok] by (auto simp: fire_close_def Let_def close_queue_def)
qed

lemma fire_panics_closing:
  assumes inv: "closing_inv c" and f: "fire api ev (running c) = Panic k"
  shows "(\<exists>p r. ev = EvClassify p \<and> waiter_of (running c) p = WEval r \<and>
      classify (retransmit (reqs (sp (running c)) p)) r = Panic k) \<or>
    k = SendOnClosed \<and> (\<exists>p. (ev = EvPush p \<or> ev = EvDecide p \<or>
        (\<exists>j now t. ev = EvTimer j now \<and> timers (sp (running c)) ! j = (p, t))) \<and>
      closed_at (unordered (sp (running c))) (idx (sp (running c)) p))"
proof -
  let ?s = "running c"
  have tok: "tok (reopen_sys ?s)" using inv by (simp add: closing_inv_def Let_def)
  note len = tok_reopen_lengths [OF tok]
  have m: "fire api ev (reopen_sys ?s) = Panic k \<or> k = SendOnClosed \<and> closed_push ?s ev"
    using mimics_fire [of ?s ev api] f by simp
  then show ?thesis
  proof
    assume "fire api ev (reopen_sys ?s) = Panic k"
    from fire_panics [OF tok this] show ?thesis by simp
  next
    assume p: "k = SendOnClosed \<and> closed_push ?s ev"
    have "\<nexists>i now later. ev = EvSortFinish i now later"
    proof
      assume "\<exists>i now later. ev = EvSortFinish i now later"
      then obtain i now later p where "i < length (sorters ?s)" "sorters ?s ! i = SHolding SortForward p"
          "closed_at (ordered (sp ?s)) (idx (sp ?s) p)"
        using p by auto
      with ordered_closed_after_sorters [OF inv, of "idx (sp ?s) p" i] len inv show False by simp
    qed
    with p show ?thesis by (cases ev) auto
  qed
qed

section \<open>What Close promises\<close>

text \<open>Runs with one key: a \<open>Submit\<close> before its push when \<open>Close\<close> begins; a whole \<open>Close\<close>.\<close>

lemma submit_beside_Close:
  "\<exists>c. (cstep demo_api)\<^sup>*\<^sup>* (csys_start one_key_config [''k0'']) c \<and>
     cfire demo_api (Run (EvPush 1)) c = Panic SendOnClosed"
proof -
  obtain R where R: "one_key_start = quiet Map.empty Map.empty R False False (\<lambda>_. WNone)"
    using one_key_start_quiet by blast
  let ?s = "quiet Map.empty Map.empty (R(1 := demo_req [])) False False ((\<lambda>_. WNone)(1 := WWait))
    \<lparr>submitting := [1]\<rparr>"
  let ?t = "?s\<lparr>sp := (sp ?s)\<lparr>unordered := [(NewTxnQ qCap)\<lparr>closed := True\<rparr>]\<rparr>\<rparr>"
  have "cfire demo_api (Run (EvSubmit 1 (demo_req []))) (csys_start one_key_config [''k0'']) =
      Ret \<lparr>running = ?s, nclosed = 0\<rparr>"
    by (simp add: csys_start_def R quiet_def fire_submit_def demo_req_def set_waiter_def)
  moreover have "cfire demo_api CloseNext \<lparr>running = ?s, nclosed = 0\<rparr> = Ret \<lparr>running = ?t, nclosed = 1\<rparr>"
    by (simp add: fire_close_def quiet_def close_queue_def NewTxnQ_def)
  ultimately have "(cstep demo_api)\<^sup>*\<^sup>* (csys_start one_key_config [''k0'']) \<lparr>running = ?t, nclosed = 1\<rparr>"
    by (meson cstep_def r_into_rtranclp rtranclp_trans)
  moreover have "cfire demo_api (Run (EvPush 1)) \<lparr>running = ?t, nclosed = 1\<rparr> = Panic SendOnClosed"
    by (simp add: fire_push_def quiet_def enqueue_unordered_def demo_req_def Enqueue_def Let_def)
  ultimately show ?thesis by blast
qed

lemma whole_Close:
  "\<exists>c. (cstep demo_api)\<^sup>*\<^sup>* (csys_start one_key_config [''k0'']) c \<and> close_returned c \<and>
     keys (sp (running c)) = [''k0'']"
proof -
  obtain R where R: "one_key_start = quiet Map.empty Map.empty R False False (\<lambda>_. WNone)"
    using one_key_start_quiet by blast
  let ?q = "[(NewTxnQ qCap)\<lparr>closed := True\<rparr>] :: ptr txnq list"
  let ?s = "quiet Map.empty Map.empty R False False (\<lambda>_. WNone)"
  let ?t = "?s\<lparr>sp := (sp ?s)\<lparr>unordered := ?q\<rparr>\<rparr>"
  let ?u = "?t\<lparr>sp := (sp ?t)\<lparr>ordered := ?q\<rparr>\<rparr>"
  have "cfire demo_api CloseNext (csys_start one_key_config [''k0'']) = Ret \<lparr>running = ?t, nclosed = 1\<rparr>"
    by (simp add: csys_start_def R fire_close_def quiet_def close_queue_def NewTxnQ_def)
  moreover have "cfire demo_api CloseNext \<lparr>running = ?t, nclosed = 1\<rparr> = Ret \<lparr>running = ?u, nclosed = 2\<rparr>"
    by (simp add: fire_close_def quiet_def close_queue_def NewTxnQ_def worker_ended_def)
  ultimately have "(cstep demo_api)\<^sup>*\<^sup>* (csys_start one_key_config [''k0'']) \<lparr>running = ?u, nclosed = 2\<rparr>"
    by (meson cstep_def r_into_rtranclp rtranclp_trans)
  moreover have "close_returned \<lparr>running = ?u, nclosed = 2\<rparr>"
    by (simp add: close_returned_def quiet_def NewTxnQ_def worker_ended_def)
  ultimately show ?thesis by (intro exI conjI) (assumption, simp_all add: quiet_def)
qed

text \<open>
  C8. In every interleaving with at most one \<open>Close\<close>, workers counted, the processor crashes in two
  ways only: by classifying a response that makes it panic, or, once \<open>Close\<close> has begun, by a push
  into a closed unordered queue, from \<open>Submit\<close>, from the timer of a deferred request or from the
  retry of a failed one, which panics with a send on a closed channel.  In particular before
  \<open>Close\<close> only the reading of a response can crash; no index is out of range, no cache entry is
  missing, no queue is closed twice; and a sort worker never pushes into a closed ordered queue,
  because \<open>Close\<close> closes those after the sort workers have ended.
\<close>

theorem processor_panics:
  assumes "(cstep api)\<^sup>*\<^sup>* (csys_start config ks) c" "cfire api ev c = Panic k"
  shows "(\<exists>p r. ev = Run (EvClassify p) \<and> waiter_of (running c) p = WEval r \<and>
      classify (retransmit (reqs (sp (running c)) p)) r = Panic k) \<or>
    k = SendOnClosed \<and> 0 < nclosed c \<and>
    (\<exists>p. (ev = Run (EvPush p) \<or> ev = Run (EvDecide p) \<or>
        (\<exists>j now t. ev = Run (EvTimer j now) \<and> timers (sp (running c)) ! j = (p, t))) \<and>
      closed_at (unordered (sp (running c))) (idx (sp (running c)) p))"
proof -
  have inv: "closing_inv c" by (rule closing_reachable [OF assms(1)])
  then have tok: "tok (reopen_sys (running c))" by (simp add: closing_inv_def Let_def)
  obtain e where e: "ev = Run e" "fire api e (running c) = Panic k"
    using assms(2) fire_close_no_panic [OF inv]
    by (cases ev) (auto simp: bind_outcome_Panic_iff)
  have "0 < nclosed c" if "closed_at (unordered (sp (running c))) i" for i
  proof -
    have "i < nclosed c" using inv that tok_reopen_lengths [OF tok] by (auto simp: closing_inv_def Let_def)
    then show ?thesis by simp
  qed
  with fire_panics_closing [OF inv e(2)] show ?thesis unfolding e(1) by blast
qed

theorem processor_panics_witness:
  "\<exists>c. cfire demo_api (Run (EvPush 1)) c = Panic SendOnClosed \<and> 0 < nclosed c \<and>
     closed (unordered (sp (running c)) ! idx (sp (running c)) 1)"
proof -
  obtain c where c: "(cstep demo_api)\<^sup>*\<^sup>* (csys_start one_key_config [''k0'']) c"
      "cfire demo_api (Run (EvPush 1)) c = Panic SendOnClosed"
    using submit_beside_Close by blast
  from processor_panics [OF c] c(2) show ?thesis by auto
qed

lemma held_none: "(\<And>x. x \<in> set xs \<Longrightarrow> f x = []) \<Longrightarrow> held f xs p = 0"
  by (induction xs) (simp_all add: held_def)

lemma queued_reopen: "queued (map reopen_queue tqs) p = queued tqs p"
  by (simp add: held_def comp_def)

text \<open>
  C6. When \<open>Close\<close> has returned, workers counted, every queue is closed and empty and every worker
  is idle: what the queues held was handed on before.  A request that still waits for its response
  is at the timer of a deferred request, at a call to NEAR, in its response channel, or in a
  \<open>Submit\<close> that has not pushed it yet.
\<close>

theorem Close_drains_the_queues:
  assumes "(cstep api)\<^sup>*\<^sup>* (csys_start config ks) c" "close_returned c"
  shows "let s = running c; tp = sp s in
    (\<forall>i < length (keys tp).
       closed (unordered tp ! i) \<and> closed (ordered tp ! i) \<and>
       buffer (unordered tp ! i) = [] \<and> buffer (ordered tp ! i) = [] \<and>
       sorters s ! i = SIdle \<and> senders s ! i = NIdle) \<and>
    (\<forall>p. waiter_of s p = WWait \<longrightarrow>
       p \<in> fst ` set (timers tp) \<or> p \<in> fst ` set (sends tp) \<or> respChan tp p \<noteq> [] \<or>
       p \<in> set (submitting s))"
proof -
  let ?s = "running c" let ?tp = "sp ?s" let ?n = "length (keys ?tp)"
  have inv: "closing_inv c" by (rule closing_reachable [OF assms(1)])
  then have tok: "tok (reopen_sys ?s)" by (simp add: closing_inv_def Let_def)
  note len = tok_reopen_lengths [OF tok]
  have ended: "worker_ended ?s j" if "j < 2 * ?n" for j
  proof (cases "j + 1 < nclosed c")
    case True
    with inv show ?thesis by (simp add: closing_inv_def Let_def)
  next
    case False
    with that assms(2) have "j = 2 * ?n - 1" "0 < ?n" by (auto simp: close_returned_def Let_def)
    with assms(2) show ?thesis by (simp add: close_returned_def Let_def)
  qed
  have rest: "closed (unordered ?tp ! i) \<and> closed (ordered ?tp ! i) \<and>
      buffer (unordered ?tp ! i) = [] \<and> buffer (ordered ?tp ! i) = [] \<and>
      sorters ?s ! i = SIdle \<and> senders ?s ! i = NIdle" if "i < ?n" for i
    using ended [of i] ended [of "?n + i"] that by (simp add: worker_ended_def)
  have empty: "queued (unordered ?tp) p = 0" "queued (ordered ?tp) p = 0"
      "held sorter_hand (sorters ?s) p = 0" "held sender_hand (senders ?s) p = 0" for p
    using rest len by (auto intro!: held_none simp: in_set_conv_nth)
  have "p \<in> fst ` set (timers ?tp) \<or> p \<in> fst ` set (sends ?tp) \<or> respChan ?tp p \<noteq> [] \<or>
      p \<in> set (submitting ?s)" if "waiter_of ?s p = WWait" for p
  proof (rule ccontr)
    assume "\<not> ?thesis"
    then have "places (reopen_sys ?s) p = 0"
      using empty [of p] by (simp add: places_def load_def queued_reopen count_list_0_iff)
    with waiter_places [OF tok, of p] that show False by simp
  qed
  with rest show ?thesis by (simp add: Let_def)
qed

theorem Close_drains_the_queues_witness:
  "\<exists>c. close_returned c \<and> closed (ordered (sp (running c)) ! 0) \<and> senders (running c) ! 0 = NIdle"
proof -
  obtain c where c: "(cstep demo_api)\<^sup>*\<^sup>* (csys_start one_key_config [''k0'']) c" "close_returned c"
      "keys (sp (running c)) = [''k0'']"
    using whole_Close by blast
  from Close_drains_the_queues [OF c(1,2)] c(2,3) show ?thesis by (auto simp: Let_def)
qed

end
