(* ===== verification/GoPath.thy ===== *)
theory GoPath
  imports Prelude
begin

text \<open>
  The part of Go's \<open>path/filepath\<close> (on Unix) the sources use: \<open>Clean\<close>, \<open>Join\<close>, \<open>Split\<close>,
  \<open>Dir\<close> and \<open>Base\<close>.
  \<open>Clean\<close> is given by its documented rules on the slash-separated components: empty and \<open>.\<close>
  components go, \<open>..\<close> removes the component before it, and at the root it goes too.
\<close>

section \<open>Components\<close>

fun split_path :: "string \<Rightarrow> string list" where
  "split_path [] = [[]]"
| "split_path (c # cs) =
     (if c = CHR ''/'' then [] # split_path cs
      else case split_path cs of [] \<Rightarrow> [[c]] | w # ws \<Rightarrow> (c # w) # ws)"

fun join_slash :: "string list \<Rightarrow> string" where
  "join_slash [] = []"
| "join_slash [w] = w"
| "join_slash (w # ws) = w @ ''/'' @ join_slash ws"

text \<open>The components kept so far are a stack, the last one on top.\<close>

definition clean_push :: "bool \<Rightarrow> string \<Rightarrow> string list \<Rightarrow> string list" where
  "clean_push rooted w stack =
     (if w = [] \<or> w = ''.'' then stack
      else if w = ''..'' then
        (case stack of
           [] \<Rightarrow> if rooted then [] else [''..'']
         | t # below \<Rightarrow> if t = ''..'' then ''..'' # stack else below)
      else w # stack)"

text \<open>
  A path names a place: whether it starts at the root, and the stack of its components.  Two
  paths of one place differ in their spelling only; \<open>Clean\<close> is the spelling \<open>render\<close> gives.
\<close>

type_synonym place = "bool \<times> string list"

definition rooted :: "string \<Rightarrow> bool" where
  "rooted p = (case p of c # cs \<Rightarrow> c = CHR ''/'' | [] \<Rightarrow> False)"

definition place_of :: "string \<Rightarrow> place" where
  "place_of p = (rooted p, fold (clean_push (rooted p)) (split_path p) [])"

definition render :: "place \<Rightarrow> string" where
  "render k = (if fst k then ''/'' else []) @ join_slash (rev (snd k))"

definition Clean :: "string \<Rightarrow> string" where
  "Clean p = (let x = render (place_of p) in if x = [] then ''.'' else x)"

fun Join :: "string list \<Rightarrow> string" where
  "Join [] = []"
| "Join (e # es) = (if e = [] then Join es else Clean (join_slash (e # es)))"

text \<open>\<open>Split\<close> cuts after the last slash; \<open>Dir\<close> is what is before the cut, cleaned.\<close>

definition last_name :: "string \<Rightarrow> string" where
  "last_name p = rev (takeWhile (\<lambda>c. c \<noteq> CHR ''/'') (rev p))"

definition Split :: "string \<Rightarrow> string \<times> string" where
  "Split p = (take (length p - length (last_name p)) p, last_name p)"

definition Dir :: "string \<Rightarrow> string" where
  "Dir p = Clean (fst (Split p))"

definition Base :: "string \<Rightarrow> string" where
  "Base p =
     (if p = [] then ''.''
      else
        (let q = rev (dropWhile (\<lambda>c. c = CHR ''/'') (rev p))
         in if q = [] then ''/'' else last (split_path q)))"

section \<open>Joining a plain name\<close>

text \<open>A name that is one component of its own.\<close>

definition plain_name :: "string \<Rightarrow> bool" where
  "plain_name w \<longleftrightarrow> w \<noteq> [] \<and> w \<noteq> ''.'' \<and> w \<noteq> ''..'' \<and> CHR ''/'' \<notin> set w"

lemma split_path_nonempty [simp]: "split_path p \<noteq> []"
  by (induction p) (auto split: list.splits)

lemma split_path_plain: "CHR ''/'' \<notin> set w \<Longrightarrow> split_path w = [w]"
  by (induction w) auto

lemma split_path_append: "split_path (p @ CHR ''/'' # q) = split_path p @ split_path q"
  by (induction p) (auto split: list.split)

lemma last_split_path: "CHR ''/'' \<notin> set w \<Longrightarrow> last (split_path (p @ CHR ''/'' # w)) = w"
  by (simp add: split_path_append split_path_plain)

lemma join_slash_snoc: "ws \<noteq> [] \<Longrightarrow> join_slash (ws @ [w]) = join_slash ws @ CHR ''/'' # w"
  by (induction ws rule: join_slash.induct) auto

lemma clean_push_plain: "plain_name w \<Longrightarrow> clean_push r w stack = w # stack"
  by (auto simp: clean_push_def plain_name_def)

section \<open>Places\<close>

lemma split_path_no_slash: "w \<in> set (split_path p) \<Longrightarrow> CHR ''/'' \<notin> set w"
  by (induction p arbitrary: w) (auto split: if_splits list.splits)

lemma split_path_chars: "w \<in> set (split_path p) \<Longrightarrow> set w \<subseteq> set p"
  by (induction p arbitrary: w) (auto split: if_splits list.splits, fastforce)

lemma split_path_join:
  "ws \<noteq> [] \<Longrightarrow> \<forall>w \<in> set ws. CHR ''/'' \<notin> set w \<Longrightarrow> split_path (join_slash ws) = ws"
  by (induction ws rule: join_slash.induct)
     (auto simp: split_path_plain split_path_append)

lemma clean_push_cases:
  "clean_push r w st = st \<or> (\<exists>t. st = t # clean_push r w st) \<or>
   clean_push r w st = w # st \<and> w \<noteq> [] \<and> w \<noteq> ''.''"
  by (auto simp: clean_push_def split: list.splits)

text \<open>A stack the cleaning has nothing left to do on.\<close>

fun clean_stack :: "bool \<Rightarrow> string list \<Rightarrow> bool" where
  "clean_stack r [] = True"
| "clean_stack r (w # st) =
     (clean_push r w st = w # st \<and> CHR ''/'' \<notin> set w \<and> clean_stack r st)"

lemma clean_stack_push:
  assumes "clean_stack r st" "CHR ''/'' \<notin> set w"
  shows "clean_stack r (clean_push r w st)"
  using clean_push_cases [of r w st]
proof (elim disjE exE)
  fix t assume t: "st = t # clean_push r w st"
  have "clean_stack r (t # clean_push r w st)" using assms(1) t by metis
  then show ?thesis by simp
qed (use assms in \<open>simp_all\<close>)

lemma clean_stack_fold:
  "clean_stack r st \<Longrightarrow> \<forall>w \<in> set ws. CHR ''/'' \<notin> set w \<Longrightarrow> clean_stack r (fold (clean_push r) ws st)"
  by (induction ws arbitrary: st) (simp_all add: clean_stack_push)

lemma clean_stack_place: "clean_stack (fst (place_of p)) (snd (place_of p))"
  by (simp add: place_of_def clean_stack_fold split_path_no_slash)

lemma fold_clean_stack: "clean_stack r st \<Longrightarrow> fold (clean_push r) (rev st) [] = st"
  by (induction st) simp_all

lemma clean_stack_parts:
  "clean_stack r st \<Longrightarrow> w \<in> set st \<Longrightarrow> CHR ''/'' \<notin> set w \<and> w \<noteq> [] \<and> w \<noteq> ''.''"
  by (induction st) (auto simp: clean_push_def split: if_splits)

lemma join_slash_start:
  "ws \<noteq> [] \<Longrightarrow> hd ws \<noteq> [] \<Longrightarrow> join_slash ws \<noteq> [] \<and> hd (join_slash ws) = hd (hd ws)"
  by (cases ws rule: join_slash.cases) auto

lemma place_of_render:
  assumes "clean_stack r st"
  shows "place_of (render (r, st)) = (r, st)"
proof (cases "st = []")
  case True
  then show ?thesis by (cases r) (simp_all add: place_of_def render_def rooted_def clean_push_def)
next
  case False
  have parts: "\<forall>w \<in> set st. CHR ''/'' \<notin> set w \<and> w \<noteq> []"
    using clean_stack_parts [OF assms] by blast
  let ?j = "join_slash (rev st)"
  have sp: "split_path ?j = rev st" using False parts by (simp add: split_path_join)
  have l: "last st \<in> set st" using False by simp
  have "hd (rev st) \<noteq> []" using False parts l by (simp add: hd_rev)
  then have j: "?j \<noteq> []" "hd ?j = hd (last st)"
    using join_slash_start [of "rev st"] False by (simp_all add: hd_rev)
  have "hd (last st) \<noteq> CHR ''/''" using parts l hd_in_set by metis
  then have "\<not> rooted ?j" using j by (cases ?j) (auto simp: rooted_def)
  then show ?thesis
    using sp fold_clean_stack [OF assms]
    by (cases r) (simp_all add: place_of_def render_def rooted_def clean_push_def)
qed

lemma place_of_here [simp]: "place_of [] = (False, [])" "place_of ''.'' = (False, [])"
  by (simp_all add: place_of_def rooted_def clean_push_def)

text \<open>Cleaning changes the spelling, not the place.\<close>

lemma place_of_Clean: "place_of (Clean p) = place_of p"
proof -
  have r: "place_of (render (place_of p)) = place_of p"
    using place_of_render [OF clean_stack_place [of p]] by simp
  show ?thesis
  proof (cases "render (place_of p) = []")
    case True
    then have "place_of p = place_of []" using r by simp
    then show ?thesis using True by (simp add: Clean_def)
  qed (use r in \<open>simp add: Clean_def Let_def\<close>)
qed

lemma place_of_append:
  assumes "p \<noteq> []" "plain_name w"
  shows "place_of (p @ CHR ''/'' # w) = (fst (place_of p), w # snd (place_of p))"
proof -
  have "rooted (p @ CHR ''/'' # w) = rooted p" using assms(1) by (cases p) (simp_all add: rooted_def)
  then show ?thesis
    using assms(2)
    by (simp add: place_of_def split_path_append split_path_plain plain_name_def)
       (simp add: clean_push_plain [OF assms(2)])
qed

lemma place_of_plain: "plain_name w \<Longrightarrow> place_of w = (False, [w])"
  by (cases w) (auto simp: place_of_def rooted_def split_path_plain plain_name_def clean_push_def)

lemma render_push_nonempty: "w \<noteq> [] \<Longrightarrow> render (r, w # st) \<noteq> []"
  by (cases "rev st = []") (simp_all add: render_def join_slash_snoc)

text \<open>Joining a plain name pushes it.\<close>

lemma Join_plain_render:
  assumes "plain_name w"
  shows "Join [p, w] = render (fst (place_of p), w # snd (place_of p))"
proof -
  have ne: "render (r, w # st) \<noteq> []" for r st
    using assms render_push_nonempty by (simp add: plain_name_def)
  have w: "w \<noteq> []" using assms by (simp add: plain_name_def)
  show ?thesis
  proof (cases "p = []")
    case True
    then show ?thesis
      using w place_of_plain [OF assms] ne [of False "[]"] by (simp add: Clean_def)
  next
    case False
    then show ?thesis
      using place_of_append [OF False assms] ne by (simp add: Clean_def Let_def)
  qed
qed

lemma place_of_Join:
  assumes "plain_name w"
  shows "place_of (Join [p, w]) = (fst (place_of p), w # snd (place_of p))"
proof -
  have "clean_stack (fst (place_of p)) (w # snd (place_of p))"
    using clean_stack_place [of p] clean_push_plain [OF assms] assms by (simp add: plain_name_def)
  then show ?thesis using Join_plain_render [OF assms] place_of_render by simp
qed

lemma Join_plain:
  assumes "plain_name w"
  shows "\<exists>q. Join [p, w] = q @ w \<and> (q = [] \<or> last q = CHR ''/'')"
proof -
  let ?st = "snd (place_of p)" and ?r = "fst (place_of p)"
  show ?thesis
  proof (cases "?st = []")
    case True
    then show ?thesis
      using Join_plain_render [OF assms, of p]
      by (intro exI [of _ "if ?r then ''/'' else []"]) (simp add: render_def)
  next
    case False
    then show ?thesis
      using Join_plain_render [OF assms, of p]
      by (intro exI [of _ "(if ?r then ''/'' else []) @ join_slash (rev ?st) @ ''/''"])
         (simp add: render_def join_slash_snoc)
  qed
qed

text \<open>The last component of a joined path is the name that was joined.\<close>

lemma Base_Join: assumes "plain_name w" shows "Base (Join [p, w]) = w"
proof -
  obtain q where q: "Join [p, w] = q @ w" "q = [] \<or> last q = CHR ''/''"
    using Join_plain [OF assms] by blast
  have w: "w \<noteq> []" "CHR ''/'' \<notin> set w" using assms by (auto simp: plain_name_def)
  have "last w \<noteq> CHR ''/''" using w by (cases w rule: rev_cases) auto
  then have strip: "rev (dropWhile (\<lambda>c. c = CHR ''/'') (rev (q @ w))) = q @ w"
    using w(1) by (cases w rule: rev_cases) auto
  have "last (split_path (q @ w)) = w"
  proof (cases "q = []")
    case False
    then obtain q' where "q = q' @ [CHR ''/'']"
      using q(2) by (metis append_butlast_last_id)
    then show ?thesis using last_split_path [OF w(2), of q'] by simp
  qed (use w in \<open>simp add: split_path_plain\<close>)
  moreover have "q @ w \<noteq> []" using w(1) by simp
  ultimately show ?thesis unfolding q(1) Base_def Let_def strip by simp
qed

lemma Join_inj: "plain_name v \<Longrightarrow> plain_name w \<Longrightarrow> Join [p, v] = Join [q, w] \<Longrightarrow> v = w"
  by (metis Base_Join)

lemma plain_dec: "plain_name (dec n)"
proof -
  have "CHR ''/'' \<notin> set (dec n)" "CHR ''.'' \<notin> set (dec n)" by (simp_all add: dec_no_char)
  then show ?thesis by (auto simp: plain_name_def)
qed

lemma plain_dec_ext: "CHR ''/'' \<notin> set ext \<Longrightarrow> plain_name (dec n @ CHR ''.'' # c # ext) \<longleftrightarrow> c \<noteq> CHR ''/''"
proof -
  assume "CHR ''/'' \<notin> set ext"
  moreover have "CHR ''/'' \<notin> set (dec n)" by (simp add: dec_no_char)
  moreover have "dec n @ CHR ''.'' # c # ext \<noteq> ''.''" by simp
  moreover have "dec n @ CHR ''.'' # c # ext \<noteq> ''..''"
    using plain_dec [of n] by (cases "dec n") (auto simp: plain_name_def append_eq_Cons_conv)
  ultimately show ?thesis by (auto simp: plain_name_def)
qed

section \<open>Splitting a path\<close>

lemma Split_append:
  assumes "CHR ''/'' \<notin> set w" "q = [] \<or> last q = CHR ''/''"
  shows "Split (q @ w) = (q, w)"
proof -
  have w: "takeWhile (\<lambda>c. c \<noteq> CHR ''/'') (rev w @ v) = rev w @ takeWhile (\<lambda>c. c \<noteq> CHR ''/'') v" for v
    by (rule takeWhile_append2) (use assms(1) in auto)
  have "takeWhile (\<lambda>c. c \<noteq> CHR ''/'') (rev q) = []"
    using assms(2) by (cases q rule: rev_cases) auto
  then have "last_name (q @ w) = w" by (simp add: last_name_def w)
  then show ?thesis by (simp add: Split_def)
qed

lemma last_name_no_slash: "CHR ''/'' \<notin> set (last_name p)"
  by (auto simp: last_name_def dest: set_takeWhileD)

lemma Split_parts: "fst (Split p) @ snd (Split p) = p"
proof -
  have "p = rev (dropWhile (\<lambda>c. c \<noteq> CHR ''/'') (rev p)) @ last_name p"
    unfolding last_name_def rev_append [symmetric] takeWhile_dropWhile_id by simp
  then obtain q where q: "p = q @ last_name p" by blast
  then have "length p = length q + length (last_name p)" by (metis length_append)
  then show ?thesis using q by (simp add: Split_def) (metis append_eq_conv_conj)
qed

lemma Split_dir: "fst (Split p) = [] \<or> last (fst (Split p)) = CHR ''/''"
proof -
  let ?P = "\<lambda>c. c \<noteq> CHR ''/''"
  have "p = rev (dropWhile ?P (rev p)) @ last_name p"
    unfolding last_name_def rev_append [symmetric] takeWhile_dropWhile_id by simp
  moreover have "p = fst (Split p) @ last_name p" using Split_parts [of p] by (simp add: Split_def)
  ultimately have "fst (Split p) = rev (dropWhile ?P (rev p))" by (metis append_same_eq)
  then show ?thesis
    using hd_dropWhile [of ?P "rev p"] by (cases "dropWhile ?P (rev p) = []") (auto simp: last_rev)
qed

text \<open>A joined name splits off again, and what is left names the same directory.\<close>

lemma clean_push_set: "set (clean_push r w st) \<subseteq> insert w (set st)"
  by (auto simp: clean_push_def split: list.splits if_splits)

lemma fold_push_set: "set (fold (clean_push r) ws st) \<subseteq> set ws \<union> set st"
proof (induction ws arbitrary: st)
  case (Cons w ws)
  then show ?case using clean_push_set [of r w st] by (simp add: subset_iff) blast
qed simp

lemma place_chars: "w \<in> set (snd (place_of p)) \<Longrightarrow> set w \<subseteq> set p"
  using fold_push_set [of "rooted p" "split_path p" "[]"] split_path_chars [of w p]
  by (auto simp: place_of_def)

lemma set_join_slash: "set (join_slash ws) \<subseteq> {CHR ''/''} \<union> (\<Union>w \<in> set ws. set w)"
  by (induction ws rule: join_slash.induct) auto

lemma render_chars: "set (render (place_of p)) \<subseteq> {CHR ''/''} \<union> set p"
proof -
  have "(\<Union>w \<in> set (rev (snd (place_of p))). set w) \<subseteq> set p" using place_chars [of _ p] by auto
  then have "set (join_slash (rev (snd (place_of p)))) \<subseteq> {CHR ''/''} \<union> set p"
    using set_join_slash [of "rev (snd (place_of p))"] by blast
  then show ?thesis by (auto simp: render_def)
qed

lemma Split_Join:
  assumes "plain_name w"
  shows "\<exists>q. Split (Join [p, w]) = (q, w) \<and>
    (q = render (place_of p) \<and> snd (place_of p) = [] \<or>
     q = render (place_of p) @ ''/'' \<and> snd (place_of p) \<noteq> [])"
proof -
  obtain r st where k: "place_of p = (r, st)" by fastforce
  have w: "CHR ''/'' \<notin> set w" using assms by (simp add: plain_name_def)
  show ?thesis
  proof (cases "st = []")
    case True
    then have "Join [p, w] = render (r, st) @ w"
      using Join_plain_render [OF assms, of p] k by (simp add: render_def)
    then show ?thesis
      using True k Split_append [OF w, of "render (r, st)"] by (simp add: render_def del: Join.simps)
  next
    case False
    then have "Join [p, w] = (render (r, st) @ ''/'') @ w"
      using Join_plain_render [OF assms, of p] k by (simp add: render_def join_slash_snoc)
    then show ?thesis
      using False k Split_append [OF w, of "render (r, st) @ ''/''"] by (simp del: Join.simps)
  qed
qed

text \<open>The documented examples of \<open>Clean\<close> and \<open>Join\<close>.\<close>

lemma Clean_examples:
  "Clean ''a//c'' = ''a/c''" "Clean ''a/c/.'' = ''a/c''" "Clean ''a/c/b/..'' = ''a/c''"
  "Clean ''/../a/c'' = ''/a/c''" "Clean ''/../a/b/../././/c'' = ''/a/c''" "Clean '''' = ''.''"
  "Clean ''../../a/../..'' = ''../../..''" "Clean ''a/..'' = ''.''"
  "Join [''/tmp/relayer/json/'', ''10''] = ''/tmp/relayer/json/10''" "Join ['''', ''b''] = ''b''"
  by (simp_all add: Clean_def place_of_def rooted_def render_def clean_push_def)

end
