(* ===== verification/Indexer.thy ===== *)
theory Indexer
  imports GoPath
begin

text \<open>
  \<open>indexer/config.go\<close> and \<open>indexer/indexer.go\<close>: the configuration, the construction of the
  indexer, the functions of its state machine and the loop that runs them.

  A \<open>processIndexerState\<close> is a value of \<open>idx_state\<close>, one constructor per function;
  \<open>run_state\<close> is the call of one.  The database handler, the broker and the JSON decoder are
  libraries: \<open>handler\<close> collects what the sources call.  The file system is a part of the world
  other processes change too; every call of a state function takes the faults its system calls
  meet (\<open>io\<close>).  Logging, statistics on time and the sleeps are left out.
\<close>

section \<open>Configuration\<close>

record Config =
  KeepFiles :: bool
  ForceReindex :: bool
  RetryCountOnFailure :: u8
  SubFolderBatchSize :: u16
  GenesisBlock :: u64
  FromBlock :: u64
  ToBlock :: u64
  SourceFolder :: string
  WaitForBlockMs :: u16

definition defaultConfig :: Config where
  "defaultConfig =
     \<lparr>KeepFiles = False, ForceReindex = False, RetryCountOnFailure = 10,
      SubFolderBatchSize = 10000, GenesisBlock = 9820210, FromBlock = 9820210, ToBlock = 0,
      SourceFolder = ''/tmp/relayer/json/'', WaitForBlockMs = 500\<rparr>"

text \<open>
  \<open>sub\<close> is the \<open>indexer\<close> section of the configuration file, if there is one, as the function
  that decodes it over a configuration; its error is only logged.
\<close>

definition GetConfig :: "(Config \<Rightarrow> error option \<times> Config) option \<Rightarrow> Config" where
  "GetConfig sub = (case sub of None \<Rightarrow> defaultConfig | Some decode \<Rightarrow> snd (decode defaultConfig))"

section \<open>The indexer and its world\<close>

record 'b indexerState =
  currBlock :: u64
  subBlock :: u64
  batchSize :: u64
  filePath :: string
  subBlockPath :: string
  retryCount :: u8
  started :: bool
  cur_block :: "'b option"
  totalBlocksIndexed :: u64

text \<open>\<open>idx_b\<close>: a broker is set; \<open>idx_stopped\<close>: \<open>stopCh\<close> is closed.\<close>

record 'b Indexer =
  idx_c :: Config
  idx_s :: "'b indexerState"
  idx_b :: bool
  idx_stopped :: bool

record ('b, 'db) handler =
  BlockNumber :: "'db \<Rightarrow> u64 option \<times> error option"
  InsertBlock :: "'db \<Rightarrow> 'b \<Rightarrow> error option \<times> 'db"
  GetBlockByNumber :: "'db \<Rightarrow> u64 \<Rightarrow> u64 \<Rightarrow> error + goval"
  GetLogs :: "'db \<Rightarrow> u64 \<Rightarrow> u64 \<Rightarrow> u64 \<Rightarrow> error + goval"
  UnmarshalBlock :: "u8 list \<Rightarrow> 'b option \<Rightarrow> error option \<times> 'b option"
  Height :: "'b \<Rightarrow> u64"
  ChainId_of :: "'b \<Rightarrow> u64"

record 'db world =
  files :: "(string \<times> u8 list) list"
  dirs :: "string list"
  dbh :: 'db
  heads :: "goval list"
  logs :: "goval list"

text \<open>The faults of the (at most two) system calls a state function makes.\<close>

record io =
  fault :: "error option"
  dir_fault :: "error option"

section \<open>System calls\<close>

datatype os_error = OsNotExist | OsError error

definition os_ReadFile :: "error option \<Rightarrow> 'db world \<Rightarrow> string \<Rightarrow> os_error + u8 list" where
  "os_ReadFile e w path =
     (case e of
        Some msg \<Rightarrow> Inl (OsError msg)
      | None \<Rightarrow>
          if path \<in> set (dirs w) then Inl (OsError ''is a directory'')
          else (case map_of (files w) path of None \<Rightarrow> Inl OsNotExist | Some bs \<Rightarrow> Inr bs))"

definition dir_empty :: "'db world \<Rightarrow> string \<Rightarrow> bool" where
  "dir_empty w dir =
     list_all (\<lambda>p. \<not> has_prefix p (dir @ ''/'')) (map fst (files w) @ dirs w)"

definition os_Remove :: "error option \<Rightarrow> 'db world \<Rightarrow> string \<Rightarrow> os_error option \<times> 'db world" where
  "os_Remove e w path =
     (case e of
        Some msg \<Rightarrow> (Some (OsError msg), w)
      | None \<Rightarrow>
          if map_of (files w) path \<noteq> None
            then (None, w\<lparr>files := filter (\<lambda>(p, _). p \<noteq> path) (files w)\<rparr>)
          else if path \<in> set (dirs w) then
            (if dir_empty w path then (None, w\<lparr>dirs := filter (\<lambda>p. p \<noteq> path) (dirs w)\<rparr>)
             else (Some (OsError ''directory not empty''), w))
          else (Some OsNotExist, w))"

definition isDirEmpty :: "error option \<Rightarrow> 'db world \<Rightarrow> string \<Rightarrow> bool" where
  "isDirEmpty e w dir = (e = None \<and> dir \<in> set (dirs w) \<and> dir_empty w dir)"

section \<open>New\<close>

definition sub_path :: "Config \<Rightarrow> u64 \<Rightarrow> string" where
  "sub_path cfg sb = Join [SourceFolder cfg, dec (unat sb)]"

definition block_path :: "string \<Rightarrow> u64 \<Rightarrow> string" where
  "block_path sbp n = Join [sbp, dec (unat n) @ ''.json'']"

text \<open>Lines 63 to 77: the first block to index and whether it follows from the database.\<close>

definition first_block ::
  "('b, 'db) handler \<Rightarrow> 'db \<Rightarrow> Config \<Rightarrow> u64 \<times> bool" where
  "first_block h db cfg =
     (if \<not> ForceReindex cfg then
        (case BlockNumber h db of
           (Some bn, None) \<Rightarrow>
             if bn \<ge> GenesisBlock cfg then (bn + 1, True) else (GenesisBlock cfg, False)
         | _ \<Rightarrow> (GenesisBlock cfg, False))
      else (GenesisBlock cfg, False))"

definition NewIndexer ::
  "('b, 'db) handler \<Rightarrow> 'db \<Rightarrow> Config \<Rightarrow> (error + 'b Indexer) outcome" where
  "NewIndexer h db config =
     (let cfgFromBlockOrigin = FromBlock config;
          (fromBlock, fromBlockUpdated) = first_block h db config;
          cfg = (if FromBlock config < fromBlock then config\<lparr>FromBlock := fromBlock\<rparr> else config)
      in if ToBlock cfg > 0 \<and> ToBlock cfg \<le> FromBlock cfg then
           (if fromBlockUpdated \<and> cfgFromBlockOrigin < ToBlock cfg
            then Ret (Inl (''given block range is already indexed till ['' @
                   dec (unat (FromBlock cfg)) @ '']. Please either enable `forceReindex` config to '' @
                   ''re-index or update the range and re-start the application''))
            else Ret (Inl (''invalid config, toBlock: ['' @ dec (unat (ToBlock cfg)) @
                   ''] must be greater than fromBlock: ['' @ dec (unat (FromBlock cfg)) @ '']'')))
         else
           (let bs = ucast (SubFolderBatchSize cfg) :: u64
            in if bs = 0 then Panic DivideByZero
               else
                 (let sb = FromBlock cfg div bs * bs; sbp = sub_path cfg sb
                  in Ret (Inr
                       \<lparr>idx_c = cfg,
                        idx_s = \<lparr>currBlock = FromBlock cfg, subBlock = sb, batchSize = bs,
                                 filePath = block_path sbp (FromBlock cfg), subBlockPath = sbp,
                                 retryCount = 0, started = False, cur_block = None,
                                 totalBlocksIndexed = 0\<rparr>,
                        idx_b = False, idx_stopped = False\<rparr>))))"

text \<open>\<open>New\<close> and \<open>NewWithBroker\<close>; \<open>None\<close> is the nil handler or broker.\<close>

definition New ::
  "('b, 'db) handler option \<Rightarrow> 'db \<Rightarrow> Config \<Rightarrow> (error + 'b Indexer) outcome" where
  "New hopt db config =
     (case hopt of
        None \<Rightarrow> Ret (Inl ''db handler is not initialized'')
      | Some h \<Rightarrow> NewIndexer h db config)"

definition NewWithBroker ::
  "('b, 'db) handler option \<Rightarrow> bool \<Rightarrow> 'db \<Rightarrow> Config \<Rightarrow> (error + 'b Indexer) outcome" where
  "NewWithBroker hopt has_broker db config =
     (if \<not> has_broker then Ret (Inl ''broker is not initialized'')
      else bind_outcome (New hopt db config) (\<lambda>r.
        Ret (case r of Inl e \<Rightarrow> Inl e | Inr i \<Rightarrow> Inr (i\<lparr>idx_b := True\<rparr>))))"

section \<open>The state functions\<close>

datatype idx_state =
  St_read | St_insert | St_publish | St_removeFile | St_removeFolder | St_increment | St_stop

definition evalError ::
  "'b Indexer \<Rightarrow> bool \<Rightarrow> idx_state \<Rightarrow> idx_state \<Rightarrow> idx_state option \<times> 'b Indexer" where
  "evalError i failed onRetry onFail =
     (if \<not> failed then (None, i)
      else if retryCount (idx_s i) < RetryCountOnFailure (idx_c i)
        then (Some onRetry, i\<lparr>idx_s := (idx_s i)\<lparr>retryCount := retryCount (idx_s i) + 1\<rparr>\<rparr>)
      else (Some onFail, i))"

definition read_state ::
  "('b, 'db) handler \<Rightarrow> io \<Rightarrow> 'b Indexer \<Rightarrow> 'db world \<Rightarrow> idx_state \<times> 'b Indexer \<times> 'db world" where
  "read_state h f i w =
     (let res = os_ReadFile (fault f) w (filePath (idx_s i))
      in if res = Inl OsNotExist then (St_read, i, w)
         else
           (case evalError i (\<exists>e. res = Inl e) St_read St_stop of
              (Some next, i') \<Rightarrow> (next, i', w)
            | (None, i') \<Rightarrow>
                (let (e, b) = UnmarshalBlock h (projr res) (cur_block (idx_s i'));
                     i'' = i'\<lparr>idx_s := (idx_s i')\<lparr>cur_block := b\<rparr>\<rparr>
                 in case evalError i'' (e \<noteq> None) St_read St_stop of
                      (Some next, i3) \<Rightarrow> (next, i3, w)
                    | (None, i3) \<Rightarrow> (St_insert, i3, w))))"

definition insert_state ::
  "('b, 'db) handler \<Rightarrow> 'b Indexer \<Rightarrow> 'db world \<Rightarrow> (idx_state \<times> 'b Indexer \<times> 'db world) outcome"
  where
  "insert_state h i w =
     (case cur_block (idx_s i) of
        None \<Rightarrow> Panic NilDeref
      | Some b \<Rightarrow>
          (let (e, db') = InsertBlock h (dbh w) b; w' = w\<lparr>dbh := db'\<rparr>
           in case evalError i (e \<noteq> None) St_insert St_stop of
                (Some next, i') \<Rightarrow> Ret (next, i', w')
              | (None, i') \<Rightarrow> Ret (St_publish, i', w')))"

definition publish_state ::
  "('b, 'db) handler \<Rightarrow> 'b Indexer \<Rightarrow> 'db world \<Rightarrow> (idx_state \<times> 'b Indexer \<times> 'db world) outcome"
  where
  "publish_state h i w =
     bind_outcome
       (if idx_b i then
          (case cur_block (idx_s i) of
             None \<Rightarrow> Panic NilDeref
           | Some b \<Rightarrow>
               (let bn = Height h b;
                    w1 = (case GetBlockByNumber h (dbh w) (ChainId_of h b) bn of
                            Inl e \<Rightarrow> w | Inr blk \<Rightarrow> w\<lparr>heads := heads w @ [blk]\<rparr>)
                in Ret (case GetLogs h (dbh w1) (ChainId_of h b) bn bn of
                          Inl e \<Rightarrow> w1 | Inr ls \<Rightarrow> w1\<lparr>logs := logs w1 @ [ls]\<rparr>)))
        else Ret w)
       (\<lambda>w'. Ret (if KeepFiles (idx_c i) then St_increment else St_removeFile, i, w'))"

definition removeFile_state ::
  "io \<Rightarrow> 'b Indexer \<Rightarrow> 'db world \<Rightarrow> idx_state \<times> 'b Indexer \<times> 'db world" where
  "removeFile_state f i w =
     (let (e, w') = os_Remove (fault f) w (filePath (idx_s i))
      in case evalError i (e \<noteq> None) St_removeFile St_increment of
           (Some next, i') \<Rightarrow> (next, i', w')
         | (None, i') \<Rightarrow>
             (if currBlock (idx_s i') + 1 = subBlock (idx_s i') + batchSize (idx_s i') \<and>
                 isDirEmpty (dir_fault f) w' (subBlockPath (idx_s i'))
              then (St_removeFolder, i', w') else (St_increment, i', w')))"

definition removeFolder_state ::
  "io \<Rightarrow> 'b Indexer \<Rightarrow> 'db world \<Rightarrow> idx_state \<times> 'b Indexer \<times> 'db world" where
  "removeFolder_state f i w =
     (let (e, w') = os_Remove (fault f) w (subBlockPath (idx_s i))
      in case evalError i (e \<noteq> None) St_removeFolder St_increment of
           (Some next, i') \<Rightarrow> (next, i', w')
         | (None, i') \<Rightarrow> (St_increment, i', w'))"

text \<open>The last lines of \<open>increment\<close> (273 to 281).\<close>

definition advance :: "'b Indexer \<Rightarrow> 'b Indexer outcome" where
  "advance i =
     (let s = idx_s i; n = currBlock s + 1
      in if batchSize s = 0 then Panic DivideByZero
         else
           (let sb = n div batchSize s * batchSize s; sbp = sub_path (idx_c i) sb
            in Ret (i\<lparr>idx_s := s\<lparr>currBlock := n, subBlock := sb, retryCount := 0,
                      cur_block := None, subBlockPath := sbp, filePath := block_path sbp n\<rparr>\<rparr>)))"

definition increment_state ::
  "('b, 'db) handler \<Rightarrow> 'b Indexer \<Rightarrow> 'db world \<Rightarrow> (idx_state \<times> 'b Indexer \<times> 'db world) outcome"
  where
  "increment_state h i0 w =
     (let i = i0\<lparr>idx_s := (idx_s i0)\<lparr>totalBlocksIndexed := totalBlocksIndexed (idx_s i0) + 1\<rparr>\<rparr>
      in if ToBlock (idx_c i) > 0 \<and> ToBlock (idx_c i) \<le> currBlock (idx_s i) then
           (if \<not> ForceReindex (idx_c i) then Ret (St_stop, i, w)
            else
              (case BlockNumber h (dbh w) of
                 (Some fb, None) \<Rightarrow>
                   bind_outcome
                     (advance (i\<lparr>idx_c := (idx_c i)\<lparr>ToBlock := 0\<rparr>,
                                idx_s := (idx_s i)\<lparr>currBlock := fb\<rparr>\<rparr>))
                     (\<lambda>i'. Ret (St_read, i', w))
               | _ \<Rightarrow> Ret (St_stop, i, w)))
         else bind_outcome (advance i) (\<lambda>i'. Ret (St_read, i', w)))"

definition stop_state :: "('b, 'db) handler \<Rightarrow> 'b Indexer \<Rightarrow> 'db world \<Rightarrow> 'b Indexer outcome" where
  "stop_state h i w =
     (case fst (BlockNumber h (dbh w)) of
        None \<Rightarrow> Panic NilDeref
      | Some _ \<Rightarrow> if idx_stopped i then Panic CloseOfClosed else Ret (i\<lparr>idx_stopped := True\<rparr>))"

text \<open>One call \<open>f(i)\<close> of the loop; \<open>None\<close> is the nil function \<open>stop\<close> returns.\<close>

definition run_state ::
  "('b, 'db) handler \<Rightarrow> io \<Rightarrow> idx_state \<Rightarrow> 'b Indexer \<Rightarrow> 'db world \<Rightarrow>
     (idx_state option \<times> 'b Indexer \<times> 'db world) outcome" where
  "run_state h f st i w =
     (let some = (\<lambda>(next, i', w'). Ret (Some next, i', w'))
      in case st of
           St_read \<Rightarrow> some (read_state h f i w)
         | St_insert \<Rightarrow> bind_outcome (insert_state h i w) some
         | St_publish \<Rightarrow> bind_outcome (publish_state h i w) some
         | St_removeFile \<Rightarrow> some (removeFile_state f i w)
         | St_removeFolder \<Rightarrow> some (removeFolder_state f i w)
         | St_increment \<Rightarrow> bind_outcome (increment_state h i w) some
         | St_stop \<Rightarrow> bind_outcome (stop_state h i w) (\<lambda>i'. Ret (None, i', w)))"

end
