(* ===== verification/IndexerRun.thy ===== *)
theory IndexerRun
  imports Indexer
begin

text \<open>
  The indexer as it runs: the loop of \<open>index\<close>, interleaved with \<open>Start\<close>, \<open>Close\<close> and other
  processes that change files and the database, as a step relation; its invariants, and what
  they say of the blocks that get inserted, of failures and of the end of the loop.
\<close>

section \<open>The running system\<close>

text \<open>
  \<open>Running st\<close>: the loop is about to call the function \<open>st\<close>; \<open>Selecting r\<close>: the call returned \<open>r\<close>
  and the \<open>select\<close> on \<open>stopCh\<close> comes next; \<open>Idle\<close>: no loop goroutine.  Two logs
  are added to the code's state: \<open>reads\<close>, the path and the content of every file that was read
  and parsed without an error, and \<open>inserted\<close>, for every insertion that succeeded, the number the
  indexer stood at (\<open>currBlock\<close>) and the block handed to \<open>InsertBlock\<close>.  The number and the
  block's own \<open>Height\<close> are two things: the code never compares them.
\<close>

datatype loop_phase =
  Idle | Running idx_state | Selecting "idx_state option" | Crashed go_panic

record ('b, 'db) isys =
  sys_i :: "'b Indexer"
  sys_w :: "'db world"
  phase :: loop_phase
  reads :: "(string \<times> u8 list) list"
  inserted :: "(u64 \<times> 'b) list"

definition set_started :: "bool \<Rightarrow> 'b Indexer \<Rightarrow> 'b Indexer" where
  "set_started b i = i\<lparr>idx_s := (idx_s i)\<lparr>started := b\<rparr>\<rparr>"

definition Start :: "('b, 'db) isys \<Rightarrow> ('b, 'db) isys" where
  "Start s =
     (if started (idx_s (sys_i s)) then s
      else s\<lparr>sys_i := set_started True (sys_i s), phase := Running St_read\<rparr>)"

definition CloseIndexer :: "('b, 'db) handler \<Rightarrow> ('b, 'db) isys \<Rightarrow> ('b, 'db) isys outcome" where
  "CloseIndexer h s =
     (if started (idx_s (sys_i s))
      then bind_outcome (stop_state h (sys_i s) (sys_w s)) (\<lambda>i. Ret (s\<lparr>sys_i := i\<rparr>))
      else Ret s)"

definition newly_inserted ::
  "idx_state \<Rightarrow> idx_state option \<Rightarrow> 'b Indexer \<Rightarrow> (u64 \<times> 'b) list" where
  "newly_inserted st next i =
     (if st = St_insert \<and> next = Some St_publish
      then (case cur_block (idx_s i) of None \<Rightarrow> [] | Some b \<Rightarrow> [(currBlock (idx_s i), b)])
      else [])"

definition newly_read ::
  "io \<Rightarrow> idx_state \<Rightarrow> idx_state option \<Rightarrow> 'b Indexer \<Rightarrow> 'db world \<Rightarrow> (string \<times> u8 list) list" where
  "newly_read f st next i w =
     (if st = St_read \<and> next = Some St_insert
      then (case os_ReadFile (fault f) w (filePath (idx_s i)) of
              Inl _ \<Rightarrow> [] | Inr bs \<Rightarrow> [(filePath (idx_s i), bs)])
      else [])"

inductive istep :: "('b, 'db) handler \<Rightarrow> ('b, 'db) isys \<Rightarrow> ('b, 'db) isys \<Rightarrow> bool" for h where
  i_start: "phase s = Idle \<Longrightarrow> istep h s (Start s)"
| i_run: "phase s = Running st \<Longrightarrow>
     run_state h f st (sys_i s) (sys_w s) = Ret (next, i', w') \<Longrightarrow>
     istep h s (s\<lparr>sys_i := i', sys_w := w', phase := Selecting next,
                  reads := reads s @ newly_read f st next (sys_i s) (sys_w s),
                  inserted := inserted s @ newly_inserted st next (sys_i s)\<rparr>)"
| i_run_panic: "phase s = Running st \<Longrightarrow>
     run_state h f st (sys_i s) (sys_w s) = Panic k \<Longrightarrow> istep h s (s\<lparr>phase := Crashed k\<rparr>)"
| i_select_stop: "phase s = Selecting next \<Longrightarrow> idx_stopped (sys_i s) \<Longrightarrow>
     istep h s (s\<lparr>sys_i := set_started False (sys_i s), phase := Idle\<rparr>)"
| i_select_next: "phase s = Selecting (Some st) \<Longrightarrow> \<not> idx_stopped (sys_i s) \<Longrightarrow>
     istep h s (s\<lparr>phase := Running st\<rparr>)"
| i_select_nil: "phase s = Selecting None \<Longrightarrow> \<not> idx_stopped (sys_i s) \<Longrightarrow>
     istep h s (s\<lparr>phase := Crashed NilDeref\<rparr>)"
| i_close: "(\<And>k. phase s \<noteq> Crashed k) \<Longrightarrow> CloseIndexer h s = Ret s' \<Longrightarrow> istep h s s'"
| i_close_panic: "CloseIndexer h s = Panic k \<Longrightarrow> istep h s (s\<lparr>phase := Crashed k\<rparr>)"
| i_world: "istep h s (s\<lparr>sys_w := w'\<rparr>)"

definition isys_initial ::
  "('b, 'db) handler \<Rightarrow> 'db \<Rightarrow> Config \<Rightarrow> ('b, 'db) isys \<Rightarrow> bool" where
  "isys_initial h db cfg s \<longleftrightarrow>
     (New (Some h) db cfg = Ret (Inr (sys_i s)) \<or>
      NewWithBroker (Some h) True db cfg = Ret (Inr (sys_i s))) \<and>
     phase s = Idle \<and> reads s = [] \<and> inserted s = []"

section \<open>What the state functions keep\<close>

definition consistent :: "'b Indexer \<Rightarrow> bool" where
  "consistent i \<longleftrightarrow>
     batchSize (idx_s i) = ucast (SubFolderBatchSize (idx_c i)) \<and> batchSize (idx_s i) \<noteq> 0 \<and>
     subBlock (idx_s i) = currBlock (idx_s i) div batchSize (idx_s i) * batchSize (idx_s i) \<and>
     subBlockPath (idx_s i) = sub_path (idx_c i) (subBlock (idx_s i)) \<and>
     filePath (idx_s i) = block_path (subBlockPath (idx_s i)) (currBlock (idx_s i)) \<and>
     retryCount (idx_s i) \<le> RetryCountOnFailure (idx_c i)"

lemma evalError_cases:
  obtains (ok) "\<not> failed" "evalError i failed onRetry onFail = (None, i)"
  | (retry) "failed" "retryCount (idx_s i) < RetryCountOnFailure (idx_c i)"
      "evalError i failed onRetry onFail =
         (Some onRetry, i\<lparr>idx_s := (idx_s i)\<lparr>retryCount := retryCount (idx_s i) + 1\<rparr>\<rparr>)"
  | (giveup) "failed" "\<not> retryCount (idx_s i) < RetryCountOnFailure (idx_c i)"
      "evalError i failed onRetry onFail = (Some onFail, i)"
  by (cases failed; cases "retryCount (idx_s i) < RetryCountOnFailure (idx_c i)")
     (auto simp: evalError_def)

text \<open>
  Every function but \<open>increment\<close> and \<open>stop\<close> leaves the position alone: what it changes is the
  retry count, the decoded block and the world.
\<close>

definition same_position :: "'b Indexer \<Rightarrow> 'b Indexer \<Rightarrow> bool" where
  "same_position i i' \<longleftrightarrow>
     idx_c i' = idx_c i \<and> idx_b i' = idx_b i \<and> idx_stopped i' = idx_stopped i \<and>
     currBlock (idx_s i') = currBlock (idx_s i) \<and> subBlock (idx_s i') = subBlock (idx_s i) \<and>
     batchSize (idx_s i') = batchSize (idx_s i) \<and> filePath (idx_s i') = filePath (idx_s i) \<and>
     subBlockPath (idx_s i') = subBlockPath (idx_s i) \<and> started (idx_s i') = started (idx_s i) \<and>
     (retryCount (idx_s i) \<le> RetryCountOnFailure (idx_c i) \<longrightarrow>
        retryCount (idx_s i') \<le> RetryCountOnFailure (idx_c i))"

lemma same_position_refl [simp]: "same_position i i"
  by (simp add: same_position_def)

lemma same_position_trans: "same_position a b \<Longrightarrow> same_position b c \<Longrightarrow> same_position a c"
  by (simp add: same_position_def)

lemma same_position_block [simp]: "same_position i (i\<lparr>idx_s := (idx_s i)\<lparr>cur_block := b\<rparr>\<rparr>)"
  by (simp add: same_position_def)

lemma same_position_retry [simp]:
  "retryCount (idx_s i) < RetryCountOnFailure (idx_c i) \<Longrightarrow>
     same_position i (i\<lparr>idx_s := (idx_s i)\<lparr>retryCount := retryCount (idx_s i) + 1\<rparr>\<rparr>)"
  by (simp add: same_position_def inc_le)

lemma evalError_same_position: "same_position i (snd (evalError i failed a b))"
  by (cases rule: evalError_cases [of failed i a b]) simp_all

lemma evalError_next: "fst (evalError i failed a b) \<in> {None, Some a, Some b}"
  by (cases rule: evalError_cases [of failed i a b]) simp_all

lemma consistent_same_position: "same_position i i' \<Longrightarrow> consistent i \<Longrightarrow> consistent i'"
  by (auto simp: same_position_def consistent_def)

fun moves :: "idx_state \<Rightarrow> idx_state set" where
  "moves St_read = {St_read, St_insert, St_stop}"
| "moves St_insert = {St_insert, St_publish, St_stop}"
| "moves St_publish = {St_removeFile, St_increment}"
| "moves St_removeFile = {St_removeFile, St_removeFolder, St_increment}"
| "moves St_removeFolder = {St_removeFolder, St_increment}"
| "moves St_increment = {St_read, St_stop}"
| "moves St_stop = {}"

lemma read_state_keeps:
  "read_state h f i w = (next, i', w') \<Longrightarrow> same_position i i' \<and> next \<in> moves St_read \<and> w' = w"
proof -
  assume r: "read_state h f i w = (next, i', w')"
  show ?thesis
  proof (cases "os_ReadFile (fault f) w (filePath (idx_s i))")
    case (Inl e)
    then show ?thesis
      using r evalError_same_position [of i True St_read St_stop] evalError_next [of i True St_read St_stop]
      by (cases rule: evalError_cases [of True i St_read St_stop])
         (auto simp: read_state_def Let_def split: if_splits)
  next
    case (Inr bs)
    obtain e b where u: "UnmarshalBlock h bs (cur_block (idx_s i)) = (e, b)"
      by (cases "UnmarshalBlock h bs (cur_block (idx_s i))")
    let ?i = "i\<lparr>idx_s := (idx_s i)\<lparr>cur_block := b\<rparr>\<rparr>"
    show ?thesis
      using r Inr u evalError_same_position [of ?i "e \<noteq> None" St_read St_stop]
        same_position_trans [OF same_position_block]
      by (cases rule: evalError_cases [of "e \<noteq> None" ?i St_read St_stop])
         (auto simp: read_state_def Let_def evalError_def split: if_splits)
  qed
qed

lemma insert_state_keeps:
  "insert_state h i w = Ret (next, i', w') \<Longrightarrow> same_position i i' \<and> next \<in> moves St_insert"
  by (cases rule: evalError_cases
        [of "fst (InsertBlock h (dbh w) (the (cur_block (idx_s i)))) \<noteq> None" i St_insert St_stop])
     (auto simp: insert_state_def Let_def split: option.splits prod.splits)

lemma publish_state_keeps:
  "publish_state h i w = Ret (next, i', w') \<Longrightarrow> i' = i \<and> next \<in> moves St_publish"
  by (auto simp: publish_state_def bind_outcome_Ret_iff split: if_splits)

lemma removeFile_state_keeps:
  "removeFile_state f i w = (next, i', w') \<Longrightarrow> same_position i i' \<and> next \<in> moves St_removeFile"
  by (cases rule: evalError_cases
        [of "fst (os_Remove (fault f) w (filePath (idx_s i))) \<noteq> None" i St_removeFile St_increment])
     (auto simp: removeFile_state_def Let_def split: prod.splits if_splits)

lemma removeFolder_state_keeps:
  "removeFolder_state f i w = (next, i', w') \<Longrightarrow> same_position i i' \<and> next \<in> moves St_removeFolder"
  by (cases rule: evalError_cases
        [of "fst (os_Remove (fault f) w (subBlockPath (idx_s i))) \<noteq> None" i St_removeFolder St_increment])
     (auto simp: removeFolder_state_def Let_def split: prod.splits)


lemma advance_consistent:
  assumes "advance i = Ret i'"
    and "batchSize (idx_s i) = ucast (SubFolderBatchSize (idx_c i))"
  shows "consistent i' \<and> idx_c i' = idx_c i \<and> currBlock (idx_s i') = currBlock (idx_s i) + 1 \<and>
    idx_stopped i' = idx_stopped i \<and> started (idx_s i') = started (idx_s i) \<and>
    retryCount (idx_s i') = 0"
  using assms by (auto simp: advance_def consistent_def Let_def split: if_splits)

lemma increment_state_moves:
  assumes "increment_state h i w = Ret (next, i', w')" "consistent i"
    "\<not> ForceReindex (idx_c i)"
  shows "consistent i' \<and> idx_c i' = idx_c i \<and> idx_stopped i' = idx_stopped i \<and>
    started (idx_s i') = started (idx_s i) \<and>
    (if ToBlock (idx_c i) > 0 \<and> ToBlock (idx_c i) \<le> currBlock (idx_s i)
     then next = St_stop \<and> currBlock (idx_s i') = currBlock (idx_s i)
     else next = St_read \<and> currBlock (idx_s i') = currBlock (idx_s i) + 1)"
proof (cases "ToBlock (idx_c i) > 0 \<and> ToBlock (idx_c i) \<le> currBlock (idx_s i)")
  case True
  with assms show ?thesis
    by (auto simp: increment_state_def Let_def consistent_def)
next
  case False
  let ?i = "i\<lparr>idx_s := (idx_s i)\<lparr>totalBlocksIndexed := totalBlocksIndexed (idx_s i) + 1\<rparr>\<rparr>"
  from False assms(1) have "advance ?i = Ret i'" "next = St_read"
    by (auto simp: increment_state_def Let_def bind_outcome_Ret_iff)
  moreover have "batchSize (idx_s ?i) = ucast (SubFolderBatchSize (idx_c ?i))"
    using assms(2) by (simp add: consistent_def)
  ultimately show ?thesis using False advance_consistent by fastforce
qed

lemma stop_state_keeps:
  "stop_state h i w = Ret i' \<Longrightarrow> i' = i\<lparr>idx_stopped := True\<rparr>"
  by (auto simp: stop_state_def split: option.splits if_splits)

lemma same_position_keeps:
  "same_position i i' \<Longrightarrow> consistent i \<Longrightarrow>
     consistent i' \<and> idx_c i' = idx_c i \<and> started (idx_s i') = started (idx_s i) \<and>
     idx_stopped i' = idx_stopped i \<and> currBlock (idx_s i') = currBlock (idx_s i)"
  by (frule (1) consistent_same_position) (simp add: same_position_def)

text \<open>One call of a function of the loop, for a configuration that does not re-index.\<close>

lemma run_state_keeps:
  assumes "run_state h f st i w = Ret (next, i', w')" "consistent i" "\<not> ForceReindex (idx_c i)"
  shows "consistent i' \<and> idx_c i' = idx_c i \<and> started (idx_s i') = started (idx_s i) \<and>
    (\<forall>n. next = Some n \<longrightarrow> n \<in> moves st \<and> idx_stopped i' = idx_stopped i) \<and>
    (next = None \<longrightarrow> st = St_stop \<and> idx_stopped i') \<and>
    currBlock (idx_s i') = currBlock (idx_s i) + (if st = St_increment \<and> next = Some St_read then 1 else 0)"
proof (cases st)
  case St_read
  obtain n j v where f: "read_state h f i w = (n, j, v)" by (cases "read_state h f i w")
  with assms(1) St_read have "next = Some n" "i' = j" by (simp_all add: run_state_def Let_def)
  with read_state_keeps [OF f] same_position_keeps [of i j] assms(2) St_read show ?thesis by simp
next
  case St_insert
  with assms(1) obtain n v where f: "insert_state h i w = Ret (n, i', v)" "next = Some n"
    by (auto simp: run_state_def Let_def bind_outcome_Ret_iff)
  with insert_state_keeps [OF f(1)] same_position_keeps [of i i'] assms(2) St_insert show ?thesis
    by simp
next
  case St_publish
  with assms(1) obtain n v where f: "publish_state h i w = Ret (n, i', v)" "next = Some n"
    by (auto simp: run_state_def Let_def bind_outcome_Ret_iff)
  with publish_state_keeps [OF f(1)] assms(2) St_publish show ?thesis by simp
next
  case St_removeFile
  obtain n j v where f: "removeFile_state f i w = (n, j, v)" by (cases "removeFile_state f i w")
  with assms(1) St_removeFile have "next = Some n" "i' = j" by (simp_all add: run_state_def Let_def)
  with removeFile_state_keeps [OF f] same_position_keeps [of i j] assms(2) St_removeFile
  show ?thesis by simp
next
  case St_removeFolder
  obtain n j v where f: "removeFolder_state f i w = (n, j, v)" by (cases "removeFolder_state f i w")
  with assms(1) St_removeFolder have "next = Some n" "i' = j" by (simp_all add: run_state_def Let_def)
  with removeFolder_state_keeps [OF f] same_position_keeps [of i j] assms(2) St_removeFolder
  show ?thesis by simp
next
  case St_increment
  with assms(1) obtain n where n: "increment_state h i w = Ret (n, i', w')" "next = Some n"
    by (auto simp: run_state_def Let_def bind_outcome_Ret_iff)
  from increment_state_moves [OF n(1) assms(2,3)] n(2) St_increment show ?thesis
    by (auto split: if_splits)
next
  case St_stop
  with assms(1) have "stop_state h i w = Ret i'" "next = None"
    by (auto simp: run_state_def Let_def bind_outcome_Ret_iff)
  with stop_state_keeps [of h i w i'] assms(2) St_stop show ?thesis
    by (auto simp: consistent_def)
qed

section \<open>The order of insertions\<close>

text \<open>Whether the block the indexer points at was inserted, where the function tells.\<close>

fun settled :: "idx_state \<Rightarrow> bool option" where
  "settled St_read = Some False"
| "settled St_insert = Some False"
| "settled St_stop = None"
| "settled _ = Some True"

definition agrees :: "idx_state \<Rightarrow> bool \<Rightarrow> bool" where
  "agrees st d \<longleftrightarrow> settled st = None \<or> settled st = Some d"

fun phase_ok :: "loop_phase \<Rightarrow> bool \<Rightarrow> bool \<Rightarrow> bool" where
  "phase_ok Idle stopped d = (stopped \<or> \<not> d)"
| "phase_ok (Running st) stopped d = (agrees st d \<or> (st = St_read \<and> stopped))"
| "phase_ok (Selecting (Some st)) stopped d = (agrees st d \<or> stopped)"
| "phase_ok (Selecting None) stopped d = stopped"
| "phase_ok (Crashed k) stopped d = True"

definition consecutive_from :: "u64 \<Rightarrow> u64 list \<Rightarrow> bool" where
  "consecutive_from n ns \<longleftrightarrow> ns = map (\<lambda>j. n + of_nat j) [0..<length ns]"

lemma consecutive_from_snoc:
  "consecutive_from n ns \<Longrightarrow> m = n + of_nat (length ns) \<Longrightarrow> consecutive_from n (ns @ [m])"
  by (simp add: consecutive_from_def)

definition order_core :: "Config \<Rightarrow> 'b Indexer \<Rightarrow> (u64 \<times> 'b) list \<Rightarrow> bool" where
  "order_core c i ins \<longleftrightarrow>
     consistent i \<and> idx_c i = c \<and> consecutive_from (FromBlock c) (map fst ins) \<and>
     (0 < ToBlock c \<longrightarrow> currBlock (idx_s i) \<le> ToBlock c)"

text \<open>The block the indexer points at was inserted (\<open>d\<close>) or is the next to insert.\<close>

definition at_block :: "Config \<Rightarrow> 'b Indexer \<Rightarrow> (u64 \<times> 'b) list \<Rightarrow> bool \<Rightarrow> bool" where
  "at_block c i ins d \<longleftrightarrow>
     (d \<longrightarrow> ins \<noteq> []) \<and> currBlock (idx_s i) + of_bool d = FromBlock c + of_nat (length ins)"

fun loop_active :: "loop_phase \<Rightarrow> bool option" where
  "loop_active Idle = Some False"
| "loop_active (Running st) = Some True"
| "loop_active (Selecting r) = Some True"
| "loop_active (Crashed k) = None"

definition order_inv :: "Config \<Rightarrow> ('b, 'db) isys \<Rightarrow> bool" where
  "order_inv c s \<longleftrightarrow>
     order_core c (sys_i s) (inserted s) \<and>
     loop_active (phase s) \<in> {None, Some (started (idx_s (sys_i s)))} \<and>
     (\<exists>d. phase_ok (phase s) (idx_stopped (sys_i s)) d \<and> at_block c (sys_i s) (inserted s) d)"

lemma set_started_fields [simp]:
  "idx_c (set_started b i) = idx_c i" "idx_stopped (set_started b i) = idx_stopped i"
  "currBlock (idx_s (set_started b i)) = currBlock (idx_s i)" "started (idx_s (set_started b i)) = b"
  "consistent (set_started b i) = consistent i" "order_core c (set_started b i) = order_core c i"
  "at_block c (set_started b i) = at_block c i"
  by (auto simp: set_started_def consistent_def order_core_def at_block_def fun_eq_iff)

lemma set_stopped_fields [simp]:
  "order_core c (i\<lparr>idx_stopped := b\<rparr>) = order_core c i"
  "at_block c (i\<lparr>idx_stopped := b\<rparr>) = at_block c i"
  by (auto simp: consistent_def order_core_def at_block_def fun_eq_iff)

lemma phase_ok_stopped: "phase_ok ph b d \<Longrightarrow> phase_ok ph True d"
  by (cases "(ph, b, d)" rule: phase_ok.cases) auto

lemma run_state_inserted:
  assumes "run_state h f st i w = Ret (next, i', w')"
  shows "map fst (newly_inserted st next i) =
    (if st = St_insert \<and> next = Some St_publish then [currBlock (idx_s i)] else [])"
  using assms
  by (auto simp: newly_inserted_def newly_read_def run_state_def Let_def insert_state_def split: option.splits)

lemma order_inv_run:
  assumes inv: "order_inv c s" and force: "\<not> ForceReindex c"
    and ph: "phase s = Running st"
    and run: "run_state h f st (sys_i s) (sys_w s) = Ret (next, i', w')"
  shows "order_inv c (s\<lparr>sys_i := i', sys_w := w', phase := Selecting next, reads := rs,
    inserted := inserted s @ newly_inserted st next (sys_i s)\<rparr>)"
proof -
  let ?n = "currBlock (idx_s (sys_i s))" and ?new = "newly_inserted st next (sys_i s)"
  have core: "consistent (sys_i s)" "idx_c (sys_i s) = c"
      "consecutive_from (FromBlock c) (map fst (inserted s))" "0 < ToBlock c \<Longrightarrow> ?n \<le> ToBlock c"
      "started (idx_s (sys_i s))"
    using inv ph by (simp_all add: order_inv_def order_core_def)
  obtain d where d: "agrees st d \<or> (st = St_read \<and> idx_stopped (sys_i s))"
      "d \<longrightarrow> inserted s \<noteq> []" "?n + of_bool d = FromBlock c + of_nat (length (inserted s))"
    using inv ph by (auto simp: order_inv_def at_block_def)
  have keeps: "consistent i'" "idx_c i' = c" "started (idx_s i')"
      "\<And>m. next = Some m \<Longrightarrow> m \<in> moves st \<and> idx_stopped i' = idx_stopped (sys_i s)"
      "next = None \<Longrightarrow> idx_stopped i'"
      "currBlock (idx_s i') = ?n + (if st = St_increment \<and> next = Some St_read then 1 else 0)"
    using run_state_keeps [OF run core(1)] force core(2,5) by simp_all
  note new = run_state_inserted [OF run]
  have len: "length ?new = (if st = St_insert \<and> next = Some St_publish then 1 else 0)"
    using new by (metis (full_types) length_map list.size(3) length_Cons One_nat_def)
  have log: "consecutive_from (FromBlock c) (map fst (inserted s @ ?new))"
  proof (cases "st = St_insert \<and> next = Some St_publish")
    case True
    with d have "?n = FromBlock c + of_nat (length (map fst (inserted s)))"
      by (auto simp: agrees_def)
    with True new core(3) show ?thesis by (simp add: consecutive_from_snoc)
  next
    case False
    then have "?new = []" using len by auto
    with core(3) show ?thesis by simp
  qed
  have upper: "currBlock (idx_s i') \<le> ToBlock c" if "0 < ToBlock c"
  proof (cases "st = St_increment \<and> next = Some St_read")
    case True
    with run have "increment_state h (sys_i s) (sys_w s) = Ret (St_read, i', w')"
      by (auto simp: run_state_def Let_def bind_outcome_Ret_iff)
    with increment_state_moves [OF this core(1)] force core(2) that have "?n < ToBlock c"
      by (auto split: if_splits)
    with True keeps(6) show ?thesis by (simp add: inc_le)
  qed (use keeps(6) core(4) that in auto)
  let ?d = "if st = St_insert \<and> next = Some St_publish then True
            else if st = St_increment \<and> next = Some St_read then False else d"
  have "phase_ok (Selecting next) (idx_stopped i') ?d"
  proof (cases "next")
    case (Some m)
    with keeps(4) [OF Some] d(1) show ?thesis
      by (cases st) (auto simp: agrees_def)
  qed (use keeps(5) in simp)
  moreover have "at_block c i' (inserted s @ ?new) ?d"
  proof -
    have "?d \<longrightarrow> inserted s @ ?new \<noteq> []"
      using d(2) len by (cases ?new) auto
    moreover have "currBlock (idx_s i') + of_bool ?d =
        FromBlock c + of_nat (length (inserted s @ ?new))"
      using d keeps(6) len by (auto simp: agrees_def algebra_simps split: if_splits)
    ultimately show ?thesis by (simp add: at_block_def)
  qed
  moreover have "order_core c i' (inserted s @ ?new)"
    using keeps(1,2) log upper by (simp add: order_core_def)
  ultimately show ?thesis
    using keeps(3) unfolding order_inv_def by auto
qed

lemma order_inv_step:
  assumes inv: "order_inv c s" and force: "\<not> ForceReindex c" and step: "istep h s t"
  shows "order_inv c t"
  using step
proof cases
  case i_start
  with inv show ?thesis by (auto simp: order_inv_def Start_def agrees_def)
next
  case (i_run st f "next" i' w')
  with order_inv_run [OF inv force] show ?thesis by blast
next
  case i_close
  show ?thesis
  proof (cases "started (idx_s (sys_i s))")
    case True
    with i_close(2) obtain i where "stop_state h (sys_i s) (sys_w s) = Ret i" "t = s\<lparr>sys_i := i\<rparr>"
      by (auto simp: CloseIndexer_def bind_outcome_Ret_iff)
    then have t: "t = s\<lparr>sys_i := (sys_i s)\<lparr>idx_stopped := True\<rparr>\<rparr>"
      using stop_state_keeps by blast
    with inv show ?thesis
      by (auto simp: order_inv_def dest: phase_ok_stopped)
  next
    case False
    with i_close(2) inv show ?thesis by (simp add: CloseIndexer_def)
  qed
qed (use inv in \<open>auto simp: order_inv_def\<close>)


section \<open>What New builds\<close>

lemma NewIndexer_fields:
  assumes "NewIndexer h db cfg = Ret (Inr i)"
  shows "consistent i \<and> \<not> idx_stopped i \<and> \<not> started (idx_s i) \<and> \<not> idx_b i \<and>
    currBlock (idx_s i) = FromBlock (idx_c i) \<and>
    idx_c i = cfg\<lparr>FromBlock := max (FromBlock cfg) (fst (first_block h db cfg))\<rparr> \<and>
    (0 < ToBlock cfg \<longrightarrow> FromBlock (idx_c i) < ToBlock cfg)"
proof -
  obtain n u where f: "first_block h db cfg = (n, u)" by (cases "first_block h db cfg")
  let ?c = "if FromBlock cfg < n then cfg\<lparr>FromBlock := n\<rparr> else cfg"
  have c: "?c = cfg\<lparr>FromBlock := max (FromBlock cfg) n\<rparr>"
    by (cases cfg) (auto simp: max_def)
  have "\<not> (ToBlock ?c > 0 \<and> ToBlock ?c \<le> FromBlock ?c)"
      "(ucast (SubFolderBatchSize ?c) :: u64) \<noteq> 0"
    using assms f by (auto simp: NewIndexer_def Let_def split: if_splits)
  with assms f show ?thesis
    unfolding c by (auto simp: NewIndexer_def Let_def consistent_def c not_le split: if_splits)
qed

lemma New_fields:
  assumes "isys_initial h db cfg s"
  shows "consistent (sys_i s) \<and> \<not> idx_stopped (sys_i s) \<and> \<not> started (idx_s (sys_i s)) \<and>
    currBlock (idx_s (sys_i s)) = FromBlock (idx_c (sys_i s)) \<and>
    idx_c (sys_i s) = cfg\<lparr>FromBlock := max (FromBlock cfg) (fst (first_block h db cfg))\<rparr> \<and>
    (0 < ToBlock cfg \<longrightarrow> FromBlock (idx_c (sys_i s)) < ToBlock cfg) \<and>
    phase s = Idle \<and> reads s = [] \<and> inserted s = []"
proof -
  obtain i where i: "NewIndexer h db cfg = Ret (Inr i)" "sys_i s = i \<or> sys_i s = i\<lparr>idx_b := True\<rparr>"
  proof (cases "NewIndexer h db cfg")
    case (Ret r)
    with assms that show ?thesis
      by (cases r) (auto simp: isys_initial_def New_def NewWithBroker_def)
  qed (use assms in \<open>auto simp: isys_initial_def New_def NewWithBroker_def\<close>)
  have "consistent (i\<lparr>idx_b := True\<rparr>) = consistent i" by (simp add: consistent_def)
  with NewIndexer_fields [OF i(1)] i(2) assms show ?thesis
    by (auto simp: isys_initial_def)
qed

interpretation indexer_order: transition_system
  "\<lambda>s. \<exists>db cfg. isys_initial h db cfg s \<and> idx_c (sys_i s) = c \<and> \<not> ForceReindex cfg"
  "istep h" "\<lambda>s. order_inv c s \<and> \<not> ForceReindex c" for h c
proof
  fix s assume "\<exists>db cfg. isys_initial h db cfg s \<and> idx_c (sys_i s) = c \<and> \<not> ForceReindex cfg"
  then obtain db cfg where i: "isys_initial h db cfg s" "idx_c (sys_i s) = c" "\<not> ForceReindex cfg"
    by blast
  from New_fields [OF i(1)] i(2,3) show "order_inv c s \<and> \<not> ForceReindex c"
    by (auto simp: order_inv_def order_core_def at_block_def consecutive_from_def less_imp_le)
qed (blast intro: order_inv_step)

lemma order_reachable:
  "isys_initial h db cfg s0 \<Longrightarrow> \<not> ForceReindex cfg \<Longrightarrow> (istep h)\<^sup>*\<^sup>* s0 s \<Longrightarrow>
     order_inv (idx_c (sys_i s0)) s"
  by (rule conjunct1 [OF indexer_order.reachable_inv]) auto

section \<open>Where the inserted blocks come from\<close>

text \<open>
  \<open>number_path cfg n\<close> is the path of the file for block \<open>n\<close>; \<open>parsed_from h rs p b\<close>: the block \<open>b\<close> is
  what the decoder made of a content that was read from the file \<open>p\<close> (with some old block as the
  target it decodes into).
\<close>

definition number_path :: "Config \<Rightarrow> u64 \<Rightarrow> string" where
  "number_path cfg n =
     (let b = ucast (SubFolderBatchSize cfg) in block_path (sub_path cfg (n div b * b)) n)"

definition parsed_from ::
  "('b, 'db) handler \<Rightarrow> (string \<times> u8 list) list \<Rightarrow> string \<Rightarrow> 'b \<Rightarrow> bool" where
  "parsed_from h rs p b \<longleftrightarrow>
     (\<exists>bs old. (p, bs) \<in> set rs \<and> UnmarshalBlock h bs old = (None, Some b))"

lemma parsed_from_append: "parsed_from h rs p b \<Longrightarrow> parsed_from h (rs @ rs') p b"
  by (auto simp: parsed_from_def)

lemma consistent_number_path:
  "consistent i \<Longrightarrow> filePath (idx_s i) = number_path (idx_c i) (currBlock (idx_s i))"
  by (simp add: consistent_def number_path_def Let_def)

lemma number_path_inj: "number_path c m = number_path c n \<longleftrightarrow> m = n"
proof
  assume "number_path c m = number_path c n"
  then have "dec (unat m) @ ''.json'' = dec (unat n) @ ''.json''"
    unfolding number_path_def block_path_def Let_def
    by (rule Join_inj [rotated 2]) (use plain_dec_ext [of "''son''"] in simp_all)
  then show "m = n" by (simp add: unsigned_word_eqI)
qed simp

lemma sub_path_cfg [simp]: "sub_path (c\<lparr>FromBlock := n\<rparr>) b = sub_path c b"
  "sub_path (c\<lparr>ToBlock := n\<rparr>) b = sub_path c b"
  by (simp_all add: sub_path_def)

lemma number_path_cfg [simp]: "number_path (c\<lparr>FromBlock := n\<rparr>) = number_path c"
  by (rule ext) (simp add: number_path_def Let_def)

fun inserting_phase :: "loop_phase \<Rightarrow> bool" where
  "inserting_phase (Running st) = (st = St_insert)"
| "inserting_phase (Selecting r) = (r = Some St_insert)"
| "inserting_phase _ = False"

definition source_inv :: "('b, 'db) handler \<Rightarrow> Config \<Rightarrow> ('b, 'db) isys \<Rightarrow> bool" where
  "source_inv h c s \<longleftrightarrow>
     (inserting_phase (phase s) \<longrightarrow>
        (\<forall>b. cur_block (idx_s (sys_i s)) = Some b \<longrightarrow>
           parsed_from h (reads s) (filePath (idx_s (sys_i s))) b)) \<and>
     (\<forall>(n, b) \<in> set (inserted s). parsed_from h (reads s) (number_path c n) b)"

lemma read_state_parses:
  assumes "read_state h f i w = (St_insert, i', w')"
  obtains bs where "os_ReadFile (fault f) w (filePath (idx_s i)) = Inr bs"
    "UnmarshalBlock h bs (cur_block (idx_s i)) = (None, cur_block (idx_s i'))"
proof (cases "os_ReadFile (fault f) w (filePath (idx_s i))")
  case (Inl e)
  with assms have False
    by (cases rule: evalError_cases [of True i St_read St_stop])
       (auto simp: read_state_def Let_def split: if_splits)
  then show ?thesis ..
next
  case (Inr bs)
  obtain e b where u: "UnmarshalBlock h bs (cur_block (idx_s i)) = (e, b)"
    by (cases "UnmarshalBlock h bs (cur_block (idx_s i))")
  let ?i = "i\<lparr>idx_s := (idx_s i)\<lparr>cur_block := b\<rparr>\<rparr>"
  have "e = None \<and> i' = ?i"
    using assms Inr u
    by (cases rule: evalError_cases [of "e \<noteq> None" ?i St_read St_stop])
       (auto simp: read_state_def Let_def evalError_def split: if_splits)
  with that Inr u show ?thesis by simp
qed

lemma insert_state_block:
  assumes "insert_state h i w = Ret (next, i', w')"
  shows "cur_block (idx_s i') = cur_block (idx_s i) \<and> filePath (idx_s i') = filePath (idx_s i)"
  using assms
  by (cases rule: evalError_cases
        [of "fst (InsertBlock h (dbh w) (the (cur_block (idx_s i)))) \<noteq> None" i St_insert St_stop])
     (auto simp: insert_state_def Let_def split: option.splits prod.splits)

lemma source_inv_run:
  assumes inv: "source_inv h c s" "order_inv c s" and force: "\<not> ForceReindex c"
    and ph: "phase s = Running st"
    and run: "run_state h f st (sys_i s) (sys_w s) = Ret (next, i', w')"
  shows "source_inv h c (s\<lparr>sys_i := i', sys_w := w', phase := Selecting next,
    reads := reads s @ newly_read f st next (sys_i s) (sys_w s),
    inserted := inserted s @ newly_inserted st next (sys_i s)\<rparr>)"
proof -
  let ?i = "sys_i s" and ?rs = "reads s @ newly_read f st next (sys_i s) (sys_w s)"
  have con: "consistent ?i" "idx_c ?i = c"
    using inv(2) by (simp_all add: order_inv_def order_core_def)
  have old: "\<forall>(n, b) \<in> set (inserted s). parsed_from h ?rs (number_path c n) b"
    using inv(1) by (auto simp: source_inv_def parsed_from_append)
  have cur: "parsed_from h ?rs (filePath (idx_s ?i)) b"
    if "st = St_insert" "cur_block (idx_s ?i) = Some b" for b
    using inv(1) ph that by (simp add: source_inv_def parsed_from_append)
  have "\<forall>(n, b) \<in> set (newly_inserted st next ?i). parsed_from h ?rs (number_path c n) b"
  proof (cases "st = St_insert \<and> next = Some St_publish")
    case True
    with cur consistent_number_path [OF con(1)] con(2) show ?thesis
      by (cases "cur_block (idx_s ?i)") (simp_all add: newly_inserted_def)
  next
    case False
    then have "newly_inserted st next ?i = []" by (simp only: newly_inserted_def if_False)
    then show ?thesis by simp
  qed
  moreover have "parsed_from h ?rs (filePath (idx_s i')) b"
    if "next = Some St_insert" "cur_block (idx_s i') = Some b" for b
  proof (cases "st = St_insert")
    case True
    with run that(1) have "insert_state h ?i (sys_w s) = Ret (St_insert, i', w')"
      by (auto simp: run_state_def Let_def bind_outcome_Ret_iff)
    from insert_state_block [OF this] show ?thesis
      using cur True that(2) by simp
  next
    case False
    have "St_insert \<in> moves st"
      using run_state_keeps [OF run con(1)] force con(2) that(1) by simp
    with False have st: "st = St_read" by (cases st) auto
    with run that(1) have r: "read_state h f ?i (sys_w s) = (St_insert, i', w')"
      by (auto simp: run_state_def Let_def split: prod.splits)
    then obtain bs where "os_ReadFile (fault f) (sys_w s) (filePath (idx_s ?i)) = Inr bs"
        "UnmarshalBlock h bs (cur_block (idx_s ?i)) = (None, cur_block (idx_s i'))"
      by (rule read_state_parses)
    moreover have "filePath (idx_s i') = filePath (idx_s ?i)"
      using read_state_keeps [OF r] by (simp add: same_position_def)
    ultimately show ?thesis
      using st that by (auto simp: parsed_from_def newly_read_def)
  qed
  ultimately show ?thesis
    using old by (auto simp: source_inv_def)
qed

lemma source_inv_step:
  assumes inv: "source_inv h c s" "order_inv c s" and force: "\<not> ForceReindex c"
    and step: "istep h s t"
  shows "source_inv h c t"
  using step
proof cases
  case i_start
  with inv(1) show ?thesis by (auto simp: source_inv_def Start_def)
next
  case (i_run st f "next" i' w')
  with source_inv_run [OF inv force] show ?thesis by blast
next
  case i_close
  with inv(1) show ?thesis
    by (auto simp: source_inv_def CloseIndexer_def bind_outcome_Ret_iff split: if_splits
        dest!: stop_state_keeps)
qed (use inv(1) in \<open>auto simp: source_inv_def set_started_def\<close>)

interpretation indexer_source: transition_system
  "\<lambda>s. \<exists>db cfg. isys_initial h db cfg s \<and> idx_c (sys_i s) = c \<and> \<not> ForceReindex cfg"
  "istep h" "\<lambda>s. (order_inv c s \<and> \<not> ForceReindex c) \<and> source_inv h c s" for h c
proof
  fix s assume i: "\<exists>db cfg. isys_initial h db cfg s \<and> idx_c (sys_i s) = c \<and> \<not> ForceReindex cfg"
  then have "source_inv h c s" by (auto simp: isys_initial_def source_inv_def)
  with indexer_order.reachable_inv [OF i rtranclp.rtrancl_refl]
  show "(order_inv c s \<and> \<not> ForceReindex c) \<and> source_inv h c s" by blast
qed (blast intro: order_inv_step source_inv_step)

lemma source_reachable:
  "isys_initial h db cfg s0 \<Longrightarrow> \<not> ForceReindex cfg \<Longrightarrow> (istep h)\<^sup>*\<^sup>* s0 s \<Longrightarrow>
     source_inv h (idx_c (sys_i s0)) s"
  by (rule conjunct2 [OF indexer_source.reachable_inv]) auto

section \<open>Runs of the loop\<close>

text \<open>
  One turn of the loop with the given faults in the given world: the call and the \<open>select\<close>.
\<close>

definition turn :: "('b, 'db) handler \<Rightarrow> io \<times> 'db world \<Rightarrow> ('b, 'db) isys \<Rightarrow> ('b, 'db) isys" where
  "turn h e s0 =
     (let s = s0\<lparr>sys_w := snd e\<rparr>
      in case phase s of
           Running st \<Rightarrow>
             (case run_state h (fst e) st (sys_i s) (sys_w s) of
                Ret (next, i', w') \<Rightarrow>
                  (let t = s\<lparr>sys_i := i', sys_w := w', phase := Selecting next,
                             reads := reads s @ newly_read (fst e) st next (sys_i s) (sys_w s),
                             inserted := inserted s @ newly_inserted st next (sys_i s)\<rparr>
                   in if idx_stopped i' then t\<lparr>sys_i := set_started False i', phase := Idle\<rparr>
                      else (case next of Some n \<Rightarrow> t\<lparr>phase := Running n\<rparr>
                            | None \<Rightarrow> t\<lparr>phase := Crashed NilDeref\<rparr>))
              | Panic k \<Rightarrow> s\<lparr>phase := Crashed k\<rparr>
              | Blocked \<Rightarrow> s)
         | _ \<Rightarrow> s)"

lemma turn_steps: "(istep h)\<^sup>*\<^sup>* s (turn h e s)"
proof -
  let ?s = "s\<lparr>sys_w := snd e\<rparr>"
  have w: "istep h s ?s" by (rule i_world)
  show ?thesis
  proof (cases "\<exists>st. phase s = Running st")
    case True
    then obtain st where st: "phase ?s = Running st" by auto
    show ?thesis
    proof (cases "run_state h (fst e) st (sys_i ?s) (sys_w ?s)")
      case (Ret r)
      obtain "next" i' w' where r: "r = (next, i', w')" by (cases r)
      let ?t = "?s\<lparr>sys_i := i', sys_w := w', phase := Selecting next,
        reads := reads ?s @ newly_read (fst e) st next (sys_i ?s) (sys_w ?s),
        inserted := inserted ?s @ newly_inserted st next (sys_i ?s)\<rparr>"
      have 1: "istep h ?s ?t" using i_run [OF st Ret [unfolded r]] by simp
      have "istep h ?t (turn h e s)"
        using i_select_stop [of ?t "next" h] i_select_next [of ?t _ h] i_select_nil [of ?t h] st Ret
        by (cases "next") (auto simp: turn_def Let_def r)
      with w 1 show ?thesis by (meson r_into_rtranclp rtranclp_trans)
    next
      case Blocked
      with w st show ?thesis by (simp add: turn_def Let_def r_into_rtranclp)
    next
      case (Panic k)
      with i_run_panic [OF st Panic] w st show ?thesis
        by (auto simp: turn_def Let_def intro: rtranclp_trans [OF r_into_rtranclp r_into_rtranclp])
    qed
  next
    case False
    then have "turn h e s = ?s" by (auto simp: turn_def Let_def split: loop_phase.split)
    with w show ?thesis by simp
  qed
qed

lemma turns_steps: "(istep h)\<^sup>*\<^sup>* s (fold (turn h) es s)"
  by (induction es arbitrary: s) (auto intro: rtranclp_trans turn_steps)

lemma turns_from_start:
  "phase s = Idle \<Longrightarrow> (istep h)\<^sup>*\<^sup>* s (fold (turn h) es (Start s))"
  by (meson converse_rtranclp_into_rtranclp i_start turns_steps)

text \<open>
  A small instance: the block of a file is its first byte, the database the list of blocks, its
  latest number the last of them; blocks 5 and 6 are due.
\<close>

definition demo_handler :: "(u64, u64 list) handler" where
  "demo_handler =
     \<lparr>BlockNumber = (\<lambda>db. (if db = [] then None else Some (last db), None)),
      InsertBlock = (\<lambda>db b. (None, db @ [b])),
      GetBlockByNumber = (\<lambda>db c n. Inr (GNum 1)), GetLogs = (\<lambda>db c a b. Inr (GNum 2)),
      UnmarshalBlock = (\<lambda>bs old. case bs of b # _ \<Rightarrow> (None, Some (ucast b)) | [] \<Rightarrow> (Some ''EOF'', old)),
      Height = id, ChainId_of = (\<lambda>_. 1)\<rparr>"

definition demo_cfg :: Config where
  "demo_cfg =
     \<lparr>KeepFiles = True, ForceReindex = False, RetryCountOnFailure = 1, SubFolderBatchSize = 10,
      GenesisBlock = 5, FromBlock = 0, ToBlock = 6, SourceFolder = ''src'', WaitForBlockMs = 0\<rparr>"

definition demo_indexer :: "u64 Indexer" where
  "demo_indexer =
     \<lparr>idx_c = demo_cfg\<lparr>FromBlock := 5\<rparr>,
      idx_s = \<lparr>currBlock = 5, subBlock = 0, batchSize = 10,
               filePath = block_path (sub_path demo_cfg 0) 5, subBlockPath = sub_path demo_cfg 0,
               retryCount = 0, started = False, cur_block = None, totalBlocksIndexed = 0\<rparr>,
      idx_b = False, idx_stopped = False\<rparr>"

definition demo_world :: "(string \<times> u8 list) list \<Rightarrow> u64 list \<Rightarrow> u64 list world" where
  "demo_world fs db = \<lparr>files = fs, dirs = [], dbh = db, heads = [], logs = []\<rparr>"

definition demo_isys :: "(u64, u64 list) isys" where
  "demo_isys =
     \<lparr>sys_i = demo_indexer, sys_w = demo_world [] [], phase = Idle, reads = [], inserted = []\<rparr>"

lemma demo_initial: "isys_initial demo_handler [] demo_cfg demo_isys"
  by (simp add: isys_initial_def New_def NewIndexer_def first_block_def demo_handler_def
      demo_isys_def demo_indexer_def demo_cfg_def Let_def)
     (simp add: sub_path_def)

abbreviation no_fault :: io where "no_fault \<equiv> \<lparr>fault = None, dir_fault = None\<rparr>"

definition demo_at ::
  "u64 \<Rightarrow> u64 option \<Rightarrow> u64 \<Rightarrow> u64 list \<Rightarrow> idx_state \<Rightarrow> (string \<times> u8 list) list \<Rightarrow>
     (u64 \<times> u64) list \<Rightarrow> (u64, u64 list) isys" where
  "demo_at n b k db st rds ins =
     \<lparr>sys_i = \<lparr>idx_c = demo_cfg\<lparr>FromBlock := 5\<rparr>,
        idx_s = \<lparr>currBlock = n, subBlock = 0, batchSize = 10,
                 filePath = block_path (sub_path demo_cfg 0) n, subBlockPath = sub_path demo_cfg 0,
                 retryCount = 0, started = True, cur_block = b, totalBlocksIndexed = k\<rparr>,
        idx_b = False, idx_stopped = False\<rparr>,
      sys_w = demo_world [] db, phase = Running st, reads = rds, inserted = ins\<rparr>"

abbreviation demo_file :: "u64 \<Rightarrow> u8 \<Rightarrow> (string \<times> u8 list) list" where
  "demo_file n b \<equiv> [(block_path (sub_path demo_cfg 0) n, [b])]"

lemma turn_running:
  "phase s = Running st \<Longrightarrow> run_state h f st (sys_i s) w = Ret (Some n, i', w') \<Longrightarrow>
     \<not> idx_stopped i' \<Longrightarrow>
     turn h (f, w) s = s\<lparr>sys_i := i', sys_w := w', phase := Running n,
       reads := reads s @ newly_read f st (Some n) (sys_i s) w,
       inserted := inserted s @ newly_inserted st (Some n) (sys_i s)\<rparr>"
  by (simp add: turn_def)

lemma demo_cfg_fields [simp]:
  "KeepFiles demo_cfg = True" "ForceReindex demo_cfg = False" "ToBlock demo_cfg = 6"
  "FromBlock demo_cfg = 0"
  by (simp_all add: demo_cfg_def)

lemma demo_read:
  "turn demo_handler (no_fault, demo_world (demo_file n b) db) (demo_at n None k db St_read rds ins) =
     (demo_at n (Some (ucast b)) k db St_insert (rds @ demo_file n b) ins)\<lparr>sys_w := demo_world (demo_file n b) db\<rparr>"
  by (subst turn_running [where st = St_read])
     (simp_all add: demo_at_def run_state_def read_state_def os_ReadFile_def demo_world_def
       evalError_def demo_handler_def newly_inserted_def newly_read_def, simp_all)

lemma demo_insert:
  "turn demo_handler (no_fault, demo_world [] db)
      ((demo_at n (Some b) k db St_insert rds ins)\<lparr>sys_w := w\<rparr>) =
     demo_at n (Some b) k (db @ [b]) St_publish rds (ins @ [(n, b)])"
  by (subst turn_running [where st = St_insert])
     (simp_all add: demo_at_def run_state_def insert_state_def demo_world_def evalError_def
       demo_handler_def newly_inserted_def newly_read_def, simp_all)

lemma demo_publish:
  "turn demo_handler (no_fault, demo_world [] db) (demo_at n (Some b) k db St_publish rds ins) =
     demo_at n (Some b) k db St_increment rds ins"
  by (subst turn_running [where st = St_publish])
     (simp_all add: demo_at_def run_state_def publish_state_def demo_world_def newly_inserted_def newly_read_def)

lemma demo_increment:
  "turn demo_handler (no_fault, demo_world [] db) (demo_at 5 (Some b) k db St_increment rds ins) =
     demo_at 6 None (k + 1) db St_read rds ins"
  by (subst turn_running [where st = St_increment])
     (simp_all add: demo_at_def run_state_def increment_state_def advance_def demo_world_def
       newly_inserted_def newly_read_def Let_def)

text \<open>The turns that index block 5 and then block 6, up to the last call of \<open>increment\<close>.\<close>

definition demo_turns :: "(io \<times> u64 list world) list" where
  "demo_turns =
     [(no_fault, demo_world (demo_file 5 5) []), (no_fault, demo_world [] []),
      (no_fault, demo_world [] [5]), (no_fault, demo_world [] [5]),
      (no_fault, demo_world (demo_file 6 6) [5]), (no_fault, demo_world [] [5]),
      (no_fault, demo_world [] [5, 6])]"

definition demo_final :: "(u64, u64 list) isys" where
  "demo_final = demo_at 6 (Some 6) 1 [5, 6] St_increment (demo_file 5 5 @ demo_file 6 6) [(5, 5), (6, 6)]"

lemma demo_started: "Start demo_isys = demo_at 5 None 0 [] St_read [] []"
  by (simp add: Start_def demo_isys_def demo_indexer_def demo_at_def set_started_def)

lemma demo_final_eq: "fold (turn demo_handler) demo_turns (Start demo_isys) = demo_final"
  by (simp add: demo_turns_def demo_started demo_read demo_insert demo_publish demo_increment
      demo_final_def)

lemma demo_final_reachable: "(istep demo_handler)\<^sup>*\<^sup>* demo_isys demo_final"
  unfolding demo_final_eq [symmetric] by (rule turns_from_start) (simp add: demo_isys_def)

section \<open>What the indexer promises\<close>

text \<open>
  C4. As long as re-indexing is off: whatever faults the reads, insertions and removals meet,
  however files and database change, whenever the indexer is started and closed, the numbers the
  indexer stands at when it inserts are consecutive, none skipped and none twice; they start at
  the configured first block, raised to the genesis block or to the successor of the latest block
  in the database; and with an upper bound, the indexer never passes it.  The block inserted at a
  number is the parse of a content that was read from that number's own file.  The code does not
  compare the \<open>Height\<close> in the file with the number (the next theorem shows a run that inserts
  another height); so it is under the condition that every content read from a number's file
  parses to a block of that height that the heights of the inserted blocks are consecutive.
\<close>

theorem indexer_inserts_in_order:
  assumes "isys_initial h db cfg s0" "\<not> ForceReindex cfg" "(istep h)\<^sup>*\<^sup>* s0 s"
  shows "let first = max (FromBlock cfg) (fst (first_block h db cfg));
      due = map (\<lambda>j. first + of_nat j) [0..<length (inserted s)]
    in map fst (inserted s) = due \<and>
      (\<forall>(n, b) \<in> set (inserted s). parsed_from h (reads s) (number_path cfg n) b) \<and>
      ((\<forall>n bs old b. (number_path cfg n, bs) \<in> set (reads s) \<longrightarrow>
          UnmarshalBlock h bs old = (None, Some b) \<longrightarrow> Height h b = n) \<longrightarrow>
         map (Height h \<circ> snd) (inserted s) = due) \<and>
      (0 < ToBlock cfg \<longrightarrow> currBlock (idx_s (sys_i s)) \<le> ToBlock cfg)"
proof -
  have order: "order_inv (idx_c (sys_i s0)) s"
    using assms by (rule order_reachable)
  note new = New_fields [OF assms(1)]
  have src: "\<forall>(n, b) \<in> set (inserted s). parsed_from h (reads s) (number_path cfg n) b"
    using source_reachable [OF assms] new by (simp add: source_inv_def)
  then have "map (Height h \<circ> snd) (inserted s) = map fst (inserted s)"
    if "\<forall>n bs old b. (number_path cfg n, bs) \<in> set (reads s) \<longrightarrow>
          UnmarshalBlock h bs old = (None, Some b) \<longrightarrow> Height h b = n"
    using that by (fastforce simp: parsed_from_def)
  with order src new show ?thesis
    unfolding Let_def by (simp add: order_inv_def order_core_def consecutive_from_def)
qed

lemma demo_final_reads:
  "(number_path demo_cfg n, bs) \<in> set (reads demo_final) \<longleftrightarrow> n = 5 \<and> bs = [5] \<or> n = 6 \<and> bs = [6]"
proof -
  have "block_path (sub_path demo_cfg 0) 5 = number_path demo_cfg 5"
       "block_path (sub_path demo_cfg 0) 6 = number_path demo_cfg 6"
    by (simp_all add: number_path_def demo_cfg_def)
  then show ?thesis by (auto simp: demo_final_def demo_at_def number_path_inj)
qed

theorem indexer_inserts_in_order_witness:
  "map (Height demo_handler \<circ> snd) (inserted demo_final) = [5, 6] \<and>
     parsed_from demo_handler (reads demo_final) (number_path demo_cfg 6) 6"
proof -
  have f: "first_block demo_handler [] demo_cfg = (5, False)"
    by (simp add: first_block_def demo_handler_def demo_cfg_def)
  have "\<forall>n bs old b. (number_path demo_cfg n, bs) \<in> set (reads demo_final) \<longrightarrow>
      UnmarshalBlock demo_handler bs old = (None, Some b) \<longrightarrow> Height demo_handler b = n"
    by (auto simp: demo_final_reads demo_handler_def)
  with indexer_inserts_in_order [OF demo_initial _ demo_final_reachable]
  show ?thesis
    unfolding Let_def f by (simp add: demo_final_def demo_at_def upt_rec)
qed

text \<open>
  The height in a file is not checked: when the file of block 5 holds the block 9, block 9 is
  inserted as the block after genesis.
\<close>

theorem indexer_height_unchecked:
  "\<exists>s. (istep demo_handler)\<^sup>*\<^sup>* demo_isys s \<and> inserted s = [(5, 9)] \<and>
     Height demo_handler 9 = 9 \<and> dbh (sys_w s) = [9]"
proof -
  let ?es = "[(no_fault, demo_world (demo_file 5 9) []), (no_fault, demo_world [] [])]"
  have "fold (turn demo_handler) ?es (Start demo_isys) =
      demo_at 5 (Some 9) 0 [9] St_publish (demo_file 5 9) [(5, 9)]"
    by (simp add: demo_started demo_read demo_insert)
  moreover have "(istep demo_handler)\<^sup>*\<^sup>* demo_isys (fold (turn demo_handler) ?es (Start demo_isys))"
    by (rule turns_from_start) (simp add: demo_isys_def)
  ultimately show ?thesis
    by (intro exI conjI) (assumption, simp_all add: demo_at_def demo_world_def demo_handler_def)
qed

text \<open>
  \<open>toBlock\<close> is inclusive: when the loop of an indexer with an upper bound, re-indexing off,
  leaves \<open>increment\<close> for \<open>stop\<close>, exactly the blocks from the first to the bound itself were
  inserted.
\<close>

theorem indexer_toBlock_inclusive:
  assumes "isys_initial h db cfg s0" "\<not> ForceReindex cfg" "0 < ToBlock cfg"
    and "(istep h)\<^sup>*\<^sup>* s0 s" "phase s = Running St_increment"
    and "run_state h f St_increment (sys_i s) (sys_w s) = Ret (Some St_stop, i', w')"
  shows "inserted s \<noteq> [] \<and> fst (last (inserted s)) = ToBlock cfg \<and>
    fst (hd (inserted s)) = max (FromBlock cfg) (fst (first_block h db cfg))"
proof -
  let ?c = "idx_c (sys_i s0)" and ?n = "length (inserted s)"
  have inv: "order_inv ?c s"
    using assms(1,2,4) by (rule order_reachable)
  note new = New_fields [OF assms(1)]
  have at: "at_block ?c (sys_i s) (inserted s) True"
    using inv assms(5) by (auto simp: order_inv_def agrees_def)
  have core: "order_core ?c (sys_i s) (inserted s)" using inv by (simp add: order_inv_def)
  then have con: "consecutive_from (FromBlock ?c) (map fst (inserted s))"
      "consistent (sys_i s)" "idx_c (sys_i s) = ?c" "currBlock (idx_s (sys_i s)) \<le> ToBlock ?c"
    using new assms(3) by (auto simp: order_core_def)
  have "increment_state h (sys_i s) (sys_w s) = Ret (St_stop, i', w')"
    using assms(6) by (auto simp: run_state_def Let_def bind_outcome_Ret_iff)
  from increment_state_moves [OF this con(2)] assms(2) con(3) new
  have "ToBlock cfg \<le> currBlock (idx_s (sys_i s))" by (auto split: if_splits)
  with con(4) new have cur: "currBlock (idx_s (sys_i s)) = ToBlock cfg" by simp
  have ne: "inserted s \<noteq> []" and sum: "ToBlock cfg + 1 = FromBlock ?c + of_nat ?n"
    using at cur by (auto simp: at_block_def)
  have nth: "fst (inserted s ! j) = FromBlock ?c + of_nat j" if "j < ?n" for j
  proof -
    have "fst (inserted s ! j) = map fst (inserted s) ! j" using that by simp
    also have "\<dots> = map (\<lambda>j. FromBlock ?c + of_nat j) [0..<?n] ! j"
      using con(1) unfolding consecutive_from_def by simp
    finally show ?thesis using that by simp
  qed
  have "fst (last (inserted s)) = FromBlock ?c + of_nat (?n - 1)"
    using nth [of "?n - 1"] ne by (simp add: last_conv_nth)
  also have "\<dots> = ToBlock cfg"
    using sum ne by (cases "inserted s") (auto simp: algebra_simps)
  finally show ?thesis
    using nth [of 0] ne new by (simp add: hd_conv_nth)
qed

theorem indexer_toBlock_inclusive_witness:
  "fst (last (inserted demo_final)) = ToBlock demo_cfg"
proof -
  have "\<exists>i'. run_state demo_handler no_fault St_increment (sys_i demo_final) (sys_w demo_final) =
      Ret (Some St_stop, i', sys_w demo_final)"
    by (simp add: run_state_def increment_state_def demo_final_def demo_at_def)
  moreover have "phase demo_final = Running St_increment"
    by (simp add: demo_final_def demo_at_def)
  ultimately show ?thesis
    using indexer_toBlock_inclusive [OF demo_initial _ _ demo_final_reachable] by auto
qed

end
