(* ===== verification/IndexerFaults.thy ===== *)
theory IndexerFaults
  imports IndexerRun
begin

text \<open>
  The indexer under faults: its paths, the retry budget of a block, the best-effort removal, the
  panics of \<open>stop\<close> and \<open>Close\<close>, and the configurations \<open>New\<close> accepts.
\<close>

section \<open>Paths\<close>

lemma consistent_total [simp]:
  "consistent (i\<lparr>idx_s := (idx_s i)\<lparr>totalBlocksIndexed := n\<rparr>\<rparr>) = consistent i"
  by (simp add: consistent_def)

lemma increment_state_consistent:
  assumes "increment_state h i w = Ret (next, i', w')" "consistent i"
  shows "consistent i'"
proof -
  have stop: "consistent (i\<lparr>idx_s := (idx_s i)\<lparr>totalBlocksIndexed := n\<rparr>\<rparr>)" for n
    using assms(2) by simp
  have bs: "batchSize (idx_s i) = ucast (SubFolderBatchSize (idx_c i))"
    using assms(2) by (simp add: consistent_def)
  let ?i = "i\<lparr>idx_s := (idx_s i)\<lparr>totalBlocksIndexed := totalBlocksIndexed (idx_s i) + 1\<rparr>\<rparr>"
  have jump: "consistent j"
    if "advance (?i\<lparr>idx_c := (idx_c ?i)\<lparr>ToBlock := 0\<rparr>, idx_s := (idx_s ?i)\<lparr>currBlock := n\<rparr>\<rparr>) = Ret j"
    for n j
    using advance_consistent [OF that] bs by simp
  have adv: "consistent j" if "advance ?i = Ret j" for j
    using advance_consistent [OF that] bs by simp
  show ?thesis
    using assms(1) stop jump adv
    unfolding increment_state_def Let_def
    by (auto simp: bind_outcome_Ret_iff split: if_splits option.splits prod.splits)
qed

lemma run_state_consistent:
  assumes "run_state h f st i w = Ret (next, i', w')" "consistent i"
  shows "consistent i'"
proof (cases "st = St_increment")
  case True
  with assms(1) obtain n where "increment_state h i w = Ret (n, i', w')"
    by (auto simp: run_state_def Let_def bind_outcome_Ret_iff)
  from increment_state_consistent [OF this assms(2)] show ?thesis .
next
  case False
  have "same_position i i' \<or> i' = i\<lparr>idx_stopped := True\<rparr>"
    using assms(1) False
  proof (cases st)
    case St_read
    obtain n j v where f: "read_state h f i w = (n, j, v)" by (cases "read_state h f i w")
    with assms(1) St_read have "i' = j" by (simp add: run_state_def Let_def)
    with read_state_keeps [OF f] show ?thesis by simp
  next
    case St_insert
    with assms(1) insert_state_keeps [of h i w] show ?thesis
      by (auto simp: run_state_def Let_def bind_outcome_Ret_iff)
  next
    case St_publish
    with assms(1) publish_state_keeps [of h i w] show ?thesis
      by (fastforce simp: run_state_def Let_def bind_outcome_Ret_iff)
  next
    case St_removeFile
    obtain n j v where f: "removeFile_state f i w = (n, j, v)" by (cases "removeFile_state f i w")
    with assms(1) St_removeFile have "i' = j" by (simp add: run_state_def Let_def)
    with removeFile_state_keeps [OF f] show ?thesis by simp
  next
    case St_removeFolder
    obtain n j v where f: "removeFolder_state f i w = (n, j, v)" by (cases "removeFolder_state f i w")
    with assms(1) St_removeFolder have "i' = j" by (simp add: run_state_def Let_def)
    with removeFolder_state_keeps [OF f] show ?thesis by simp
  next
    case St_stop
    with assms(1) stop_state_keeps [of h i w] show ?thesis
      by (auto simp: run_state_def Let_def bind_outcome_Ret_iff)
  qed simp
  then show ?thesis
    using assms(2) consistent_same_position by (auto simp: consistent_def)
qed

lemma consistent_step: "istep h s t \<Longrightarrow> consistent (sys_i s) \<Longrightarrow> consistent (sys_i t)"
proof (induction rule: istep.induct)
  case (i_run s st f "next" i' w')
  then show ?case using run_state_consistent by fastforce
next
  case (i_close s s')
  then show ?case
    using stop_state_keeps
    by (auto simp: CloseIndexer_def bind_outcome_Ret_iff consistent_def split: if_splits
        dest!: stop_state_keeps)
qed (simp_all add: Start_def)

interpretation indexer_paths: transition_system
  "\<lambda>s. \<exists>db cfg. isys_initial h db cfg s" "istep h" "\<lambda>s. consistent (sys_i s)" for h
proof
  fix s assume "\<exists>db cfg. isys_initial h db cfg s"
  then obtain db cfg where "isys_initial h db cfg s" by blast
  from New_fields [OF this] show "consistent (sys_i s)" by simp
qed (rule consistent_step)

lemma unat_ucast_u16: "unat (ucast (x :: u16) :: u64) = unat x"
proof -
  have "unat x < 2 ^ 64"
    using unsigned_less [of x] by (rule order.strict_trans2) simp
  then show ?thesis by (simp add: unsigned_ucast_eq take_bit_nat_eq_self)
qed

lemma unat_batch: "unat (n div b * b :: u64) = unat n div unat b * unat b"
proof -
  have "unat (n div b) * unat b \<le> unat n"
    by (simp add: unat_div)
  then have "unat (n div b) * unat b < 2 ^ LENGTH(64)"
    using unsigned_less [of n] by (rule order.strict_trans1)
  then show ?thesis
    using unat_mult_lem [of "n div b" b] by (simp add: unat_div)
qed

lemma batch_bounds:
  fixes n b :: u64
  assumes "b \<noteq> 0"
  shows "unat (n div b * b) \<le> unat n \<and> unat n < unat (n div b * b) + unat b"
proof -
  have "unat n mod unat b < unat b"
    using assms by (simp add: unat_gt_0)
  then show ?thesis
    using div_mult_mod_eq [of "unat n" "unat b"] unfolding unat_batch by linarith
qed

text \<open>
  C21. The position of the indexer is always consistent, also while re-indexing: the file to read
  is named after the current block, it lies in the folder named after a multiple of the batch
  size, the current block lies in that folder's range, and the retry count is within its limit.
\<close>

theorem indexer_position_consistent:
  assumes "isys_initial h db cfg s0" "(istep h)\<^sup>*\<^sup>* s0 s"
  shows "let i = idx_s (sys_i s); c = idx_c (sys_i s); b = unat (SubFolderBatchSize c) in
    filePath i = Join [Join [SourceFolder c, dec (unat (subBlock i))], dec (unat (currBlock i)) @ ''.json''] \<and>
    Base (filePath i) = dec (unat (currBlock i)) @ ''.json'' \<and>
    b dvd unat (subBlock i) \<and> unat (subBlock i) \<le> unat (currBlock i) \<and>
    unat (currBlock i) < unat (subBlock i) + b \<and>
    retryCount i \<le> RetryCountOnFailure c"
proof -
  let ?i = "idx_s (sys_i s)" and ?c = "idx_c (sys_i s)"
  have c: "consistent (sys_i s)"
    by (rule indexer_paths.reachable_inv [OF _ assms(2)]) (use assms(1) in blast)
  have b: "unat (batchSize ?i) = unat (SubFolderBatchSize ?c)" "batchSize ?i \<noteq> 0"
    using c by (auto simp: consistent_def unat_ucast_u16)
  have "plain_name (dec n @ CHR ''.'' # CHR ''j'' # ''son'')" for n
    using plain_dec_ext [of "''son''"] by simp
  then have base: "Base (filePath ?i) = dec (unat (currBlock ?i)) @ ''.json''"
    using c by (simp add: consistent_def block_path_def Base_Join del: Join.simps)
  have sub: "subBlock ?i = currBlock ?i div batchSize ?i * batchSize ?i"
    using c by (simp add: consistent_def)
  have "unat (batchSize ?i) dvd unat (subBlock ?i)"
    by (simp add: sub unat_batch)
  with batch_bounds [OF b(2), of "currBlock ?i"] base c b(1) show ?thesis
    by (simp add: consistent_def sub_path_def block_path_def Let_def del: Join.simps)
qed

theorem indexer_position_consistent_witness:
  "Base (filePath (idx_s (sys_i demo_final))) = dec 6 @ ''.json''"
  using indexer_position_consistent [OF demo_initial demo_final_reachable]
  unfolding Let_def by (elim conjE) (simp add: demo_final_def demo_at_def)

section \<open>Walks\<close>

text \<open>
  The calls of the loop one after the other, each in a world and with faults of its own; the
  result is the function the loop would call next (\<open>None\<close> after \<open>stop\<close>).
\<close>

fun walk ::
  "('b, 'db) handler \<Rightarrow> (io \<times> 'db world) list \<Rightarrow> idx_state \<Rightarrow> 'b Indexer \<Rightarrow>
     (idx_state option \<times> 'b Indexer) outcome" where
  "walk h [] st i = Ret (Some st, i)"
| "walk h ((f, w) # es) st i =
     bind_outcome (run_state h f st i w) (\<lambda>(next, i', w').
       case next of None \<Rightarrow> Ret (None, i') | Some n \<Rightarrow> walk h es n i')"

text \<open>How many more failures the current block may meet before a function gives up.\<close>

definition budget :: "'b Indexer \<Rightarrow> nat" where
  "budget i = unat (RetryCountOnFailure (idx_c i)) - unat (retryCount (idx_s i))"

lemma budget_block [simp]: "budget (i\<lparr>idx_s := (idx_s i)\<lparr>cur_block := b\<rparr>\<rparr>) = budget i"
  by (simp add: budget_def)

lemma evalError_budget:
  obtains (ok) "\<not> failed" "evalError i failed a b = (None, i)"
  | (retry) j where "failed" "evalError i failed a b = (Some a, j)" "budget i = Suc (budget j)"
      "same_position i j"
  | (giveup) "failed" "evalError i failed a b = (Some b, i)" "budget i = 0"
proof (cases rule: evalError_cases [of failed i a b])
  case ok
  then show ?thesis by (rule that(1))
next
  case retry
  let ?r = "retryCount (idx_s i)" and ?m = "RetryCountOnFailure (idx_c i)"
  have "?r + 1 \<noteq> 0"
  proof
    assume "?r + 1 = 0"
    then have "?r = - 1" by (simp add: eq_neg_iff_add_eq_0)
    with retry(2) show False using word_order.extremum_strict by metis
  qed
  then have "unat (?r + 1) = Suc (unat ?r)" "unat ?r < unat ?m"
    using retry(2) unatSuc [of ?r] by (auto simp: add.commute word_less_nat_alt)
  then have "budget i = Suc (budget (i\<lparr>idx_s := (idx_s i)\<lparr>retryCount := ?r + 1\<rparr>\<rparr>))"
    by (simp add: budget_def)
  with retry that(2) show ?thesis by simp
next
  case giveup
  with that(3) show ?thesis by (simp add: budget_def word_less_nat_alt)
qed

section \<open>The retry budget\<close>

text \<open>The call fails: an error of the read (other than a missing file), the parse or the insertion.\<close>

definition call_fails ::
  "('b, 'db) handler \<Rightarrow> io \<Rightarrow> idx_state \<Rightarrow> 'b Indexer \<Rightarrow> 'db world \<Rightarrow> bool" where
  "call_fails h f st i w =
     (case st of
        St_read \<Rightarrow>
          (case os_ReadFile (fault f) w (filePath (idx_s i)) of
             Inl OsNotExist \<Rightarrow> False
           | Inl (OsError e) \<Rightarrow> True
           | Inr bs \<Rightarrow> fst (UnmarshalBlock h bs (cur_block (idx_s i))) \<noteq> None)
      | St_insert \<Rightarrow>
          (case cur_block (idx_s i) of None \<Rightarrow> False | Some b \<Rightarrow> fst (InsertBlock h (dbh w) b) \<noteq> None)
      | _ \<Rightarrow> False)"

fun failures ::
  "('b, 'db) handler \<Rightarrow> (io \<times> 'db world) list \<Rightarrow> idx_state \<Rightarrow> 'b Indexer \<Rightarrow> nat" where
  "failures h [] st i = 0"
| "failures h ((f, w) # es) st i =
     of_bool (call_fails h f st i w) +
     (case run_state h f st i w of Ret (Some n, i', _) \<Rightarrow> failures h es n i' | _ \<Rightarrow> 0)"

text \<open>All calls of the walk are of \<open>read\<close> and \<open>insert\<close>.\<close>

fun inserting ::
  "('b, 'db) handler \<Rightarrow> (io \<times> 'db world) list \<Rightarrow> idx_state \<Rightarrow> 'b Indexer \<Rightarrow> bool" where
  "inserting h [] st i = True"
| "inserting h ((f, w) # es) st i =
     (st \<in> {St_read, St_insert} \<and>
      (case run_state h f st i w of Ret (Some n, i', _) \<Rightarrow> inserting h es n i' | _ \<Rightarrow> False))"

lemma call_budget:
  assumes "st \<in> {St_read, St_insert}" "run_state h f st i w = Ret (Some n, j, v)"
  shows "if call_fails h f st i w
    then (n = St_stop \<and> budget i = 0) \<or> (n = st \<and> budget i = Suc (budget j))
    else n \<noteq> St_stop \<and> budget j = budget i"
proof (cases "st = St_read")
  case True
  then have r: "read_state h f i w = (n, j, v)"
    using assms(2) by (cases "read_state h f i w") (simp add: run_state_def Let_def)
  show ?thesis
  proof (cases "os_ReadFile (fault f) w (filePath (idx_s i))")
    case (Inl e)
    show ?thesis
    proof (cases e)
      case OsNotExist
      with r Inl True show ?thesis by (auto simp: read_state_def call_fails_def)
    next
      case (OsError m)
      with r Inl True show ?thesis
        by (cases rule: evalError_budget [of True i St_read St_stop])
           (auto simp: read_state_def call_fails_def Let_def)
    qed
  next
    case (Inr bs)
    obtain e b where u: "UnmarshalBlock h bs (cur_block (idx_s i)) = (e, b)"
      by (cases "UnmarshalBlock h bs (cur_block (idx_s i))")
    let ?i = "i\<lparr>idx_s := (idx_s i)\<lparr>cur_block := b\<rparr>\<rparr>"
    have "evalError i False St_read St_stop = (None, i)" by (simp add: evalError_def)
    with r Inr u True show ?thesis
      by (cases rule: evalError_budget [of "e \<noteq> None" ?i St_read St_stop])
         (auto simp: read_state_def call_fails_def Let_def)
  qed
next
  case False
  then have st: "st = St_insert" using assms(1) by simp
  with assms(2) have r: "insert_state h i w = Ret (n, j, v)"
    by (auto simp: run_state_def Let_def bind_outcome_Ret_iff)
  then obtain b where b: "cur_block (idx_s i) = Some b"
    by (auto simp: insert_state_def split: option.splits)
  obtain e db where ins: "InsertBlock h (dbh w) b = (e, db)" by (cases "InsertBlock h (dbh w) b")
  from r b ins st show ?thesis
    by (cases rule: evalError_budget [of "e \<noteq> None" i St_insert St_stop])
       (auto simp: insert_state_def call_fails_def Let_def)
qed

lemma call_fails_settled: "st \<notin> {St_read, St_insert} \<Longrightarrow> \<not> call_fails h f st i w"
  by (cases st) (auto simp: call_fails_def)

lemma failures_budget:
  assumes "inserting h es st i" "walk h es st i = Ret (Some g, j)" "st \<noteq> St_stop"
  shows "if g = St_stop then failures h es st i = budget i + 1 else failures h es st i \<le> budget i"
  using assms
proof (induction es arbitrary: st i)
  case Nil
  then show ?case by simp
next
  case (Cons e es)
  obtain f w where e: "e = (f, w)" by (cases e)
  obtain n i' v where run: "run_state h f st i w = Ret (Some n, i', v)" "inserting h es n i'"
      and st: "st \<in> {St_read, St_insert}"
    using Cons.prems(1) by (auto simp: e split: outcome.splits prod.splits option.splits)
  have walk: "walk h es n i' = Ret (Some g, j)"
    using Cons.prems(2) run(1) by (simp add: e)
  note step = call_budget [OF st run(1)]
  show ?case
  proof (cases "n = St_stop")
    case True
    have "es = []"
      using run(2) True by (cases es) auto
    with walk True step run(1) Cons.prems(3) show ?thesis by (auto simp: e split: if_splits)
  next
    case False
    from Cons.IH [OF run(2) walk False] step False run(1) show ?thesis
      by (auto simp: e split: if_splits)
  qed
qed

text \<open>
  C22. One retry budget per block: while a block is read, parsed and inserted, the indexer gives
  up (its next function is \<open>stop\<close>) exactly when the failures of all three together exceed the
  configured number, and never later; waiting for a missing file costs nothing.
\<close>

theorem indexer_retry_budget:
  assumes "retryCount (idx_s i) = 0"
    and "inserting h es St_read i" "walk h es St_read i = Ret (Some g, j)"
  shows "(g = St_stop \<longleftrightarrow> failures h es St_read i > unat (RetryCountOnFailure (idx_c i))) \<and>
    failures h es St_read i \<le> unat (RetryCountOnFailure (idx_c i)) + 1"
  using failures_budget [OF assms(2,3)] assms(1) by (auto simp: budget_def split: if_splits)

text \<open>A read error, then a parse error, with one retry configured.\<close>

definition demo_failing :: "(io \<times> u64 list world) list" where
  "demo_failing =
     [(\<lparr>fault = Some ''io'', dir_fault = None\<rparr>, demo_world [] []), (no_fault, demo_world [] []),
      (no_fault, demo_world [(block_path (sub_path demo_cfg 0) 5, [])] [])]"

lemma demo_failing_run:
  "inserting demo_handler demo_failing St_read demo_indexer"
  "\<exists>j. walk demo_handler demo_failing St_read demo_indexer = Ret (Some St_stop, j)"
  by (simp_all add: demo_failing_def run_state_def read_state_def os_ReadFile_def demo_world_def
      demo_indexer_def demo_handler_def evalError_def demo_cfg_def sub_path_def)

theorem indexer_retry_budget_witness:
  "failures demo_handler demo_failing St_read demo_indexer > 1"
proof -
  obtain j where "walk demo_handler demo_failing St_read demo_indexer = Ret (Some St_stop, j)"
    using demo_failing_run(2) by blast
  from indexer_retry_budget [OF _ demo_failing_run(1) this] show ?thesis
    by (simp add: demo_indexer_def demo_cfg_def)
qed

section \<open>Best-effort removal\<close>

lemma removal_step:
  assumes "st \<in> {St_removeFile, St_removeFolder}"
  shows "\<exists>n j v. run_state h f st i w = Ret (Some n, j, v) \<and> same_position i j \<and>
    (n = St_increment \<or> (n = st \<and> budget i = Suc (budget j)) \<or>
     (st = St_removeFile \<and> n = St_removeFolder \<and> j = i))"
proof (cases "st = St_removeFile")
  case True
  obtain n j v where r: "removeFile_state f i w = (n, j, v)" by (cases "removeFile_state f i w")
  obtain e w' where o: "os_Remove (fault f) w (filePath (idx_s i)) = (e, w')"
    by (cases "os_Remove (fault f) w (filePath (idx_s i))")
  have "n = St_increment \<or> (n = St_removeFile \<and> budget i = Suc (budget j)) \<or>
      (n = St_removeFolder \<and> j = i)"
    using r o by (cases rule: evalError_budget [of "e \<noteq> None" i St_removeFile St_increment])
      (auto simp: removeFile_state_def split: if_splits)
  with r removeFile_state_keeps [OF r] True show ?thesis by (auto simp: run_state_def)
next
  case False
  then have st: "st = St_removeFolder" using assms by simp
  obtain n j v where r: "removeFolder_state f i w = (n, j, v)" by (cases "removeFolder_state f i w")
  obtain e w' where o: "os_Remove (fault f) w (subBlockPath (idx_s i)) = (e, w')"
    by (cases "os_Remove (fault f) w (subBlockPath (idx_s i))")
  have "n = St_increment \<or> (n = St_removeFolder \<and> budget i = Suc (budget j))"
    using r o by (cases rule: evalError_budget [of "e \<noteq> None" i St_removeFolder St_increment])
      (auto simp: removeFolder_state_def)
  with r removeFolder_state_keeps [OF r] st show ?thesis by (auto simp: run_state_def)
qed

lemma removal_ends:
  assumes "st \<in> {St_removeFile, St_removeFolder}"
    and "budget i + (if st = St_removeFile then 2 else 1) \<le> length es"
  shows "\<exists>k j. k \<le> budget i + (if st = St_removeFile then 2 else 1) \<and>
    walk h (take k es) st i = Ret (Some St_increment, j) \<and> same_position i j"
  using assms
proof (induction es arbitrary: st i)
  case (Cons e es)
  obtain f w where e: "e = (f, w)" by (cases e)
  obtain n j v where run: "run_state h f st i w = Ret (Some n, j, v)" "same_position i j"
    and n: "n = St_increment \<or> (n = st \<and> budget i = Suc (budget j)) \<or>
      (st = St_removeFile \<and> n = St_removeFolder \<and> j = i)"
    using removal_step [OF Cons.prems(1)] by blast
  show ?case
  proof (cases "n = St_increment")
    case True
    with run show ?thesis by (intro exI [of _ 1] exI [of _ j]) (auto simp: e)
  next
    case False
    then have n': "n \<in> {St_removeFile, St_removeFolder}"
        "budget j + (if n = St_removeFile then 2 else 1) <
         budget i + (if st = St_removeFile then 2 else 1)"
      using n Cons.prems(1) by auto
    then obtain k j' where "k \<le> budget j + (if n = St_removeFile then 2 else 1)"
        "walk h (take k es) n j = Ret (Some St_increment, j')" "same_position j j'"
      using Cons.IH [of n j] Cons.prems(2) by fastforce
    with run n' show ?thesis
      using same_position_trans [of i j j']
      by (intro exI [of _ "Suc k"] exI [of _ j']) (auto simp: e)
  qed
qed (auto split: if_splits)

text \<open>
  C23. Removal is best effort and never holds up the indexer: whatever the removals of the file
  and of its folder meet, in whatever state of the file system, \<open>increment\<close> comes after at most
  as many calls as the retry limit plus two, with the position unchanged.
\<close>

theorem indexer_removal_ends:
  assumes "unat (RetryCountOnFailure (idx_c i)) + 2 \<le> length es"
  shows "\<exists>k j. k \<le> unat (RetryCountOnFailure (idx_c i)) + 2 \<and>
    walk h (take k es) St_removeFile i = Ret (Some St_increment, j) \<and> same_position i j"
proof -
  have "budget i \<le> unat (RetryCountOnFailure (idx_c i))" by (simp add: budget_def)
  moreover from this assms have "budget i + 2 \<le> length es" by simp
  then obtain k j where "k \<le> budget i + 2"
      "walk h (take k es) St_removeFile i = Ret (Some St_increment, j)" "same_position i j"
    using removal_ends [of St_removeFile i es h] by auto
  ultimately show ?thesis by (intro exI [of _ k] exI [of _ j]) simp
qed

theorem indexer_removal_ends_witness:
  "\<exists>k j. walk demo_handler (take k (replicate 3 (no_fault, demo_world [] []))) St_removeFile
     demo_indexer = Ret (Some St_increment, j)"
proof -
  have "unat (RetryCountOnFailure (idx_c demo_indexer)) + 2 \<le>
      length (replicate 3 (no_fault, demo_world [] []))"
    by (simp add: demo_indexer_def demo_cfg_def)
  from indexer_removal_ends [OF this, of demo_handler] show ?thesis by blast
qed

section \<open>Stopping\<close>

lemma failing_read:
  "fault f = Some e \<Longrightarrow> evalError i True St_read St_stop = (Some n, j) \<Longrightarrow>
     run_state h f St_read i w = Ret (Some n, j, w)"
  by (simp add: run_state_def read_state_def os_ReadFile_def)

lemma failing_reads:
  assumes "fault f = Some e"
  shows "budget i = n \<Longrightarrow>
    \<exists>j. walk h (replicate (Suc n) (f, w)) St_read i = Ret (Some St_stop, j) \<and> same_position i j"
proof (induction n arbitrary: i)
  case 0
  show ?case
  proof (cases rule: evalError_budget [of True i St_read St_stop])
    case giveup
    from failing_read [OF assms giveup(2), of h w] show ?thesis by simp
  qed (use 0 in simp_all)
next
  case (Suc n)
  show ?case
  proof (cases rule: evalError_budget [of True i St_read St_stop])
    case (retry j)
    with Suc.prems have "budget j = n" by simp
    from Suc.IH [OF this] obtain j' where
      "walk h (replicate (Suc n) (f, w)) St_read j = Ret (Some St_stop, j')" "same_position j j'"
      by blast
    with failing_read [OF assms retry(2), of h w] same_position_trans [OF retry(4)]
    show ?thesis by simp
  qed (use Suc.prems in simp_all)
qed

lemma walk_append:
  "walk h es st i = Ret (Some n, j) \<Longrightarrow> walk h (es @ es') st i = walk h es' n j"
  by (induction h es st i rule: walk.induct)
     (auto simp: bind_outcome_Ret_iff split: option.splits prod.splits)

text \<open>
  Giving up on the first block of an empty database is a crash, not a stop: when reading
  keeps failing and the database reports no latest block, the loop calls \<open>stop\<close> after the last
  retry, and \<open>stop\<close> dereferences the missing number.
\<close>

theorem indexer_stop_crashes_without_blocks:
  assumes "fault f = Some e" "retryCount (idx_s i) = 0"
    and "fst (BlockNumber h (dbh w)) = None"
  shows "walk h (replicate (unat (RetryCountOnFailure (idx_c i)) + 2) (f, w)) St_read i = Panic NilDeref"
proof -
  have "budget i = unat (RetryCountOnFailure (idx_c i))" using assms(2) by (simp add: budget_def)
  from failing_reads [OF assms(1) this, of h w] obtain j where
    "walk h (replicate (Suc (unat (RetryCountOnFailure (idx_c i)))) (f, w)) St_read i =
       Ret (Some St_stop, j)" by blast
  from walk_append [OF this, of "[(f, w)]"] assms(3) show ?thesis
    by (simp add: run_state_def stop_state_def replicate_append_same)
qed

theorem indexer_stop_crashes_without_blocks_witness:
  "walk demo_handler (replicate 3 (\<lparr>fault = Some ''io'', dir_fault = None\<rparr>, demo_world [] []))
     St_read demo_indexer = Panic NilDeref"
proof -
  have "fault \<lparr>fault = Some ''io'', dir_fault = None\<rparr> = Some ''io''"
      "retryCount (idx_s demo_indexer) = 0" "fst (BlockNumber demo_handler (dbh (demo_world [] []))) = None"
    by (simp_all add: demo_indexer_def demo_handler_def demo_world_def)
  from indexer_stop_crashes_without_blocks [OF this] show ?thesis
    by (simp add: demo_indexer_def demo_cfg_def eval_nat_numeral)
qed

text \<open>
  A second \<open>Close\<close> crashes: after a \<open>Close\<close> of a started indexer that returned, and until
  the loop has noticed it and cleared \<open>started\<close>, another \<open>Close\<close> closes the closed channel.
\<close>

theorem indexer_second_Close_crashes:
  assumes "started (idx_s (sys_i s))" "CloseIndexer h s = Ret t"
  shows "CloseIndexer h t = Panic CloseOfClosed \<and> istep h t (t\<lparr>phase := Crashed CloseOfClosed\<rparr>)"
proof -
  obtain i where i: "stop_state h (sys_i s) (sys_w s) = Ret i" "t = s\<lparr>sys_i := i\<rparr>"
    using assms by (auto simp: CloseIndexer_def bind_outcome_Ret_iff)
  have "CloseIndexer h t = Panic CloseOfClosed"
    using i(1) stop_state_keeps [OF i(1)] assms(1)
    by (auto simp: CloseIndexer_def i(2) stop_state_def split: option.splits if_splits)
  with i_close_panic [OF this] show ?thesis by simp
qed

theorem indexer_second_Close_crashes_witness:
  "\<exists>t. CloseIndexer demo_handler demo_final = Ret t \<and> CloseIndexer demo_handler t = Panic CloseOfClosed"
proof -
  have "started (idx_s (sys_i demo_final))" by (simp add: demo_final_def demo_at_def)
  moreover have "\<exists>t. CloseIndexer demo_handler demo_final = Ret t"
    by (simp add: CloseIndexer_def demo_final_def demo_at_def stop_state_def demo_handler_def
        demo_world_def)
  ultimately show ?thesis using indexer_second_Close_crashes by blast
qed

section \<open>Configurations\<close>

text \<open>
  C34. \<open>New\<close> on every configuration: it starts at the larger of the configured first block and the
  block that follows from genesis and database; it refuses exactly the configurations with an
  upper bound not above that block; of the others it crashes on a batch size of 0, and it
  returns an indexer for the rest.
\<close>

theorem indexer_New_spec:
  "let first = max (FromBlock cfg) (fst (first_block h db cfg));
       refused = (0 < ToBlock cfg \<and> ToBlock cfg \<le> first)
   in ((\<exists>e. NewIndexer h db cfg = Ret (Inl e)) \<longleftrightarrow> refused) \<and>
      (NewIndexer h db cfg = Panic k \<longleftrightarrow>
         k = DivideByZero \<and> \<not> refused \<and> SubFolderBatchSize cfg = 0) \<and>
      ((\<exists>i. NewIndexer h db cfg = Ret (Inr i) \<and> currBlock (idx_s i) = first \<and> consistent i) \<longleftrightarrow>
         \<not> refused \<and> SubFolderBatchSize cfg \<noteq> 0)"
proof -
  obtain n u where f: "first_block h db cfg = (n, u)" by (cases "first_block h db cfg")
  let ?first = "max (FromBlock cfg) n"
  have bs: "(ucast (SubFolderBatchSize cfg) :: u64) = 0 \<longleftrightarrow> SubFolderBatchSize cfg = 0"
    by (metis unat_ucast_u16 unat_eq_zero)
  show ?thesis
  proof (cases "0 < ToBlock cfg \<and> ToBlock cfg \<le> ?first")
    case True
    then show ?thesis
      by (cases "FromBlock cfg < n") (auto simp: NewIndexer_def f Let_def max_def less_imp_le)
  next
    case False
    show ?thesis
    proof (cases "SubFolderBatchSize cfg = 0")
      case True
      with False show ?thesis
        by (cases "FromBlock cfg < n") (auto simp: NewIndexer_def f Let_def max_def less_imp_le)
    next
      case nz: False
      with False have "\<exists>i. NewIndexer h db cfg = Ret (Inr i)"
        by (cases "FromBlock cfg < n") (auto simp: NewIndexer_def f Let_def bs max_def less_imp_le)
      then obtain i where i: "NewIndexer h db cfg = Ret (Inr i)" by blast
      from NewIndexer_fields [OF this] f False nz i show ?thesis by (auto simp: Let_def)
    qed
  qed
qed

end
