(* ===== verification/Account.thy ===== *)
theory Account
  imports TxnEval
begin

text \<open>
  \<open>account/account.go\<close>: the construction of the account, the view calls on the engine contract
  with their error mapping, and \<open>SendRawTransaction\<close> over the transaction processor.  The NEAR
  client, the response types of the engine and the error types of \<open>relayer2-base\<close> are libraries:
  \<open>account_api\<close> extends the client of theory \<open>NonceCache\<close> by what this file calls.
\<close>

section \<open>Errors and the client\<close>

text \<open>The error types the account returns; \<open>PlainError\<close> is any other error value.\<close>

datatype rpc_error =
    GenericError error
  | InvalidParamsError error
  | TxsStatusError error
  | PlainError error

record account_api = near_api +
  archival_ViewFunction :: "string \<Rightarrow> string \<Rightarrow> u8 list \<Rightarrow> int option \<Rightarrow> error + goval"
  ToStringResponse :: "goval \<Rightarrow> rpc_error + string"
  NewTransactionStatus :: "goval \<Rightarrow> rpc_error + goval"
  TransactionStatus_ToResponse :: "goval \<Rightarrow> rpc_error + string"
  NewSubmitStatus :: "goval \<Rightarrow> string \<Rightarrow> error + goval"
  SubmitStatus_ToResponse :: "goval \<Rightarrow> rpc_error + string"
  error_text :: "rpc_error \<Rightarrow> error"
  ZeroUint256 :: nat
  Response0x :: string
  ZeroStrUint256 :: string

definition beforeGenesisError :: string where "beforeGenesisError = ''DB Not Found Error''"

definition beforeAuroraError :: string where "beforeAuroraError = ''does not exist while viewing''"

definition tooManyRequestsError :: string where "tooManyRequestsError = ''429''"

section \<open>Construction\<close>

record near_Config =
  cfg_NetworkID :: string
  cfg_NodeURL :: string
  cfg_FunctionKeyPrefixPattern :: string
  cfg_KeyPath :: string

text \<open>An account of the NEAR client and its verified access keys.\<close>

record 'acc near_lib =
  LoadAccount :: "string \<Rightarrow> near_Config \<Rightarrow> string \<Rightarrow> error + 'acc"
  GetVerifiedAccessKeys :: "'acc \<Rightarrow> string list"

record 'acc Account =
  acc_config :: EngineConfig
  nearArchivalAccount :: 'acc
  nearAccount :: 'acc
  txnProcessor :: proc

definition near_config :: "EngineConfig \<Rightarrow> string \<Rightarrow> near_Config" where
  "near_config config url =
     \<lparr>cfg_NetworkID = NearNetworkID config, cfg_NodeURL = url,
      cfg_FunctionKeyPrefixPattern = FunctionKeyPrefixPattern config,
      cfg_KeyPath = (if SignerKey config \<noteq> [] then SignerKey config else [])\<rparr>"

definition NewAccount :: "'acc near_lib \<Rightarrow> EngineConfig \<Rightarrow> error + 'acc Account" where
  "NewAccount lib config =
     (if NearNetworkID config = [] \<or> NearNodeURL config = [] \<or> Signer config = [] then
        Inl ''one or more Near configuration is missing, please check [nearNetworkID], [NearNodeURL], [signer] under `endpoint->engine` in config file''
      else
        (let archivalCfg = near_config config (NearArchivalNodeURL config)
         in case LoadAccount lib (cfg_NodeURL archivalCfg) archivalCfg (Signer config) of
              Inl e \<Rightarrow> Inl (''failed to load Near account from path: ['' @ cfg_KeyPath archivalCfg @ '']'')
            | Inr archival \<Rightarrow>
                (let nearCfg = near_config config (NearNodeURL config)
                 in case LoadAccount lib (cfg_NodeURL nearCfg) nearCfg (Signer config) of
                      Inl e \<Rightarrow> Inl (''failed to load Near account from path: ['' @ cfg_KeyPath nearCfg @ '']'')
                    | Inr acc \<Rightarrow>
                        Inr \<lparr>acc_config = config, nearArchivalAccount = archival, nearAccount = acc,
                             txnProcessor = NewTxnProcessor config (GetVerifiedAccessKeys lib archival)\<rparr>)))"

section \<open>View calls\<close>

definition view_engine ::
  "'m account_api_scheme \<Rightarrow> bool \<Rightarrow> string \<Rightarrow> u8 list \<Rightarrow> int option \<Rightarrow> error + goval" where
  "view_engine api fromArchival fn args bn =
     (if fromArchival then archival_ViewFunction api (AccountId api) fn args bn
      else ViewFunction api (AccountId api) fn args bn)"

definition getStringResultFromEngineResponse ::
  "'m account_api_scheme \<Rightarrow> goval \<Rightarrow> rpc_error + string" where
  "getStringResultFromEngineResponse api r =
     (case NewQueryResult api r of
        Inl e \<Rightarrow> Inl (GenericError e)
      | Inr engineResult \<Rightarrow> ToStringResponse api engineResult)"

definition getCallResultFromEngineResponse ::
  "'m account_api_scheme \<Rightarrow> goval \<Rightarrow> rpc_error + string" where
  "getCallResultFromEngineResponse api r =
     (case NewTransactionStatus api r of
        Inl e \<Rightarrow>
          (case e of TxsStatusError m \<Rightarrow> Inl e | _ \<Rightarrow> Inl (GenericError (error_text api e)))
      | Inr st \<Rightarrow> TransactionStatus_ToResponse api st)"

definition getUint256ResultFromEngineResponse ::
  "'m account_api_scheme \<Rightarrow> goval \<Rightarrow> rpc_error + nat" where
  "getUint256ResultFromEngineResponse api r =
     (case NewQueryResult api r of
        Inl e \<Rightarrow> Inl (GenericError e)
      | Inr engineResult \<Rightarrow> map_sum PlainError id (ToUint256Response api engineResult))"

definition getTxsResultFromEngineResponse ::
  "'m account_api_scheme \<Rightarrow> goval \<Rightarrow> string \<Rightarrow> rpc_error + string" where
  "getTxsResultFromEngineResponse api r txsHash =
     (if r = GStr success_case_for_retransmit then Inr txsHash
      else case NewSubmitStatus api r txsHash of
          Inl e \<Rightarrow> Inl (GenericError e)
        | Inr st \<Rightarrow> SubmitStatus_ToResponse api st)"

text \<open>The test all reads but \<open>Call\<close> and \<open>ChainId\<close> make on an error.\<close>

definition before_aurora :: "error \<Rightarrow> bool" where
  "before_aurora e \<longleftrightarrow> str_contains e beforeAuroraError \<or> str_contains e beforeGenesisError"

definition CallAccount ::
  "'m account_api_scheme \<Rightarrow> u8 list \<Rightarrow> int option \<Rightarrow> bool \<Rightarrow> rpc_error + string" where
  "CallAccount api txn bn fromArchival =
     (case view_engine api fromArchival ''view'' txn bn of
        Inl e \<Rightarrow> Inl (GenericError e)
      | Inr r \<Rightarrow> getCallResultFromEngineResponse api r)"

definition ChainId :: "'m account_api_scheme \<Rightarrow> rpc_error + nat" where
  "ChainId api =
     (case ViewFunction api (AccountId api) ''get_chain_id'' [] None of
        Inl e \<Rightarrow> Inl (GenericError e)
      | Inr r \<Rightarrow> getUint256ResultFromEngineResponse api r)"

definition GetBalance ::
  "'m account_api_scheme \<Rightarrow> u8 list \<Rightarrow> int option \<Rightarrow> bool \<Rightarrow> rpc_error + nat" where
  "GetBalance api addr bn fromArchival =
     (case view_engine api fromArchival ''get_balance'' addr bn of
        Inl e \<Rightarrow> if before_aurora e then Inr (ZeroUint256 api) else Inl (GenericError e)
      | Inr r \<Rightarrow> getUint256ResultFromEngineResponse api r)"

definition GetCode ::
  "'m account_api_scheme \<Rightarrow> u8 list \<Rightarrow> int option \<Rightarrow> bool \<Rightarrow> rpc_error + string" where
  "GetCode api addr bn fromArchival =
     (case view_engine api fromArchival ''get_code'' addr bn of
        Inl e \<Rightarrow> if before_aurora e then Inr (Response0x api) else Inl (GenericError e)
      | Inr r \<Rightarrow> getStringResultFromEngineResponse api r)"

definition GetStorageAt ::
  "'m account_api_scheme \<Rightarrow> u8 list \<Rightarrow> int option \<Rightarrow> bool \<Rightarrow> rpc_error + string" where
  "GetStorageAt api args bn fromArchival =
     (case view_engine api fromArchival ''get_storage_at'' args bn of
        Inl e \<Rightarrow> if before_aurora e then Inr (ZeroStrUint256 api) else Inl (GenericError e)
      | Inr r \<Rightarrow> getStringResultFromEngineResponse api r)"

definition GetTransactionCount ::
  "'m account_api_scheme \<Rightarrow> u8 list \<Rightarrow> int option \<Rightarrow> bool \<Rightarrow> rpc_error + nat" where
  "GetTransactionCount api addr bn fromArchival =
     (case view_engine api fromArchival ''get_nonce'' addr bn of
        Inl e \<Rightarrow>
          if before_aurora e then Inr (ZeroUint256 api)
          else if str_contains e tooManyRequestsError
            then Inl (PlainError ''engine error 429, too many requests received'')
          else Inl (GenericError e)
      | Inr r \<Rightarrow> getUint256ResultFromEngineResponse api r)"

section \<open>Sending a transaction\<close>

text \<open>
  The second component of the result is the request handed to \<open>Submit\<close>, if one is.  \<open>Submit\<close>
  itself is an event of theory \<open>TxnSystem\<close>: its goroutine works on the handle while the caller waits,
  so the handle comes in as it is when \<open>Get\<close> looks at it (\<open>h\<close>), with the time and whether the timer
  of \<open>Get\<close> is the case taken; in asynchronous mode \<open>Get\<close> is not called.
\<close>

definition SendRawTransaction ::
  "'m account_api_scheme \<Rightarrow> 'tx eth_api \<Rightarrow> EngineConfig \<Rightarrow> proc \<Rightarrow> int \<Rightarrow> u8 list \<Rightarrow> u8 list \<Rightarrow>
     TxnResp \<Rightarrow> int \<Rightarrow> bool \<Rightarrow> ((rpc_error + string) \<times> txnReq option) outcome" where
  "SendRawTransaction api eth config tp now uuid txn h later timer_fires =
     bind_outcome (NewTxnReq (near_api.truncate api) eth config tp now uuid txn) (\<lambda>x.
       case x of
         Inl e \<Rightarrow> Ret (Inl (InvalidParamsError e), None)
       | Inr req \<Rightarrow>
           (let txnHash = req_Hash req
            in if AsyncSendRawTxs config then Ret (Inr txnHash, Some req)
               else bind_outcome (Get later timer_fires h) (\<lambda>((r, e), _).
                 case e of
                   Some msg \<Rightarrow> Ret (Inl (PlainError msg), Some req)
                 | None \<Rightarrow> Ret (getTxsResultFromEngineResponse api r txnHash, Some req))))"

definition CloseAccount :: "'acc Account \<Rightarrow> 'acc Account outcome" where
  "CloseAccount a =
     bind_outcome (Close (txnProcessor a)) (\<lambda>tp. Ret (a\<lparr>txnProcessor := tp\<rparr>))"

section \<open>What a caller gets\<close>


definition demo_account_api :: account_api where
  "demo_account_api = near_api.extend demo_api
     (account_api.fields (\<lambda>_ _ _ _. Inl ''code: 429, height 5 DB Not Found Error'') (\<lambda>_. Inr ''0x'')
        Inr (\<lambda>_. Inr ''0x1'') (\<lambda>_ _. Inl ''no status'') (\<lambda>_. Inr ''0x2'') (\<lambda>_. []) 0 ''0x'' ''0x0'')"


lemma demo_admitted: "\<exists>req. NewTxnReq demo_api demo_eth demo_config demo_tp 5 [] [30, 4] = Ret (Inr req)"
proof -
  obtain i where "mapper_Map (mapper demo_tp) (address_Hex demo_api []) (length (keys demo_tp)) = Ret i"
    using configured.map_key_returns [of "length (keys demo_tp)" CRC32Mapper "address_Hex demo_api []"]
    by (auto simp: demo_config_def select_mapper_def)
  then show ?thesis by (simp add: NewTxnReq_def demo_eth_def demo_config_def)
qed

text \<open>
  In asynchronous mode the answer does not depend on what becomes of the transaction: it is
  the hash whenever the request was admitted, with the request submitted, and the refusal of
  \<open>NewTxnReq\<close> otherwise.
\<close>

theorem async_send_answers_at_once:
  assumes "AsyncSendRawTxs config"
  shows "SendRawTransaction api eth config tp now uuid txn h later fires =
    bind_outcome (NewTxnReq (near_api.truncate api) eth config tp now uuid txn) (\<lambda>x. Ret
      (case x of Inl e \<Rightarrow> (Inl (InvalidParamsError e), None) | Inr req \<Rightarrow> (Inr (hash req), Some req)))"
  using assms
  by (cases "NewTxnReq (near_api.truncate api) eth config tp now uuid txn")
    (auto simp: SendRawTransaction_def req_Hash_def split: sum.split)

theorem async_send_answers_at_once_witness:
  "SendRawTransaction demo_account_api demo_eth (demo_config\<lparr>AsyncSendRawTxs := True\<rparr>) demo_tp 5 []
     [0, 4] new_TxnResp 9 False = Ret (Inl (InvalidParamsError ''intrinsic gas too low''), None)"
  using async_send_answers_at_once [of "demo_config\<lparr>AsyncSendRawTxs := True\<rparr>" demo_account_api
      demo_eth demo_tp 5 "[]" "[0, 4]"]
  by (simp add: NewTxnReq_def demo_eth_def demo_config_def)

text \<open>
  C7. A transaction that was retransmitted after a NEAR timeout and then refused because its
  nonce is used is reported as sent: the evaluation of the refusal, the notification of the
  handle, \<open>Get\<close> and the reading of the response together give the caller of a synchronous
  \<open>SendRawTransaction\<close> the hash of the transaction, without asking the engine's response types.
\<close>

theorem retransmitted_send_returns_hash:
  assumes "NewTxnReq (near_api.truncate api) eth config tp0 t0 uuid txn = Ret (Inr req)"
    and "\<not> AsyncSendRawTxs config"
    and "ready tp p" "retransmit (reqs tp p)"
    and "classify True r = Ret (Evaluated True txnStatus_EthNonceError)" "err r = None"
    and "\<not> recently_updated now (ethNonceCache tp)
      (sender_key (near_api.truncate api) (reqs tp p))"
    and "fetchEthNonce (near_api.truncate api) (sender (reqs tp p)) = Inr n" "req_nonce (reqs tp p) < n"
  shows "\<exists>r' tp' h got. eval_txn (near_api.truncate api) now later tp p r = Ret (False, r', tp') \<and>
    Notify (SetResp r' new_TxnResp) = Ret h \<and> Get t fires h = Ret (got, h) \<and>
    SendRawTransaction api eth config tp0 t0 uuid txn h t fires = Ret (Inr (hash req), Some req)"
proof -
  obtain r' tp' where e: "eval_txn (near_api.truncate api) now later tp p r = Ret (False, r', tp')"
    "err r' = None" "resp r' = GStr success_case_for_retransmit"
    using retransmit_succeeds [OF assms(3-9)] by blast
  have "Notify (SetResp r' new_TxnResp) =
      Ret \<lparr>cur = r', done_token = True, received = True\<rparr>"
    by (simp add: Notify_def SetResp_def new_TxnResp_def)
  moreover have "Get t fires \<lparr>cur = r', done_token = True, received = True\<rparr> =
      Ret ((resp r', err r'), \<lparr>cur = r', done_token = True, received = True\<rparr>)"
    by (simp add: Get_def)
  moreover have "SendRawTransaction api eth config tp0 t0 uuid txn
      \<lparr>cur = r', done_token = True, received = True\<rparr> t fires = Ret (Inr (hash req), Some req)"
    using assms(1,2) e(2,3)
    by (simp add: Get_def SendRawTransaction_def getTxsResultFromEngineResponse_def req_Hash_def Let_def)
  ultimately show ?thesis using e(1) by blast
qed

theorem retransmitted_send_returns_hash_witness:
  "\<exists>req r' tp' h got. eval_txn demo_api 9 9 (set_retransmit True demo_reqs 5) 5 nonce_failure =
     Ret (False, r', tp') \<and> Get 1 True h = Ret (got, h) \<and>
     SendRawTransaction demo_account_api demo_eth demo_config demo_tp 5 [] [30, 4] h 1 True =
       Ret (Inr (hash req), Some req)"
proof -
  let ?tp = "set_retransmit True demo_reqs 5"
  have api: "near_api.truncate demo_account_api = demo_api"
    by (simp add: demo_account_api_def account_api.defs near_api.defs)
  obtain req where n: "NewTxnReq demo_api demo_eth demo_config demo_tp 5 [] [30, 4] = Ret (Inr req)"
    using demo_admitted by blast
  have 1: "ready ?tp 5" "retransmit (reqs ?tp 5)"
    by (simp_all add: ready_def shape_def demo_reqs_def)
  have 2: "classify True nonce_failure = Ret (Evaluated True txnStatus_EthNonceError)"
      "err nonce_failure = None"
    by (simp_all add: classify_def nonce_failure_def near_response_def isTxnResponseFailure_def
        getTxnStatusForFailureType_def statusMappingArray_def)
  have 3: "\<not> recently_updated 9 (ethNonceCache ?tp) (sender_key demo_api (reqs ?tp 5))"
    by (simp add: demo_reqs_def recently_updated_def)
  have 4: "fetchEthNonce demo_api (sender (reqs ?tp 5)) = Inr 7" "req_nonce (reqs ?tp 5) < 7"
    by (simp_all add: demo_reqs_def fetchEthNonce_def demo_api_def)
  have 5: "\<not> AsyncSendRawTxs demo_config" by (simp add: demo_config_def)
  from retransmitted_send_returns_hash [of demo_account_api, unfolded api, OF n 5 1 2 3 4, of 9 1 True]
  show ?thesis by blast
qed

end
