(* ===== verification/EngineEth.thy ===== *)
theory EngineEth
  imports Account
begin

text \<open>
  \<open>endpoint/engineEth.go\<close> and \<open>endpoint/engineNet.go\<close>: the JSON-RPC methods that read the engine
  contract or send a transaction.  A read resolves its block, chooses between the NEAR node and
  the archival node, and asks the account.  The database handler's answers during a call are its
  argument \<open>db_reads\<close>; \<open>base_types\<close> collects the functions of \<open>relayer2-base\<close> on blocks and call
  arguments; \<open>process\<close> is \<open>endpoint.Process\<close>, which may run the method or answer in its place.
\<close>

section \<open>What the methods rely on\<close>

text \<open>A pointer result with an error, as the handler returns it.\<close>

record db_reads =
  db_BlockNumber :: "u64 option \<times> error option"
  db_BlockHashToNumber :: "u8 list \<Rightarrow> u64 option \<times> error option"

record ('r, 'txs) base_types =
  block_Number :: "'r \<Rightarrow> u64 option"
  block_Hash :: "'r \<Rightarrow> u8 list option"
  LatestBlock :: u64
  BN64_Int64 :: "u64 \<Rightarrow> u64 option"
  GetStorageAt_args :: "u8 list \<Rightarrow> nat \<Rightarrow> error + u8 list"
  tx_Validate :: "'txs \<Rightarrow> rpc_error option"
  tx_Serialize :: "'txs \<Rightarrow> error + u8 list"

text \<open>An \<open>int64\<close> is a word read by \<open>sint\<close>; \<open>BN64(x)\<close> and \<open>int64(x)\<close> keep the bits.\<close>

definition epochDurationToUseArchivalNode :: u64 where
  "epochDurationToUseArchivalNode = 43200"

section \<open>Choosing block and node\<close>

definition blockNumberByNumberOrHash ::
  "('r, 'txs) base_types \<Rightarrow> db_reads \<Rightarrow> 'r option \<Rightarrow> (rpc_error + u64) outcome" where
  "blockNumberByNumberOrHash base db r =
     (case r of
        None \<Rightarrow> Ret (Inr (LatestBlock base))
      | Some b \<Rightarrow>
          (case block_Number base b of
             Some n \<Rightarrow> Ret (Inr n)
           | None \<Rightarrow>
               (case block_Hash base b of
                  Some h \<Rightarrow>
                    (case db_BlockHashToNumber db h of
                       (_, Some e) \<Rightarrow> Ret (Inl (PlainError e))
                     | (None, None) \<Rightarrow> Panic NilDeref
                     | (Some n, None) \<Rightarrow> Ret (Inr n))
                | None \<Rightarrow>
                    Ret (Inl (PlainError ''invalid arguments; neither block nor hash specified'')))))"

definition shouldUseArchival ::
  "('r, 'txs) base_types \<Rightarrow> db_reads \<Rightarrow> u64 \<Rightarrow> bool outcome" where
  "shouldUseArchival base db bn =
     (if bn = LatestBlock base then Ret False
      else case db_BlockNumber db of
          (_, Some e) \<Rightarrow> Ret True
        | (None, None) \<Rightarrow> Panic NilDeref
        | (Some bh, None) \<Rightarrow>
            (case BN64_Int64 base bn of
               None \<Rightarrow> Panic NilDeref
             | Some n \<Rightarrow> Ret (\<not> sint (bh - epochDurationToUseArchivalNode) < sint n)))"

text \<open>The lines every read shares: resolve the block, choose the node, ask the account.\<close>

definition read_at ::
  "('r, 'txs) base_types \<Rightarrow> db_reads \<Rightarrow> 'r option \<Rightarrow> (int option \<Rightarrow> bool \<Rightarrow> rpc_error + 'a) \<Rightarrow>
     (rpc_error + 'a) outcome" where
  "read_at base db r ask =
     bind_outcome (blockNumberByNumberOrHash base db r) (\<lambda>x.
       case x of
         Inl e \<Rightarrow> Ret (Inl e)
       | Inr bn \<Rightarrow>
           bind_outcome (shouldUseArchival base db bn) (\<lambda>archival.
             Ret (ask (map_option sint (BN64_Int64 base bn)) archival)))"

section \<open>The methods\<close>

definition chainId :: "account_api \<Rightarrow> (rpc_error + nat) outcome" where
  "chainId api = Ret (ChainId api)"

definition getCode ::
  "account_api \<Rightarrow> ('r, 'txs) base_types \<Rightarrow> db_reads \<Rightarrow> u8 list \<Rightarrow> 'r option \<Rightarrow>
     (rpc_error + string) outcome" where
  "getCode api base db address r = read_at base db r (GetCode api address)"

definition getBalance ::
  "account_api \<Rightarrow> ('r, 'txs) base_types \<Rightarrow> db_reads \<Rightarrow> u8 list \<Rightarrow> 'r option \<Rightarrow>
     (rpc_error + nat) outcome" where
  "getBalance api base db address r = read_at base db r (GetBalance api address)"

definition getTransactionCount ::
  "account_api \<Rightarrow> ('r, 'txs) base_types \<Rightarrow> db_reads \<Rightarrow> u8 list \<Rightarrow> 'r option \<Rightarrow>
     (rpc_error + nat) outcome" where
  "getTransactionCount api base db address r = read_at base db r (GetTransactionCount api address)"

definition getStorageAt ::
  "account_api \<Rightarrow> ('r, 'txs) base_types \<Rightarrow> db_reads \<Rightarrow> u8 list \<Rightarrow> nat \<Rightarrow> 'r option \<Rightarrow>
     (rpc_error + string) outcome" where
  "getStorageAt api base db address slot r =
     (case GetStorageAt_args base address slot of
        Inl e \<Rightarrow> Ret (Inl (GenericError e))
      | Inr argsBuf \<Rightarrow> read_at base db r (GetStorageAt api argsBuf))"

definition call_engine ::
  "account_api \<Rightarrow> ('r, 'txs) base_types \<Rightarrow> db_reads \<Rightarrow> 'txs \<Rightarrow> 'r option \<Rightarrow>
     (rpc_error + string) outcome" where
  "call_engine api base db txs r =
     (case tx_Validate base txs of
        Some e \<Rightarrow> Ret (Inl e)
      | None \<Rightarrow>
          (case tx_Serialize base txs of
             Inl e \<Rightarrow> Ret (Inl (GenericError e))
           | Inr argsBuf \<Rightarrow> read_at base db r (CallAccount api argsBuf)))"

text \<open>\<open>NewEngineEth\<close> panics when there is no account.\<close>

definition NewEngineEth :: "'acc near_lib \<Rightarrow> EngineConfig \<Rightarrow> 'acc Account outcome" where
  "NewEngineEth lib config =
     (case NewAccount lib config of Inl e \<Rightarrow> Panic PanicCall | Inr acc \<Rightarrow> Ret acc)"

text \<open>The exported methods, over \<open>endpoint.Process\<close>; its arguments are given as they are passed.\<close>

datatype ('r, 'txs) rpc_arg =
    RAddress "u8 list" | RBlock "'r option" | RTxs 'txs | RData "u8 list"

definition EngineEth_ChainId ::
  "(string \<Rightarrow> ('r, 'txs) rpc_arg list \<Rightarrow> (rpc_error + nat) outcome \<Rightarrow> (rpc_error + nat) outcome) \<Rightarrow>
     account_api \<Rightarrow> (rpc_error + nat) outcome" where
  "EngineEth_ChainId process api = process ''eth_chainId'' [] (chainId api)"

definition EngineEth_GetCode ::
  "(string \<Rightarrow> ('r, 'txs) rpc_arg list \<Rightarrow> (rpc_error + string) outcome \<Rightarrow> (rpc_error + string) outcome) \<Rightarrow>
     account_api \<Rightarrow> ('r, 'txs) base_types \<Rightarrow> db_reads \<Rightarrow> u8 list \<Rightarrow> 'r option \<Rightarrow>
     (rpc_error + string) outcome" where
  "EngineEth_GetCode process api base db address r =
     process ''eth_getCode'' [RAddress address, RBlock r] (getCode api base db address r)"

definition EngineEth_GetBalance ::
  "(string \<Rightarrow> ('r, 'txs) rpc_arg list \<Rightarrow> (rpc_error + nat) outcome \<Rightarrow> (rpc_error + nat) outcome) \<Rightarrow>
     account_api \<Rightarrow> ('r, 'txs) base_types \<Rightarrow> db_reads \<Rightarrow> u8 list \<Rightarrow> 'r option \<Rightarrow>
     (rpc_error + nat) outcome" where
  "EngineEth_GetBalance process api base db address r =
     process ''eth_getBalance'' [RAddress address, RBlock r] (getBalance api base db address r)"

definition EngineEth_GetTransactionCount ::
  "(string \<Rightarrow> ('r, 'txs) rpc_arg list \<Rightarrow> (rpc_error + nat) outcome \<Rightarrow> (rpc_error + nat) outcome) \<Rightarrow>
     account_api \<Rightarrow> ('r, 'txs) base_types \<Rightarrow> db_reads \<Rightarrow> u8 list \<Rightarrow> 'r option \<Rightarrow>
     (rpc_error + nat) outcome" where
  "EngineEth_GetTransactionCount process api base db address r =
     process ''eth_getTransactionCount'' [RAddress address, RBlock r]
       (getTransactionCount api base db address r)"

definition EngineEth_GetStorageAt ::
  "(string \<Rightarrow> ('r, 'txs) rpc_arg list \<Rightarrow> (rpc_error + string) outcome \<Rightarrow> (rpc_error + string) outcome) \<Rightarrow>
     account_api \<Rightarrow> ('r, 'txs) base_types \<Rightarrow> db_reads \<Rightarrow> u8 list \<Rightarrow> nat \<Rightarrow> 'r option \<Rightarrow>
     (rpc_error + string) outcome" where
  "EngineEth_GetStorageAt process api base db address slot r =
     process ''eth_getStorageAt'' [RAddress address, RBlock r]
       (getStorageAt api base db address slot r)"

definition EngineEth_Call ::
  "(string \<Rightarrow> ('r, 'txs) rpc_arg list \<Rightarrow> (rpc_error + string) outcome \<Rightarrow> (rpc_error + string) outcome) \<Rightarrow>
     account_api \<Rightarrow> ('r, 'txs) base_types \<Rightarrow> db_reads \<Rightarrow> 'txs \<Rightarrow> 'r option \<Rightarrow>
     (rpc_error + string) outcome" where
  "EngineEth_Call process api base db txs r =
     process ''eth_call'' [RTxs txs, RBlock r] (call_engine api base db txs r)"

text \<open>The request submitted on the way is the second component of \<open>SendRawTransaction\<close>.\<close>

definition EngineEth_SendRawTransaction ::
  "(string \<Rightarrow> ('r, 'txs) rpc_arg list \<Rightarrow> ((rpc_error + string) \<times> txnReq option) outcome \<Rightarrow>
      ((rpc_error + string) \<times> txnReq option) outcome) \<Rightarrow>
     account_api \<Rightarrow> 'tx eth_api \<Rightarrow> 'acc Account \<Rightarrow> int \<Rightarrow> u8 list \<Rightarrow> u8 list \<Rightarrow>
     TxnResp \<Rightarrow> int \<Rightarrow> bool \<Rightarrow> ((rpc_error + string) \<times> txnReq option) outcome" where
  "EngineEth_SendRawTransaction process api eth acc now uuid txs h later timer_fires =
     process ''eth_sendRawTransaction'' [RData txs]
       (SendRawTransaction api eth (acc_config acc) (txnProcessor acc) now uuid txs h later timer_fires)"

definition EngineNet_Version ::
  "(string \<Rightarrow> ('r, 'txs) rpc_arg list \<Rightarrow> (rpc_error + string) outcome \<Rightarrow> (rpc_error + string) outcome) \<Rightarrow>
     account_api \<Rightarrow> (rpc_error + string) outcome" where
  "EngineNet_Version process api =
     process ''net_version'' []
       (bind_outcome (chainId api) (\<lambda>x. Ret (case x of
          Inl e \<Rightarrow> Inl (GenericError (error_text api e))
        | Inr version \<Rightarrow> Inr (dec version))))"

section \<open>Which node answers\<close>

lemma sint_minus_epoch:
  assumes "unat bh < 2 ^ 63"
  shows "sint (bh - epochDurationToUseArchivalNode) = int (unat bh) - 43200"
proof -
  have "int (unat bh) < int (2 ^ 63)" using assms by (simp only: of_nat_less_iff)
  then have b: "uint bh < 2 ^ 63" by simp
  have "bh - epochDurationToUseArchivalNode = of_int (uint bh - 43200)"
    by (simp add: epochDurationToUseArchivalNode_def)
  then have "sint (bh - epochDurationToUseArchivalNode) = signed_take_bit 63 (uint bh - 43200)"
    by (simp only: sint_sbintrunc') simp
  also have "\<dots> = uint bh - 43200"
    using b by (intro signed_take_bit_int_eq_self) simp_all
  finally show ?thesis by simp
qed

text \<open>
  A block goes to the archival node exactly when it is at least an epoch (43200 blocks) older
  than the newest block of the database; no subtraction wraps around, not even for a database
  with fewer blocks than an epoch.
\<close>

theorem archival_by_epoch:
  assumes "bn \<noteq> LatestBlock base" "BN64_Int64 base bn = Some bn"
    and "db_BlockNumber db = (Some bh, None)" "unat bh < 2 ^ 63"
  shows "shouldUseArchival base db bn = Ret (sint bn + 43200 \<le> int (unat bh))"
  using assms sint_minus_epoch [OF assms(4)] by (auto simp: shouldUseArchival_def)

definition demo_base :: "(u64 + u8 list, u8 list) base_types" where
  "demo_base =
     \<lparr>block_Number = (\<lambda>r. case r of Inl n \<Rightarrow> Some n | Inr h \<Rightarrow> None),
      block_Hash = (\<lambda>r. case r of Inl n \<Rightarrow> None | Inr h \<Rightarrow> Some h),
      LatestBlock = - 2, BN64_Int64 = Some, GetStorageAt_args = (\<lambda>a n. Inr a),
      tx_Validate = (\<lambda>_. None), tx_Serialize = Inr\<rparr>"

theorem archival_by_epoch_witness:
  "shouldUseArchival demo_base \<lparr>db_BlockNumber = (Some 50000, None), db_BlockHashToNumber = (\<lambda>_. (None, None))\<rparr>
     6800 = Ret True"
  using archival_by_epoch [of 6800 demo_base
      "\<lparr>db_BlockNumber = (Some 50000, None), db_BlockHashToNumber = (\<lambda>_. (None, None))\<rparr>" 50000]
  by (simp add: demo_base_def)

text \<open>A block that was found, with its number and the newest height.\<close>

definition resolves :: "('r, 'txs) base_types \<Rightarrow> db_reads \<Rightarrow> 'r option \<Rightarrow> u64 \<Rightarrow> bool" where
  "resolves base db r n \<longleftrightarrow>
     (case r of
        None \<Rightarrow> n = LatestBlock base
      | Some b \<Rightarrow>
          block_Number base b = Some n \<or>
          block_Number base b = None \<and>
            (\<exists>h. block_Hash base b = Some h \<and> db_BlockHashToNumber db h = (Some n, None)))"

lemma resolved: "resolves base db r n \<Longrightarrow> blockNumberByNumberOrHash base db r = Ret (Inr n)"
  by (auto simp: resolves_def blockNumberByNumberOrHash_def split: option.splits)

lemma read_at_resolved:
  "resolves base db r n \<Longrightarrow> shouldUseArchival base db n = Ret archival \<Longrightarrow>
     read_at base db r ask = Ret (ask (map_option sint (BN64_Int64 base n)) archival)"
  by (simp add: read_at_def resolved)


abbreviation demo_reads :: db_reads where
  "demo_reads \<equiv>
     \<lparr>db_BlockNumber = (Some 50000, None),
      db_BlockHashToNumber = (\<lambda>h. if h = [7] then (Some 49000, None) else (None, Some ''no block''))\<rparr>"


text \<open>Reads of the latest block never ask the database.\<close>

lemma latest_read:
  "getBalance api base db a None =
     Ret (GetBalance api a (map_option sint (BN64_Int64 base (LatestBlock base))) False)"
  by (simp add: getBalance_def read_at_def blockNumberByNumberOrHash_def shouldUseArchival_def)

definition hash_without_answer :: "('r, 'txs) base_types \<Rightarrow> db_reads \<Rightarrow> 'r option \<Rightarrow> bool" where
  "hash_without_answer base db r \<longleftrightarrow>
     (\<exists>b h. r = Some b \<and> block_Number base b = None \<and> block_Hash base b = Some h \<and>
        db_BlockHashToNumber db h = (None, None))"

text \<open>The crash all reads of a block share.\<close>

definition block_read_crashes :: "('r, 'txs) base_types \<Rightarrow> db_reads \<Rightarrow> 'r option \<Rightarrow> bool" where
  "block_read_crashes base db r \<longleftrightarrow>
     hash_without_answer base db r \<or>
     (\<exists>n. resolves base db r n \<and> n \<noteq> LatestBlock base \<and> snd (db_BlockNumber db) = None \<and>
        (fst (db_BlockNumber db) = None \<or> BN64_Int64 base n = None))"

lemma read_at_panics_iff:
  "read_at base db r ask = Panic k \<longleftrightarrow> k = NilDeref \<and> block_read_crashes base db r"
proof (cases "blockNumberByNumberOrHash base db r")
  case (Ret x)
  have nohash: "\<not> hash_without_answer base db r"
    using Ret by (auto simp: hash_without_answer_def blockNumberByNumberOrHash_def)
  show ?thesis
  proof (cases x)
    case (Inl e)
    with Ret have "\<not> resolves base db r n" for n using resolved [of base db r n] by auto
    with Ret Inl nohash show ?thesis by (simp add: read_at_def block_read_crashes_def)
  next
    case (Inr n)
    have res: "resolves base db r m \<longleftrightarrow> m = n" for m
      using Ret Inr resolved [of base db r m]
      by (auto simp: resolves_def blockNumberByNumberOrHash_def split: option.splits prod.splits)
    have "shouldUseArchival base db n = Panic k \<longleftrightarrow> k = NilDeref \<and> n \<noteq> LatestBlock base \<and>
        snd (db_BlockNumber db) = None \<and> (fst (db_BlockNumber db) = None \<or> BN64_Int64 base n = None)"
      by (auto simp: shouldUseArchival_def split: prod.splits option.splits)
    with Ret Inr nohash show ?thesis
      by (simp add: read_at_def block_read_crashes_def res bind_outcome_Panic_iff)
  qed
next
  case Blocked
  then show ?thesis
    by (auto simp: blockNumberByNumberOrHash_def split: option.splits prod.splits)
next
  case (Panic j)
  then have "j = NilDeref" and h: "hash_without_answer base db r"
    by (auto simp: hash_without_answer_def blockNumberByNumberOrHash_def split: option.splits prod.splits)
  with Panic show ?thesis by (auto simp: read_at_def block_read_crashes_def)
qed

text \<open>
  C36. When a read of the state at a block crashes, for each of the five reads: exactly when the
  database answers neither a value nor an error, to the hash of the block or, for a block that is
  not the latest, to the question for its newest height (an empty database), or when that block
  has no \<open>int64\<close> form.  A storage read whose arguments do not serialize and a call that is not
  valid or does not serialize return before they resolve the block, and do not crash.
\<close>

theorem state_read_panics_iff:
  "let crash = (k = NilDeref \<and>
         (hash_without_answer base db r \<or>
          (\<exists>n. resolves base db r n \<and> n \<noteq> LatestBlock base \<and> snd (db_BlockNumber db) = None \<and>
             (fst (db_BlockNumber db) = None \<or> BN64_Int64 base n = None))))
   in (getBalance api base db a r = Panic k \<longleftrightarrow> crash) \<and>
      (getTransactionCount api base db a r = Panic k \<longleftrightarrow> crash) \<and>
      (getCode api base db a r = Panic k \<longleftrightarrow> crash) \<and>
      (getStorageAt api base db a slot r = Panic k \<longleftrightarrow>
         (\<exists>args. GetStorageAt_args base a slot = Inr args) \<and> crash) \<and>
      (call_engine api base db txs r = Panic k \<longleftrightarrow>
         tx_Validate base txs = None \<and> (\<exists>args. tx_Serialize base txs = Inr args) \<and> crash)"
  unfolding Let_def block_read_crashes_def [symmetric]
  by (simp add: getBalance_def getTransactionCount_def getCode_def getStorageAt_def call_engine_def
      read_at_panics_iff split: sum.split option.split)

text \<open>
  \<open>net_version\<close> is the chain id in decimal notation: reading it back gives the number
  \<open>eth_chainId\<close> returns, when the processors let both methods run.
\<close>

theorem net_version_is_chain_id:
  assumes "\<And>name args x. process name args x = x" "\<And>name args x. process' name args x = x"
    and "EngineEth_ChainId process api = Ret (Inr n)"
  shows "\<exists>v. EngineNet_Version process' api = Ret (Inr v) \<and> undec_from 0 v = n"
  using assms(3) by (simp add: EngineNet_Version_def EngineEth_ChainId_def assms(1,2) undec_dec)

theorem net_version_is_chain_id_witness:
  "\<exists>v. EngineNet_Version (\<lambda>_ _ x. x) demo_account_api = Ret (Inr v) \<and> undec_from 0 v = 7"
  by (rule net_version_is_chain_id [of "\<lambda>_ _ x. x"])
    (simp_all add: EngineEth_ChainId_def chainId_def ChainId_def demo_account_api_def
      account_api.defs near_api.defs demo_api_def getUint256ResultFromEngineResponse_def)

end
