(* ===== verification/EventsEth.thy ===== *)
theory EventsEth
  imports Prelude
begin

text \<open>
  \<open>endpoint/eventsEth.go\<close>: the subscriptions to new heads and to logs.  Every subscription is a
  goroutine; all subscriptions to heads receive from one channel, each subscription to logs from
  a channel of its own.  The broker is a library: it is handed channels and sends to them; here
  it may send to a channel it was handed at any time there is room.  A notification is recorded
  with the subscription it is sent to.  For a log the code passes \<open>Notify\<close> a pointer to the loop
  variable; what is recorded is the log it points to at the call, so a notifier that read the
  pointer later, after the next iteration, is outside the model.
\<close>

section \<open>State\<close>

type_synonym sub_id = nat

text \<open>A goroutine: before its call of the broker, receiving, or finished.\<close>

datatype sub_phase = SubNone | SubStarting | SubListening | SubEnded

record ('h, 'l) events =
  newHeadsCh :: "'h list"
  headSubs :: "sub_id \<Rightarrow> sub_phase"
  headsSent :: "'h list"
  headNotes :: "(sub_id \<times> 'h) list"
  logSubs :: "sub_id \<Rightarrow> sub_phase"
  logsChMap :: "sub_id \<rightharpoonup> 'l list list"
  logsSent :: "sub_id \<Rightarrow> 'l list list"
  logNotes :: "sub_id \<Rightarrow> 'l list"

text \<open>\<open>events.NewHeadsChSize\<close> and \<open>events.LogsChSize\<close>.\<close>

record ch_sizes =
  NewHeadsChSize :: nat
  LogsChSize :: nat

definition NewEventsEth :: "('h, 'l) events" where
  "NewEventsEth =
     \<lparr>newHeadsCh = [], headSubs = (\<lambda>_. SubNone), headsSent = [], headNotes = [],
      logSubs = (\<lambda>_. SubNone), logsChMap = Map.empty, logsSent = (\<lambda>_. []), logNotes = (\<lambda>_. [])\<rparr>"

definition ErrNotificationsUnsupported :: error where
  "ErrNotificationsUnsupported = ''notifications not supported''"

text \<open>
  \<open>NewHeads\<close> and \<open>Logs\<close> up to the start of the goroutine.  \<open>notifier\<close>: the fresh id
  \<open>CreateSubscription\<close> gives, if the connection supports notifications.
\<close>

definition NewHeads :: "sub_id option \<Rightarrow> ('h, 'l) events \<Rightarrow> (error + sub_id) \<times> ('h, 'l) events" where
  "NewHeads notifier e =
     (case notifier of
        None \<Rightarrow> (Inl ErrNotificationsUnsupported, e)
      | Some i \<Rightarrow> (Inr i, e\<lparr>headSubs := (headSubs e)(i := SubStarting)\<rparr>))"

definition Logs :: "sub_id option \<Rightarrow> ('h, 'l) events \<Rightarrow> (error + sub_id) \<times> ('h, 'l) events" where
  "Logs notifier e =
     (case notifier of
        None \<Rightarrow> (Inl ErrNotificationsUnsupported, e)
      | Some i \<Rightarrow> (Inr i, e\<lparr>logSubs := (logSubs e)(i := SubStarting)\<rparr>))"

section \<open>Steps\<close>

inductive estep :: "ch_sizes \<Rightarrow> ('h, 'l) events \<Rightarrow> ('h, 'l) events \<Rightarrow> bool" for sz where
  new_heads:
    "headSubs e i = SubNone \<Longrightarrow> estep sz e (snd (NewHeads (Some i) e))"
| heads_subscribe:
    "headSubs e i = SubStarting \<Longrightarrow> estep sz e (e\<lparr>headSubs := (headSubs e)(i := SubListening)\<rparr>)"
| heads_send:
    "headSubs e i = SubListening \<Longrightarrow> length (newHeadsCh e) < NewHeadsChSize sz \<Longrightarrow>
       estep sz e (e\<lparr>newHeadsCh := newHeadsCh e @ [h], headsSent := headsSent e @ [h]\<rparr>)"
| heads_receive:
    "headSubs e i = SubListening \<Longrightarrow> newHeadsCh e = h # rest \<Longrightarrow>
       estep sz e (e\<lparr>newHeadsCh := rest, headNotes := headNotes e @ [(i, h)]\<rparr>)"
| heads_end:
    "headSubs e i = SubListening \<Longrightarrow> estep sz e (e\<lparr>headSubs := (headSubs e)(i := SubEnded)\<rparr>)"
| new_logs:
    "logSubs e i = SubNone \<Longrightarrow> estep sz e (snd (Logs (Some i) e))"
| logs_subscribe:
    "logSubs e i = SubStarting \<Longrightarrow>
       estep sz e (e\<lparr>logSubs := (logSubs e)(i := SubListening), logsChMap := (logsChMap e)(i \<mapsto> [])\<rparr>)"
| logs_send:
    "logsChMap e i = Some c \<Longrightarrow> length c < LogsChSize sz \<Longrightarrow>
       estep sz e (e\<lparr>logsChMap := (logsChMap e)(i \<mapsto> c @ [ls]),
                     logsSent := (logsSent e)(i := logsSent e i @ [ls])\<rparr>)"
| logs_receive:
    "logSubs e i = SubListening \<Longrightarrow> logsChMap e i = Some (ls # c) \<Longrightarrow>
       estep sz e (e\<lparr>logsChMap := (logsChMap e)(i \<mapsto> c),
                     logNotes := (logNotes e)(i := logNotes e i @ ls)\<rparr>)"
| logs_end:
    "logSubs e i = SubListening \<Longrightarrow>
       estep sz e (e\<lparr>logSubs := (logSubs e)(i := SubEnded), logsChMap := (logsChMap e)(i := None)\<rparr>)"

inductive_cases estepE: "estep sz e e'"

section \<open>Invariant\<close>

text \<open>
  Heads: what was sent was notified once, to one subscription, or waits in the channel.  Logs:
  a subscription that listens was notified of all that was sent to it but what waits in its own
  channel; an ended one of a part from the front.  The map holds the channels of the listening
  subscriptions.
\<close>

definition heads_inv :: "ch_sizes \<Rightarrow> ('h, 'l) events \<Rightarrow> bool" where
  "heads_inv sz e \<longleftrightarrow>
     map snd (headNotes e) @ newHeadsCh e = headsSent e \<and> length (newHeadsCh e) \<le> NewHeadsChSize sz"

definition logs_inv :: "ch_sizes \<Rightarrow> ('h, 'l) events \<Rightarrow> bool" where
  "logs_inv sz e \<longleftrightarrow>
     (\<forall>i. (logsChMap e i \<noteq> None \<longleftrightarrow> logSubs e i = SubListening) \<and>
        (\<forall>c. logsChMap e i = Some c \<longrightarrow>
           logNotes e i @ concat c = concat (logsSent e i) \<and> length c \<le> LogsChSize sz) \<and>
        (logsChMap e i = None \<longrightarrow> (\<exists>rest. concat (logsSent e i) = logNotes e i @ rest)) \<and>
        (logSubs e i = SubNone \<or> logSubs e i = SubStarting \<longrightarrow> logsSent e i = [] \<and> logNotes e i = []))"

lemma heads_inv_step: "heads_inv sz e \<Longrightarrow> estep sz e e' \<Longrightarrow> heads_inv sz e'"
  by (auto simp: heads_inv_def NewHeads_def Logs_def elim!: estepE)

lemma logs_inv_step:
  assumes "logs_inv sz e" "estep sz e e'"
  shows "logs_inv sz e'"
  using assms(2,1)
proof cases
  case (logs_send i c ls)
  with assms(1) have "logNotes e i @ concat c = concat (logsSent e i)" "logSubs e i = SubListening"
    unfolding logs_inv_def by blast+
  with logs_send assms(1) show ?thesis by (simp add: logs_inv_def)
next
  case (logs_receive i ls c)
  with assms(1) have "logNotes e i @ concat (ls # c) = concat (logsSent e i)" "length (ls # c) \<le> LogsChSize sz"
    unfolding logs_inv_def by blast+
  with logs_receive assms(1) show ?thesis by (simp add: logs_inv_def)
next
  case (logs_end i)
  then obtain c where "logsChMap e i = Some c" using assms(1) by (auto simp: logs_inv_def)
  with assms(1) have "logNotes e i @ concat c = concat (logsSent e i)"
    unfolding logs_inv_def by blast
  then have "\<exists>rest. concat (logsSent e i) = logNotes e i @ rest" by metis
  with logs_end assms(1) show ?thesis by (simp add: logs_inv_def)
qed (auto simp: logs_inv_def NewHeads_def Logs_def)

interpretation subscriptions: transition_system
  "\<lambda>e. e = NewEventsEth" "estep sz" "\<lambda>e. heads_inv sz e \<and> logs_inv sz e" for sz
proof
  show "heads_inv sz e \<and> logs_inv sz e" if "e = NewEventsEth" for e
    using that by (simp add: heads_inv_def logs_inv_def NewEventsEth_def)
  show "heads_inv sz e' \<and> logs_inv sz e'" if "heads_inv sz e \<and> logs_inv sz e" "estep sz e e'" for e e'
    using that heads_inv_step logs_inv_step by blast
qed

section \<open>What subscribers see\<close>

text \<open>
  C30. Every subscriber to logs is notified of its own logs, all and in order: in every reachable
  state the notifications of a subscription are what the broker sent to its channel, up to what
  still waits there; once it has ended they are a part from the front.
\<close>

theorem logs_reach_their_subscriber:
  assumes "(estep sz)\<^sup>*\<^sup>* NewEventsEth e"
  shows "\<exists>rest. concat (logsSent e i) = logNotes e i @ rest \<and>
    (logSubs e i = SubListening \<longrightarrow> (\<exists>c. logsChMap e i = Some c \<and> rest = concat c \<and>
       length c \<le> LogsChSize sz))"
proof -
  have inv: "logs_inv sz e" using subscriptions.reachable_inv [OF _ assms] by blast
  show ?thesis
  proof (cases "logsChMap e i")
    case None
    with inv have "logSubs e i \<noteq> SubListening" "\<exists>rest. concat (logsSent e i) = logNotes e i @ rest"
      unfolding logs_inv_def by blast+
    then show ?thesis by blast
  next
    case (Some c)
    with inv have "logNotes e i @ concat c = concat (logsSent e i)" "length c \<le> LogsChSize sz"
      unfolding logs_inv_def by blast+
    with Some show ?thesis by (intro exI [of _ "concat c"]) simp
  qed
qed

lemma estep_trans: "(estep sz)\<^sup>*\<^sup>* e0 e \<Longrightarrow> estep sz e e' \<Longrightarrow> (estep sz)\<^sup>*\<^sup>* e0 e'"
  by (rule rtranclp.rtrancl_into_rtrancl)

theorem logs_reach_their_subscriber_witness:
  "\<exists>e :: (nat, nat) events. logSubs e 1 = SubListening \<and> logsSent e 1 = [[5, 6]] \<and> logNotes e 1 = [5, 6] \<and>
     (\<exists>rest. concat (logsSent e 1) = logNotes e 1 @ rest)"
proof -
  let ?sz = "\<lparr>NewHeadsChSize = 1, LogsChSize = 1\<rparr>"
  let ?e0 = "NewEventsEth :: (nat, nat) events"
  let ?e1 = "?e0\<lparr>logSubs := (logSubs ?e0)(1 := SubStarting)\<rparr>"
  let ?e2 = "?e1\<lparr>logSubs := (logSubs ?e1)(1 := SubListening), logsChMap := (logsChMap ?e1)(1 \<mapsto> [])\<rparr>"
  let ?e3 = "?e2\<lparr>logsChMap := (logsChMap ?e2)(1 \<mapsto> [] @ [[5, 6]]),
      logsSent := (logsSent ?e2)(1 := logsSent ?e2 1 @ [[5, 6]])\<rparr>"
  let ?e4 = "?e3\<lparr>logsChMap := (logsChMap ?e3)(1 \<mapsto> []),
      logNotes := (logNotes ?e3)(1 := logNotes ?e3 1 @ [5, 6])\<rparr>"
  have "estep ?sz ?e0 ?e1" using estep.new_logs [of ?e0 1 ?sz] by (simp add: Logs_def NewEventsEth_def)
  moreover have "estep ?sz ?e1 ?e2" by (rule estep.logs_subscribe) simp
  moreover have "estep ?sz ?e2 ?e3" by (rule estep.logs_send) simp_all
  moreover have "estep ?sz ?e3 ?e4" by (rule estep.logs_receive) simp_all
  ultimately have "(estep ?sz)\<^sup>*\<^sup>* ?e0 ?e4"
    by (meson estep_trans rtranclp.rtrancl_refl)
  from logs_reach_their_subscriber [OF this, of 1] show ?thesis
    by (intro exI [of _ ?e4]) (simp add: NewEventsEth_def)
qed

text \<open>
  Every head the broker sends is notified once in all, not once per subscriber: the
  notifications of all subscriptions together are the heads sent, in order, up to those that
  still wait in the one channel.
\<close>

theorem heads_are_shared_out:
  assumes "(estep sz)\<^sup>*\<^sup>* NewEventsEth e"
  shows "map snd (headNotes e) @ newHeadsCh e = headsSent e \<and> length (newHeadsCh e) \<le> NewHeadsChSize sz"
  using subscriptions.reachable_inv [OF _ assms] by (simp add: heads_inv_def)

theorem heads_are_shared_out_witness:
  "map snd (headNotes (NewEventsEth :: (nat, nat) events)) = headsSent (NewEventsEth :: (nat, nat) events)"
  using heads_are_shared_out [of "\<lparr>NewHeadsChSize = 1, LogsChSize = 1\<rparr>" NewEventsEth]
  by (simp add: NewEventsEth_def)

text \<open>
  C31. A subscriber to new heads can miss them: even when the broker sends one copy of a head for
  every subscription, a state is reachable in which two subscribers listen, both copies were
  notified to the first and none is left for the second.
\<close>

theorem subscriber_misses_heads:
  assumes "0 < NewHeadsChSize sz"
  shows "\<exists>e. (estep sz)\<^sup>*\<^sup>* NewEventsEth e \<and> headSubs e 1 = SubListening \<and> headSubs e 2 = SubListening \<and>
    headsSent e = [h, h] \<and> headNotes e = [(1, h), (1, h)] \<and> newHeadsCh e = []"
proof -
  let ?e0 = "NewEventsEth :: ('a, 'b) events"
  let ?w = "(\<lambda>_. SubNone)(1 := SubListening, 2 := SubListening)"
  let ?q = "\<lambda>ch sent ns. ?e0\<lparr>headSubs := ?w, newHeadsCh := ch, headsSent := sent, headNotes := ns\<rparr>"
  have sub: "(estep sz)\<^sup>*\<^sup>* e (e\<lparr>headSubs := (headSubs e)(i := SubListening)\<rparr>)"
    if "headSubs e i = SubNone" for e :: "('a, 'b) events" and i
  proof -
    have "estep sz e (e\<lparr>headSubs := (headSubs e)(i := SubStarting)\<rparr>)"
      using estep.new_heads [OF that, of sz] by (simp add: NewHeads_def)
    moreover have "estep sz (e\<lparr>headSubs := (headSubs e)(i := SubStarting)\<rparr>)
        (e\<lparr>headSubs := (headSubs e)(i := SubListening)\<rparr>)"
      using estep.heads_subscribe [of "e\<lparr>headSubs := (headSubs e)(i := SubStarting)\<rparr>" i sz] by simp
    ultimately show ?thesis by (meson estep_trans rtranclp.rtrancl_refl)
  qed
  have "(estep sz)\<^sup>*\<^sup>* ?e0 (?e0\<lparr>headSubs := (headSubs ?e0)(1 := SubListening)\<rparr>)"
    by (rule sub) (simp add: NewEventsEth_def)
  moreover have "(estep sz)\<^sup>*\<^sup>* (?e0\<lparr>headSubs := (headSubs ?e0)(1 := SubListening)\<rparr>) (?q [] [] [])"
    using sub [of "?e0\<lparr>headSubs := (headSubs ?e0)(1 := SubListening)\<rparr>" 2] by (simp add: NewEventsEth_def)
  ultimately have start: "(estep sz)\<^sup>*\<^sup>* ?e0 (?q [] [] [])" by (rule rtranclp_trans)
  have round: "(estep sz)\<^sup>*\<^sup>* (?q [] sent ns) (?q [] (sent @ [h]) (ns @ [(1, h)]))" for sent ns
  proof -
    have "estep sz (?q [] sent ns) (?q [h] (sent @ [h]) ns)"
      using estep.heads_send [of "?q [] sent ns" 1 sz h] assms by (simp add: NewEventsEth_def)
    moreover have "estep sz (?q [h] (sent @ [h]) ns) (?q [] (sent @ [h]) (ns @ [(1, h)]))"
      using estep.heads_receive [of "?q [h] (sent @ [h]) ns" 1 h "[]" sz] by (simp add: NewEventsEth_def)
    ultimately show ?thesis by (meson estep_trans rtranclp.rtrancl_refl)
  qed
  have "(estep sz)\<^sup>*\<^sup>* ?e0 (?q [] [h, h] [(1, h), (1, h)])"
    using start round [of "[]" "[]"] round [of "[(1, h)]" "[h]"] by (auto intro: rtranclp_trans)
  then show ?thesis by (intro exI [of _ "?q [] [h, h] [(1, h), (1, h)]"]) simp
qed

theorem subscriber_misses_heads_witness:
  "\<exists>e :: (nat, nat) events. (estep \<lparr>NewHeadsChSize = 1, LogsChSize = 1\<rparr>)\<^sup>*\<^sup>* NewEventsEth e \<and>
     headNotes e = [(1, 7), (1, 7)] \<and> newHeadsCh e = []"
  using subscriber_misses_heads [of "\<lparr>NewHeadsChSize = 1, LogsChSize = 1\<rparr>" 7] by auto

end
