(* ===== verification/IPNet.thy ===== *)
theory IPNet
  imports Prelude
begin

text \<open>
  The part of Go's \<open>net\<close> and \<open>net/netip\<close> the IP filter uses: \<open>ParseIP\<close>, \<open>ParseCIDR\<close>,
  \<open>CIDRMask\<close>, \<open>IP.Mask\<close>, \<open>IP.To4\<close> and \<open>IPNet.Contains\<close>.  An address is its 4 or 16 bytes.
\<close>


section \<open>Parsing addresses\<close>

fun split_on :: "char \<Rightarrow> string \<Rightarrow> string list" where
  "split_on d [] = [[]]"
| "split_on d (c # cs) =
     (if c = d then [] # split_on d cs
      else case split_on d cs of [] \<Rightarrow> [[c]] | w # ws \<Rightarrow> (c # w) # ws)"

definition dec_digit :: "char \<Rightarrow> nat option" where
  "dec_digit c =
     (let n = of_char c in if 48 \<le> n \<and> n < 58 then Some (n - 48) else None)"

definition hex_value :: "char \<Rightarrow> nat option" where
  "hex_value c =
     (let n = of_char c
      in if 48 \<le> n \<and> n < 58 then Some (n - 48)
         else if 97 \<le> n \<and> n < 103 then Some (n - 87)
         else if 65 \<le> n \<and> n < 71 then Some (n - 55)
         else None)"

text \<open>A field of an IPv4 address: decimal, at most 255, no leading zero.\<close>

fun octet_from :: "nat \<Rightarrow> nat \<Rightarrow> string \<Rightarrow> nat option" where
  "octet_from digLen val [] = (if digLen = 0 then None else Some val)"
| "octet_from digLen val (c # cs) =
     (case dec_digit c of
        None \<Rightarrow> None
      | Some d \<Rightarrow>
          if digLen = 1 \<and> val = 0 then None
          else if val * 10 + d > 255 then None
          else octet_from (digLen + 1) (val * 10 + d) cs)"

fun octets :: "string list \<Rightarrow> u8 list option" where
  "octets [] = Some []"
| "octets (w # ws) =
     (case (octet_from 0 0 w, octets ws) of
        (Some n, Some bs) \<Rightarrow> Some (of_nat n # bs)
      | _ \<Rightarrow> None)"

definition parseIPv4 :: "string \<Rightarrow> u8 list option" where
  "parseIPv4 s = (let ws = split_on CHR ''.'' s in if length ws = 4 then octets ws else None)"

text \<open>
  The hexadecimal number in front of a text: its digits' count and value and the rest; at most
  four digits are allowed.
\<close>

fun hex_group :: "nat \<Rightarrow> nat \<Rightarrow> string \<Rightarrow> (nat \<times> nat \<times> string) option" where
  "hex_group off acc [] = Some (off, acc, [])"
| "hex_group off acc (c # cs) =
     (case hex_value c of
        None \<Rightarrow> Some (off, acc, c # cs)
      | Some d \<Rightarrow>
          if off > 3 then None
          else if acc * 16 + d > 65535 then None
          else hex_group (off + 1) (acc * 16 + d) cs)"

text \<open>
  The loop of \<open>parseIPv6\<close>: the bytes so far, where the \<open>::\<close> was, and the rest of the text; the
  result is the bytes, the \<open>::\<close> and the text left over.
\<close>

function v6_loop :: "u8 list \<Rightarrow> nat option \<Rightarrow> string \<Rightarrow> (u8 list \<times> nat option \<times> string) option" where
  "v6_loop ip ellipsis s =
     (if 16 \<le> length ip then Some (ip, ellipsis, s)
      else case hex_group 0 0 s of
        None \<Rightarrow> None
      | Some (off, acc, rest) \<Rightarrow>
          if off = 0 then None
          else if rest \<noteq> [] \<and> hd rest = CHR ''.'' then
            (if ellipsis = None \<and> length ip \<noteq> 12 then None
             else if 16 < length ip + 4 then None
             else map_option (\<lambda>v4. (ip @ v4, ellipsis, [])) (parseIPv4 s))
          else
            (let ip' = ip @ [of_nat (acc div 256), of_nat acc]
             in if rest = [] then Some (ip', ellipsis, [])
                else if hd rest \<noteq> CHR '':'' \<or> tl rest = [] then None
                else if hd (tl rest) = CHR '':'' then
                  (if ellipsis \<noteq> None then None
                   else if tl (tl rest) = [] then Some (ip', Some (length ip'), [])
                   else v6_loop ip' (Some (length ip')) (tl (tl rest)))
                else v6_loop ip' ellipsis (tl rest)))"
  by pat_completeness auto
termination
  by (relation "measure (\<lambda>(ip, _). 16 - length ip)") auto

declare v6_loop.simps [simp del]

definition expand_ellipsis :: "u8 list \<times> nat option \<times> string \<Rightarrow> u8 list option" where
  "expand_ellipsis x =
     (case x of
        (ip, ellipsis, s) \<Rightarrow>
          if s \<noteq> [] then None
          else case ellipsis of
            None \<Rightarrow> if length ip < 16 then None else Some ip
          | Some e \<Rightarrow>
              if length ip < 16
              then Some (take e ip @ replicate (16 - length ip) 0 @ drop e ip)
              else None)"

text \<open>\<open>parseIPv6\<close>: the address and whether there was a zone.\<close>

definition parseIPv6 :: "string \<Rightarrow> (u8 list \<times> bool) option" where
  "parseIPv6 s0 =
     (let s = takeWhile (\<lambda>c. c \<noteq> CHR ''%'') s0; zoned = CHR ''%'' \<in> set s0
      in if zoned \<and> length s + 1 = length s0 then None
         else if take 2 s = ''::'' then
           (if drop 2 s = [] then Some (replicate 16 0, zoned)
            else map_option (\<lambda>ip. (ip, zoned))
                   (Option.bind (v6_loop [] (Some 0) (drop 2 s)) expand_ellipsis))
         else map_option (\<lambda>ip. (ip, zoned)) (Option.bind (v6_loop [] None s) expand_ellipsis))"

text \<open>\<open>netip.ParseAddr\<close>: the first of \<open>.\<close>, \<open>:\<close> and \<open>%\<close> decides.\<close>

datatype addr = Addr4 "u8 list" | Addr6 "u8 list" bool

definition ParseAddr :: "string \<Rightarrow> addr option" where
  "ParseAddr s =
     (case dropWhile (\<lambda>c. c \<notin> {CHR ''.'', CHR '':'', CHR ''%''}) s of
        [] \<Rightarrow> None
      | c # _ \<Rightarrow>
          if c = CHR ''.'' then map_option Addr4 (parseIPv4 s)
          else if c = CHR '':'' then map_option (\<lambda>(ip, z). Addr6 ip z) (parseIPv6 s)
          else None)"

fun zoned :: "addr \<Rightarrow> bool" where
  "zoned (Addr4 _) = False"
| "zoned (Addr6 _ z) = z"

fun BitLen :: "addr \<Rightarrow> nat" where
  "BitLen (Addr4 _) = 32"
| "BitLen (Addr6 _ _) = 128"

definition v4InV6Prefix :: "u8 list" where
  "v4InV6Prefix = replicate 10 0 @ [0xff, 0xff]"

lemma v4InV6Prefix_list: "v4InV6Prefix = [0, 0, 0, 0, 0, 0, 0, 0, 0, 0, 0xff, 0xff]"
  by (simp add: v4InV6Prefix_def eval_nat_numeral)

fun As16 :: "addr \<Rightarrow> u8 list" where
  "As16 (Addr4 bs) = v4InV6Prefix @ bs"
| "As16 (Addr6 bs _) = bs"

definition ParseIP :: "string \<Rightarrow> u8 list option" where
  "ParseIP s =
     (case ParseAddr s of None \<Rightarrow> None | Some a \<Rightarrow> if zoned a then None else Some (As16 a))"

section \<open>Networks\<close>

record IPNet =
  net_IP :: "u8 list"
  net_Mask :: "u8 list"

fun CIDRMask_bytes :: "nat \<Rightarrow> nat \<Rightarrow> u8 list" where
  "CIDRMask_bytes n 0 = []"
| "CIDRMask_bytes n (Suc l) =
     (if 8 \<le> n then 0xff # CIDRMask_bytes (n - 8) l
      else (not (drop_bit n 0xff)) # CIDRMask_bytes 0 l)"

definition CIDRMask :: "nat \<Rightarrow> nat \<Rightarrow> u8 list" where
  "CIDRMask ones bits = CIDRMask_bytes ones (bits div 8)"

definition To4 :: "u8 list \<Rightarrow> u8 list option" where
  "To4 ip =
     (if length ip = 4 then Some ip
      else if length ip = 16 \<and> take 12 ip = v4InV6Prefix then Some (drop 12 ip)
      else None)"

definition and_bytes :: "u8 list \<Rightarrow> u8 list \<Rightarrow> u8 list" where
  "and_bytes xs ys = map2 and xs ys"

text \<open>\<open>IP.Mask\<close>; \<open>nil\<close> is \<open>None\<close>.\<close>

definition IP_Mask :: "u8 list \<Rightarrow> u8 list \<Rightarrow> u8 list option" where
  "IP_Mask ip m =
     (let m' = (if length m = 16 \<and> length ip = 4 \<and> take 12 m = replicate 12 0xff
                then drop 12 m else m);
          ip' = (if length m' = 4 \<and> length ip = 16 \<and> take 12 ip = v4InV6Prefix
                 then drop 12 ip else ip)
      in if length ip' = length m' then Some (and_bytes ip' m') else None)"

text \<open>\<open>dtoi\<close>: the number in front of a text, how many digits it has, and whether it is one.\<close>

fun dtoi_from :: "nat \<Rightarrow> nat \<Rightarrow> string \<Rightarrow> nat \<times> nat \<times> bool" where
  "dtoi_from n i [] = (n, i, i \<noteq> 0)"
| "dtoi_from n i (c # cs) =
     (case dec_digit c of
        None \<Rightarrow> (n, i, i \<noteq> 0)
      | Some d \<Rightarrow>
          if 0xFFFFFF \<le> n * 10 + d then (0xFFFFFF, i, False) else dtoi_from (n * 10 + d) (i + 1) cs)"

definition ParseCIDR :: "string \<Rightarrow> IPNet option" where
  "ParseCIDR s =
     (if CHR ''/'' \<notin> set s then None
      else
        (let addr = takeWhile (\<lambda>c. c \<noteq> CHR ''/'') s; m = drop (length addr + 1) s
         in case ParseAddr addr of
              None \<Rightarrow> None
            | Some a \<Rightarrow>
                if zoned a then None
                else case dtoi_from 0 0 m of
                  (n, i, ok) \<Rightarrow>
                    if \<not> ok \<or> i \<noteq> length m \<or> n > BitLen a then None
                    else
                      (let msk = CIDRMask n (BitLen a)
                       in map_option (\<lambda>ip. \<lparr>net_IP = ip, net_Mask = msk\<rparr>) (IP_Mask (As16 a) msk))))"

definition networkNumberAndMask :: "IPNet \<Rightarrow> u8 list \<times> u8 list" where
  "networkNumberAndMask n =
     (let ip = (case To4 (net_IP n) of Some x \<Rightarrow> x | None \<Rightarrow> net_IP n); m = net_Mask n
      in if To4 (net_IP n) = None \<and> length ip \<noteq> 16 then ([], [])
         else if length m = 4 then (if length ip \<noteq> 4 then ([], []) else (ip, m))
         else if length m = 16 then (ip, if length ip = 4 then drop 12 m else m)
         else ([], []))"

definition Contains :: "IPNet \<Rightarrow> u8 list \<Rightarrow> bool" where
  "Contains n ip =
     (let (nn, m) = networkNumberAndMask n; x = (case To4 ip of Some y \<Rightarrow> y | None \<Rightarrow> ip)
      in length x = length nn \<and> and_bytes nn m = and_bytes x m)"


section \<open>Addresses as bits\<close>

definition byte_bits :: "u8 \<Rightarrow> bool list" where
  "byte_bits x = [bit x 7, bit x 6, bit x 5, bit x 4, bit x 3, bit x 2, bit x 1, bit x 0]"

definition addr_bits :: "u8 list \<Rightarrow> bool list" where
  "addr_bits bs = concat (map byte_bits bs)"

lemma length_byte_bits [simp]: "length (byte_bits x) = 8"
  by (simp add: byte_bits_def)

lemma addr_bits_simps [simp]:
  "addr_bits [] = []" "addr_bits (x # xs) = byte_bits x @ addr_bits xs"
  by (simp_all add: addr_bits_def)

lemma all_below_8:
  "(\<forall>i < (8 :: nat). P i) \<longleftrightarrow> P 0 \<and> P 1 \<and> P 2 \<and> P 3 \<and> P 4 \<and> P 5 \<and> P 6 \<and> P 7"
  by (simp add: numeral_eq_Suc less_Suc_eq all_conj_distrib)

lemma less_8_cases:
  "n < (8 :: nat) \<longleftrightarrow> n = 0 \<or> n = 1 \<or> n = 2 \<or> n = 3 \<or> n = 4 \<or> n = 5 \<or> n = 6 \<or> n = 7"
  by presburger

lemma byte_bits_inj: "byte_bits x = byte_bits y \<longleftrightarrow> x = y"
proof
  assume "byte_bits x = byte_bits y"
  then have "\<forall>i < 8. bit x i = bit y i"
    unfolding all_below_8 by (simp add: byte_bits_def)
  then show "x = y" by (intro bit_word_eqI) simp
qed simp

lemma length_addr_bits: "length (addr_bits xs) = 8 * length xs"
  by (induction xs) simp_all

lemma take_addr_bits: "take (8 * k) (addr_bits xs) = addr_bits (take k xs)"
proof (induction xs arbitrary: k)
  case (Cons x xs)
  then show ?case by (cases k) (simp_all add: length_addr_bits)
qed simp

lemma addr_bits_inj: "length xs = length ys \<Longrightarrow> addr_bits xs = addr_bits ys \<longleftrightarrow> xs = ys"
  by (induction xs ys rule: list_induct2) (simp_all add: byte_bits_inj)

lemma byte_ff: "(0xff :: u8) = - 1"
  by simp

lemma and_partial_byte:
  fixes x y :: u8
  assumes "n < 8"
  shows "and x (not (drop_bit n 0xff)) = and y (not (drop_bit n 0xff)) \<longleftrightarrow>
    take n (byte_bits x) = take n (byte_bits y)"
proof -
  have "and x (not (drop_bit n 0xff)) = and y (not (drop_bit n 0xff)) \<longleftrightarrow>
      (\<forall>i < 8. 8 \<le> n + i \<longrightarrow> bit x i = bit y i)"
    unfolding byte_ff by (auto simp: bit_eq_iff bit_simps)
  also have "\<dots> \<longleftrightarrow> take n (byte_bits x) = take n (byte_bits y)"
    using assms unfolding all_below_8 less_8_cases byte_bits_def
    by (elim disjE) (simp_all, blast+)
  finally show ?thesis .
qed

lemma masked_bits:
  assumes "length xs = length ys"
  shows "and_bytes xs (CIDRMask_bytes n (length xs)) = and_bytes ys (CIDRMask_bytes n (length xs)) \<longleftrightarrow>
    take n (addr_bits xs) = take n (addr_bits ys)"
  using assms
proof (induction xs ys arbitrary: n rule: list_induct2)
  case Nil
  then show ?case by (simp add: and_bytes_def)
next
  case (Cons x xs y ys)
  show ?case
  proof (cases "8 \<le> n")
    case True
    have "and x 0xff = x" "and y 0xff = y" unfolding byte_ff by simp_all
    with True Cons.IH [of "n - 8"] show ?thesis by (simp add: and_bytes_def byte_bits_inj)
  next
    case False
    with Cons.IH [of 0] and_partial_byte [of n x y] show ?thesis
      by (simp add: and_bytes_def)
  qed
qed

lemma length_CIDRMask_bytes [simp]: "length (CIDRMask_bytes n l) = l"
  by (induction n l rule: CIDRMask_bytes.induct) auto

lemma CIDRMask_whole_bytes:
  "CIDRMask_bytes (8 * k) (k + l) = replicate k 0xff @ replicate l 0"
proof (induction k)
  case 0
  show ?case by (induction l) simp_all
qed simp

lemma length_and_bytes [simp]: "length (and_bytes xs ys) = min (length xs) (length ys)"
  by (simp add: and_bytes_def)

lemma and_bytes_idem: "and_bytes (and_bytes xs m) m = and_bytes xs m"
proof (induction xs arbitrary: m)
  case (Cons x xs)
  then show ?case by (cases m) (simp_all add: and_bytes_def and.assoc)
qed (simp add: and_bytes_def)

section \<open>Which addresses a network contains\<close>

text \<open>A network as \<open>ParseCIDR\<close> makes it from an address of 4 bytes, or of 16 bytes.\<close>

definition net_of :: "u8 list \<Rightarrow> nat \<Rightarrow> IPNet" where
  "net_of bs n =
     \<lparr>net_IP = and_bytes bs (CIDRMask_bytes n (length bs)), net_Mask = CIDRMask_bytes n (length bs)\<rparr>"

lemma Contains_4:
  assumes "length bs = 4"
  shows "Contains (net_of bs n) ip \<longleftrightarrow>
    (\<exists>x. To4 ip = Some x \<and> take n (addr_bits x) = take n (addr_bits bs)) \<or>
    (To4 ip = None \<and> length ip = 4)"
proof -
  have nn: "networkNumberAndMask (net_of bs n) = (and_bytes bs (CIDRMask_bytes n 4), CIDRMask_bytes n 4)"
    using assms by (simp add: networkNumberAndMask_def net_of_def To4_def)
  show ?thesis
  proof (cases "To4 ip")
    case None
    then have "length ip \<noteq> 4" by (auto simp: To4_def)
    with None assms show ?thesis by (simp add: Contains_def nn)
  next
    case (Some x)
    then have "length x = 4" by (auto simp: To4_def split: if_splits)
    with Some assms masked_bits [of bs x n] show ?thesis
      by (auto simp: Contains_def nn and_bytes_idem)
  qed
qed

lemma Contains_16:
  assumes "length bs = 16" "To4 (and_bytes bs (CIDRMask_bytes n 16)) = None"
  shows "Contains (net_of bs n) ip \<longleftrightarrow>
    To4 ip = None \<and> length ip = 16 \<and> take n (addr_bits ip) = take n (addr_bits bs)"
proof -
  have nn: "networkNumberAndMask (net_of bs n) = (and_bytes bs (CIDRMask_bytes n 16), CIDRMask_bytes n 16)"
    using assms by (simp add: networkNumberAndMask_def net_of_def Let_def)
  show ?thesis
  proof (cases "To4 ip")
    case None
    with assms masked_bits [of bs ip n] show ?thesis
      by (auto simp: Contains_def nn and_bytes_idem)
  next
    case (Some x)
    then have "length x = 4" by (auto simp: To4_def split: if_splits)
    with Some assms show ?thesis by (simp add: Contains_def nn)
  qed
qed

lemma octets_length: "octets ws = Some bs \<Longrightarrow> length bs = length ws"
  by (induction ws arbitrary: bs) (auto split: option.splits)

lemma parseIPv4_length: "parseIPv4 s = Some bs \<Longrightarrow> length bs = 4"
  by (auto simp: parseIPv4_def Let_def octets_length split: if_splits)

lemma v6_loop_step:
  assumes "\<not> 16 \<le> length ip" "hex_group 0 0 s = Some (off, acc, rest)" "off \<noteq> 0"
    and "\<not> (rest \<noteq> [] \<and> hd rest = CHR ''.'')"
  shows "v6_loop ip e s =
    (let ip' = ip @ [of_nat (acc div 256), of_nat acc]
     in if rest = [] then Some (ip', e, [])
        else if hd rest \<noteq> CHR '':'' \<or> tl rest = [] then None
        else if hd (tl rest) = CHR '':'' then
          (if e \<noteq> None then None
           else if tl (tl rest) = [] then Some (ip', Some (length ip'), [])
           else v6_loop ip' (Some (length ip')) (tl (tl rest)))
        else v6_loop ip' e (tl rest))"
  using assms by (subst v6_loop.simps) (auto simp: Let_def)

lemma v6_loop_length:
  "v6_loop ip e s = Some (ip', e', s') \<Longrightarrow> length ip \<le> 16 \<Longrightarrow> even (length ip) \<Longrightarrow>
     (\<forall>k. e = Some k \<longrightarrow> k \<le> length ip) \<Longrightarrow> length ip' \<le> 16 \<and> (\<forall>k. e' = Some k \<longrightarrow> k \<le> length ip')"
proof (induction ip e s rule: v6_loop.induct)
  case (1 ip e s)
  show ?case
  proof (cases "16 \<le> length ip")
    case True
    with "1.prems" show ?thesis by (subst (asm) v6_loop.simps) auto
  next
    case False
    then obtain off acc rest where g: "hex_group 0 0 s = Some (off, acc, rest)" "off \<noteq> 0"
      using "1.prems"(1) by (subst (asm) v6_loop.simps) (auto split: option.splits if_splits)
    have l: "length ip + 2 \<le> 16" using False "1.prems"(3) by presburger
    show ?thesis
    proof (cases "rest \<noteq> [] \<and> hd rest = CHR ''.''")
      case True
      with "1.prems" False g show ?thesis
        by (subst (asm) v6_loop.simps) (auto dest!: parseIPv4_length split: if_splits)
    next
      case nodot: False
      let ?ip = "ip @ [of_nat (acc div 256), of_nat acc]"
      note step = v6_loop_step [OF False g nodot]
      have ip: "length ?ip \<le> 16" "even (length ?ip)" "\<forall>k. e = Some k \<longrightarrow> k \<le> length ?ip"
        using l "1.prems"(3,4) by auto
      note IH1 = "1.IH"(1) [OF False g(1) refl refl g(2) nodot refl _ _ _ _ _ _ ip(1,2)]
      note IH2 = "1.IH"(2) [OF False g(1) refl refl g(2) nodot refl _ _ _ _ ip]
      show ?thesis
      proof (cases "rest = [] \<or> hd rest \<noteq> CHR '':'' \<or> tl rest = []")
        case True
        with "1.prems"(1) ip show ?thesis by (auto simp: step Let_def split: if_splits)
      next
        case more: False
        show ?thesis
        proof (cases "hd (tl rest) = CHR '':''")
          case True
          with more "1.prems"(1) ip IH1 show ?thesis by (auto simp: step Let_def split: if_splits)
        next
          case False
          with more "1.prems"(1) IH2 show ?thesis by (simp add: step Let_def)
        qed
      qed
    qed
  qed
qed

text \<open>The characters of an address; a slash is none of them.\<close>

definition addr_char :: "char \<Rightarrow> bool" where
  "addr_char c \<longleftrightarrow> hex_value c \<noteq> None \<or> c = CHR ''.'' \<or> c = CHR '':''"

lemma slash_no_addr_char: "\<not> addr_char CHR ''/''"
  by (simp add: addr_char_def hex_value_def Let_def)

lemma octet_chars: "octet_from l v w = Some n \<Longrightarrow> list_all addr_char w"
  by (induction l v w arbitrary: n rule: octet_from.induct)
    (auto simp: addr_char_def hex_value_def dec_digit_def Let_def split: if_splits option.splits)

lemma octets_chars: "octets ws = Some bs \<Longrightarrow> list_all (list_all addr_char) ws"
  by (induction ws arbitrary: bs) (auto dest: octet_chars split: option.splits)

lemma split_on_chars: "list_all (list_all P) (split_on d s) \<Longrightarrow> P d \<Longrightarrow> list_all P s"
  by (induction s) (auto split: if_splits list.splits)

lemma parseIPv4_chars: "parseIPv4 s = Some bs \<Longrightarrow> list_all addr_char s"
  by (auto simp: parseIPv4_def Let_def addr_char_def [of "CHR ''.''"] split: if_splits
      dest!: octets_chars intro!: split_on_chars [of addr_char "CHR ''.''"])

lemma hex_group_chars:
  "hex_group off acc s = Some (off', acc', rest) \<Longrightarrow> \<exists>ds. s = ds @ rest \<and> list_all addr_char ds"
proof (induction off acc s rule: hex_group.induct)
  case (2 off acc c cs)
  show ?case
  proof (cases "hex_value c")
    case None
    with 2(2) show ?thesis by auto
  next
    case (Some d)
    with 2(2) have h: "\<not> 3 < off" "\<not> 65535 < acc * 16 + d"
        "hex_group (off + 1) (acc * 16 + d) cs = Some (off', acc', rest)"
      by (auto split: if_splits)
    from 2(1) [OF Some h] obtain ds where "cs = ds @ rest" "list_all addr_char ds" by blast
    moreover have "addr_char c" using Some by (simp add: addr_char_def)
    ultimately show ?thesis by (intro exI [of _ "c # ds"]) simp
  qed
qed simp

lemma v6_loop_chars:
  "v6_loop ip e s = Some (ip', e', s') \<Longrightarrow> \<exists>pre. s = pre @ s' \<and> list_all addr_char pre"
proof (induction ip e s rule: v6_loop.induct)
  case (1 ip e s)
  show ?case
  proof (cases "16 \<le> length ip")
    case True
    with "1.prems" show ?thesis by (subst (asm) v6_loop.simps) auto
  next
    case False
    then obtain off acc rest where g: "hex_group 0 0 s = Some (off, acc, rest)" "off \<noteq> 0"
      using "1.prems"(1) by (subst (asm) v6_loop.simps) (auto split: option.splits if_splits)
    obtain ds where ds: "s = ds @ rest" "list_all addr_char ds"
      using hex_group_chars [OF g(1)] by blast
    show ?thesis
    proof (cases "rest \<noteq> [] \<and> hd rest = CHR ''.''")
      case True
      with "1.prems" False g show ?thesis
        by (subst (asm) v6_loop.simps) (auto dest!: parseIPv4_chars split: if_splits)
    next
      case nodot: False
      let ?ip = "ip @ [of_nat (acc div 256), of_nat acc]"
      note step = v6_loop_step [OF False g nodot]
      have colon: "addr_char CHR '':''" by (simp add: addr_char_def)
      note IH1 = "1.IH"(1) [OF False g(1) refl refl g(2) nodot refl]
      note IH2 = "1.IH"(2) [OF False g(1) refl refl g(2) nodot refl]
      show ?thesis
      proof (cases "rest = [] \<or> hd rest \<noteq> CHR '':'' \<or> tl rest = []")
        case True
        with "1.prems"(1) step have "rest = []" "s' = []" by (auto simp: Let_def split: if_splits)
        with ds show ?thesis by simp
      next
        case more: False
        then obtain r1 rs where r: "rest = CHR '':'' # r1 # rs"
          by (metis hd_Cons_tl)
        show ?thesis
        proof (cases "r1 = CHR '':''")
          case True
          with "1.prems"(1) r step have "rs = [] \<and> s' = [] \<or> rs \<noteq> [] \<and> e = None \<and>
              v6_loop ?ip (Some (length ?ip)) rs = Some (ip', e', s')"
            by (auto simp: Let_def split: if_splits)
          then show ?thesis
          proof
            assume "rs = [] \<and> s' = []"
            with ds r True colon show ?thesis by (intro exI [of _ s]) simp
          next
            assume a: "rs \<noteq> [] \<and> e = None \<and> v6_loop ?ip (Some (length ?ip)) rs = Some (ip', e', s')"
            then obtain pre where "rs = pre @ s'" "list_all addr_char pre"
              using IH1 r True by auto
            with ds r True colon show ?thesis by (intro exI [of _ "ds @ ''::'' @ pre"]) simp
          qed
        next
          case False
          with "1.prems"(1) r step have "v6_loop ?ip e (r1 # rs) = Some (ip', e', s')"
            by (simp add: Let_def)
          then obtain pre where "r1 # rs = pre @ s'" "list_all addr_char pre"
            using IH2 r False by auto
          with ds r colon show ?thesis by (intro exI [of _ "ds @ CHR '':'' # pre"]) simp
        qed
      qed
    qed
  qed
qed

lemma expand_length:
  "expand_ellipsis (ip, e, s) = Some bs \<Longrightarrow> length ip \<le> 16 \<Longrightarrow> (\<forall>k. e = Some k \<longrightarrow> k \<le> length ip) \<Longrightarrow>
     length bs = 16 \<and> s = []"
  by (auto simp: expand_ellipsis_def split: if_splits option.splits)

lemma v6_bytes:
  assumes "Option.bind (v6_loop [] e s) expand_ellipsis = Some bs" "e = None \<or> e = Some 0"
  shows "length bs = 16 \<and> list_all addr_char s"
proof -
  obtain ip' e' s' where l: "v6_loop [] e s = Some (ip', e', s')" "expand_ellipsis (ip', e', s') = Some bs"
    using assms(1) by (cases "v6_loop [] e s") auto
  have "length ip' \<le> 16 \<and> (\<forall>k. e' = Some k \<longrightarrow> k \<le> length ip')"
    using v6_loop_length [OF l(1)] assms(2) by auto
  with expand_length [OF l(2)] v6_loop_chars [OF l(1)] show ?thesis by auto
qed

lemma ParseAddr_4: "ParseAddr s = Some (Addr4 bs) \<Longrightarrow> length bs = 4 \<and> list_all addr_char s"
  by (auto simp: ParseAddr_def parseIPv4_length parseIPv4_chars split: list.splits if_splits)

lemma ParseAddr_6:
  assumes "ParseAddr s = Some (Addr6 bs False)"
  shows "length bs = 16 \<and> list_all addr_char s"
proof -
  have p: "parseIPv6 s = Some (bs, False)"
    using assms by (auto simp: ParseAddr_def split: list.splits if_splits)
  then have "CHR ''%'' \<notin> set s" by (auto simp: parseIPv6_def Let_def split: if_splits)
  then have t: "takeWhile (\<lambda>c. c \<noteq> CHR ''%'') s = s" by (auto simp: takeWhile_eq_all_conv)
  have colon: "addr_char CHR '':''" by (simp add: addr_char_def)
  show ?thesis
  proof (cases "take 2 s = ''::''")
    case True
    then have s: "s = ''::'' @ drop 2 s" by (metis append_take_drop_id)
    have "list_all addr_char s" if "list_all addr_char (drop 2 s)"
    proof -
      have "list_all addr_char (''::'' @ drop 2 s)" using that colon by simp
      then show ?thesis unfolding s [symmetric] .
    qed
    with p t True v6_bytes [of "Some 0" "drop 2 s" bs] colon s show ?thesis
      by (auto simp: parseIPv6_def Let_def split: if_splits)
  next
    case False
    with p t v6_bytes [of None s bs] show ?thesis
      by (auto simp: parseIPv6_def Let_def split: if_splits)
  qed
qed

lemma dtoi_32: "dtoi_from 0 0 ''32'' = (32, 2, True)"
  by (simp add: dec_digit_def Let_def)

text \<open>What a CIDR of an address and a prefix length gives.\<close>

lemma ParseCIDR_append:
  assumes "list_all addr_char s" "ParseAddr s = Some a" "\<not> zoned a"
    and "dtoi_from 0 0 m = (n, length m, True)" "n \<le> BitLen a"
  shows "ParseCIDR (s @ ''/'' @ m) =
    map_option (\<lambda>ip. \<lparr>net_IP = ip, net_Mask = CIDRMask n (BitLen a)\<rparr>)
      (IP_Mask (As16 a) (CIDRMask n (BitLen a)))"
proof -
  have "\<forall>c \<in> set s. c \<noteq> CHR ''/''"
    using assms(1) slash_no_addr_char by (auto simp: list_all_iff)
  then have t: "takeWhile (\<lambda>c. c \<noteq> CHR ''/'') (s @ CHR ''/'' # m) = s"
    by (simp add: takeWhile_append2)
  show ?thesis using assms(2-5) by (simp add: ParseCIDR_def t Let_def)
qed

lemma ParseCIDR_4:
  assumes "ParseAddr s = Some (Addr4 bs)" "dtoi_from 0 0 m = (n, length m, True)" "n \<le> 32"
  shows "ParseCIDR (s @ ''/'' @ m) = Some (net_of bs n)"
proof -
  have l: "length bs = 4" and c: "list_all addr_char s" using ParseAddr_4 [OF assms(1)] by auto
  have "IP_Mask (v4InV6Prefix @ bs) (CIDRMask_bytes n 4) = Some (and_bytes bs (CIDRMask_bytes n 4))"
    using l by (simp add: IP_Mask_def v4InV6Prefix_def)
  with ParseCIDR_append [OF c assms(1) _ assms(2)] assms(3) l show ?thesis
    by (simp add: CIDRMask_def net_of_def)
qed

lemma ParseCIDR_6:
  assumes "ParseAddr s = Some (Addr6 bs False)" "dtoi_from 0 0 m = (n, length m, True)" "n \<le> 128"
  shows "ParseCIDR (s @ ''/'' @ m) = Some (net_of bs n)"
proof -
  have l: "length bs = 16" and c: "list_all addr_char s" using ParseAddr_6 [OF assms(1)] by auto
  have "IP_Mask bs (CIDRMask_bytes n 16) = Some (and_bytes bs (CIDRMask_bytes n 16))"
    using l by (simp add: IP_Mask_def)
  with ParseCIDR_append [OF c assms(1) _ assms(2)] assms(3) l show ?thesis
    by (simp add: CIDRMask_def net_of_def)
qed

end
