(* ===== verification/IPFilter.thy ===== *)
theory IPFilter
  imports IPNet
begin

text \<open>
  \<open>middleware/filterIP.go\<close>: the filter of client addresses.  The configuration reader (viper) and
  \<open>utils.ClientIpFromContext\<close> are libraries: their results are arguments.  The handler behind the
  filter and the error answers are the constructors of \<open>decision\<close>.
\<close>

section \<open>Configuration\<close>

record ip_filter =
  policy :: string
  ip_list :: "IPNet list"

text \<open>An entry: a plain address gets \<open>/32\<close>; what does not parse is logged and left out.\<close>

definition parse_entry :: "string \<Rightarrow> IPNet option" where
  "parse_entry cidr = ParseCIDR (if ParseIP cidr \<noteq> None then cidr @ ''/32'' else cidr)"

fun append_entries :: "string list \<Rightarrow> ip_filter \<Rightarrow> ip_filter" where
  "append_entries [] f = f"
| "append_entries (cidr # l) f =
     (case parse_entry cidr of
        None \<Rightarrow> append_entries l f
      | Some n \<Rightarrow> append_entries l (f\<lparr>ip_list := ip_list f @ [n]\<rparr>))"

definition setConfig :: "string \<Rightarrow> string list \<Rightarrow> ip_filter \<Rightarrow> ip_filter" where
  "setConfig p l f =
     append_entries l (f\<lparr>policy := (if p = ''allow'' then p else ''deny''), ip_list := []\<rparr>)"

text \<open>
  The same, statement by statement: the values of the filter a request handled meanwhile can
  see, the last one being the result.
\<close>

fun append_steps :: "string list \<Rightarrow> ip_filter \<Rightarrow> ip_filter list" where
  "append_steps [] f = []"
| "append_steps (cidr # l) f =
     (case parse_entry cidr of
        None \<Rightarrow> append_steps l f
      | Some n \<Rightarrow>
          (let f' = f\<lparr>ip_list := ip_list f @ [n]\<rparr> in f' # append_steps l f'))"

definition setConfig_steps :: "string \<Rightarrow> string list \<Rightarrow> ip_filter \<Rightarrow> ip_filter list" where
  "setConfig_steps p l f =
     (let f1 = f\<lparr>policy := (if p = ''allow'' then p else ''deny'')\<rparr>; f2 = f1\<lparr>ip_list := []\<rparr>
      in f1 # f2 # append_steps l f2)"

text \<open>
  \<open>FilterIP\<close> up to the middleware: which file is read, and the filter made from it.  A file that
  cannot be read for another reason than its path ends the process (\<open>None\<close>).
\<close>

datatype read_error = PathError | OtherReadError

definition filter_file :: "string \<Rightarrow> string" where
  "filter_file configured = (if configured = [] then ''config/filter.yaml'' else configured)"

definition FilterIP ::
  "(string \<Rightarrow> read_error option \<times> string \<times> string list) \<Rightarrow> string \<Rightarrow> ip_filter option" where
  "FilterIP read_config configured =
     (case read_config (filter_file configured) of
        (Some OtherReadError, _, _) \<Rightarrow> None
      | (_, p, l) \<Rightarrow> Some (setConfig p l \<lparr>policy = [], ip_list = []\<rparr>))"

section \<open>The middleware\<close>

datatype decision = Handle | UnknownClient | ForbiddenClient

text \<open>\<open>client\<close>: the address from the context, a pointer, and whether there is one.\<close>

fun any_contains :: "IPNet list \<Rightarrow> u8 list \<Rightarrow> bool" where
  "any_contains [] ip = False"
| "any_contains (n # ns) ip = (if Contains n ip then True else any_contains ns ip)"

definition filter_request :: "ip_filter \<Rightarrow> u8 list option \<times> bool \<Rightarrow> decision" where
  "filter_request f client =
     (if 0 < length (ip_list f) then
        (case client of
           (Some ip, True) \<Rightarrow>
             if policy f = ''allow'' then
               (if any_contains (ip_list f) ip then Handle else ForbiddenClient)
             else if any_contains (ip_list f) ip then ForbiddenClient
             else Handle
         | _ \<Rightarrow> UnknownClient)
      else Handle)"

section \<open>Entries\<close>

text \<open>
  C38. A plain IPv4 address in the list stands for that client and no other, however the client's
  address is written (4 bytes or the IPv6 form of them).
\<close>

theorem ipv4_entry_is_exact:
  assumes "ParseAddr s = Some (Addr4 bs)" "length ip = 4 \<or> length ip = 16"
  shows "\<exists>n. parse_entry s = Some n \<and> (Contains n ip \<longleftrightarrow> To4 ip = Some bs)"
proof -
  have l: "length bs = 4" using ParseAddr_4 [OF assms(1)] by simp
  have "parse_entry s = Some (net_of bs 32)"
    using assms(1) ParseCIDR_4 [OF assms(1), of "''32''" 32] dtoi_32
    by (simp add: parse_entry_def ParseIP_def)
  moreover have "take 32 (addr_bits x) = take 32 (addr_bits bs) \<longleftrightarrow> x = bs" if "length x = 4" for x
    using that l addr_bits_inj [of x bs] by (simp add: length_addr_bits)
  then have "Contains (net_of bs 32) ip \<longleftrightarrow> To4 ip = Some bs"
    using assms(2) by (auto simp: Contains_4 [OF l] To4_def split: if_splits)
  ultimately show ?thesis by blast
qed

theorem ipv4_entry_is_exact_witness:
  "\<exists>n. parse_entry ''10.1.2.3'' = Some n \<and> Contains n (v4InV6Prefix @ [10, 1, 2, 3])"
proof -
  have "ParseAddr ''10.1.2.3'' = Some (Addr4 [10, 1, 2, 3])"
    by (simp add: ParseAddr_def parseIPv4_def dec_digit_def)
  from ipv4_entry_is_exact [OF this, of "v4InV6Prefix @ [10, 1, 2, 3]"] show ?thesis
    by (simp add: v4InV6Prefix_def To4_def)
qed

text \<open>
  C28. A plain IPv6 address in the list stands for its whole \<open>/32\<close> network: every IPv6 client with
  the same first four bytes, \<open>2 ^ 96\<close> of them; an IPv4 client never, not even when the entry is
  the IPv6 form of its address.
\<close>

theorem ipv6_entry_is_a_32_network:
  assumes "ParseAddr s = Some (Addr6 bs False)"
  shows "\<exists>n. parse_entry s = Some n \<and>
    (Contains n ip \<longleftrightarrow> To4 ip = None \<and> length ip = 16 \<and> take 4 ip = take 4 bs)"
proof -
  have l: "length bs = 16" using ParseAddr_6 [OF assms] by simp
  have e: "parse_entry s = Some (net_of bs 32)"
    using assms ParseCIDR_6 [OF assms, of "''32''" 32] dtoi_32
    by (simp add: parse_entry_def ParseIP_def)
  let ?m = "and_bytes bs (CIDRMask_bytes 32 16)"
  have "?m ! 10 = 0"
    using l CIDRMask_whole_bytes [of 4 12] by (simp add: and_bytes_def nth_append)
  then have "take 12 ?m ! 10 \<noteq> v4InV6Prefix ! 10" by (simp add: v4InV6Prefix_def nth_append)
  then have "take 12 ?m \<noteq> v4InV6Prefix" by metis
  then have n4: "To4 ?m = None" using l by (simp add: To4_def)
  have "take 32 (addr_bits ip) = take 32 (addr_bits bs) \<longleftrightarrow> take 4 ip = take 4 bs"
    if "length ip = 16"
    using that l addr_bits_inj [of "take 4 ip" "take 4 bs"] take_addr_bits [of 4 ip]
      take_addr_bits [of 4 bs] by simp
  with Contains_16 [OF l n4] e show ?thesis by auto
qed

theorem ipv6_entry_is_a_32_network_witness:
  "\<exists>n. parse_entry ''2001:db8::1'' = Some n \<and>
     Contains n [0x20, 0x01, 0x0d, 0xb8, 9, 9, 9, 9, 9, 9, 9, 9, 9, 9, 9, 9]"
proof -
  have 3: "v6_loop [32, 8193, 13, 3512] (Some (Suc (Suc (Suc (Suc 0))))) ''1'' =
      Some ([0x20, 0x01, 0x0d, 0xb8, 0, 1], Some 4, [])"
    by (subst v6_loop.simps) (simp add: hex_value_def)
  have 2: "v6_loop [32, 8193] None ''db8::1'' = Some ([0x20, 0x01, 0x0d, 0xb8, 0, 1], Some 4, [])"
    by (subst v6_loop.simps) (simp add: hex_value_def 3)
  have 1: "v6_loop [] None ''2001:db8::1'' = Some ([0x20, 0x01, 0x0d, 0xb8, 0, 1], Some 4, [])"
    by (subst v6_loop.simps) (simp add: hex_value_def 2)
  have "ParseAddr ''2001:db8::1'' =
      Some (Addr6 ([0x20, 0x01, 0x0d, 0xb8] @ replicate 10 0 @ [0, 1]) False)"
    by (simp add: ParseAddr_def parseIPv6_def 1 expand_ellipsis_def numeral_eq_Suc [of "num.Bit0 num.One"])
  from ipv6_entry_is_a_32_network
    [OF this, of "[0x20, 0x01, 0x0d, 0xb8, 9, 9, 9, 9, 9, 9, 9, 9, 9, 9, 9, 9]"]
  show ?thesis by (simp add: To4_def v4InV6Prefix_list)
qed

text \<open>A network in CIDR notation is the addresses with its first bits.\<close>

lemma cidr_entry:
  assumes "ParseAddr s = Some (Addr4 bs)" "dtoi_from 0 0 m = (n, length m, True)" "n \<le> 32"
    and "length ip = 4 \<or> length ip = 16"
  shows "\<exists>net. ParseCIDR (s @ ''/'' @ m) = Some net \<and> (Contains net ip \<longleftrightarrow>
    (\<exists>x. To4 ip = Some x \<and> take n (addr_bits x) = take n (addr_bits bs)))"
proof -
  have l: "length bs = 4" using ParseAddr_4 [OF assms(1)] by simp
  show ?thesis
    using ParseCIDR_4 [OF assms(1-3)] Contains_4 [OF l, of n ip] assms(4)
    by (auto simp: To4_def split: if_splits)
qed

section \<open>Policies\<close>

lemma any_contains_iff: "any_contains ns ip \<longleftrightarrow> (\<exists>n \<in> set ns. Contains n ip)"
  by (induction ns) auto

lemma append_entries_eq:
  "append_entries l f = f\<lparr>ip_list := ip_list f @ List.map_filter parse_entry l\<rparr>"
  by (induction l arbitrary: f) (auto simp: map_filter_simps split: option.split)

lemma setConfig_eq:
  "setConfig p l f = f\<lparr>policy := (if p = ''allow'' then p else ''deny''),
     ip_list := List.map_filter parse_entry l\<rparr>"
  by (simp add: setConfig_def append_entries_eq)

text \<open>
  C27. What the filter decides: with no usable entry every request is handled, under either
  policy; otherwise a client without an address is refused, and a client is handled under
  \<open>allow\<close> exactly when an entry contains it, under any other policy exactly when none does.
\<close>

theorem filter_decides:
  "filter_request (setConfig p l f) client =
     (let nets = List.map_filter parse_entry l
      in if nets = [] then Handle
         else case client of
             (Some ip, True) \<Rightarrow>
               if (\<exists>n \<in> set nets. Contains n ip) = (p = ''allow'') then Handle else ForbiddenClient
           | _ \<Rightarrow> UnknownClient)"
  by (auto simp: filter_request_def setConfig_eq any_contains_iff Let_def
      split: option.split bool.split prod.split)

text \<open>The steps of \<open>setConfig\<close> end in its result.\<close>

lemma append_steps_last: "append_steps l f \<noteq> [] \<Longrightarrow> last (append_steps l f) = append_entries l f"
proof (induction l arbitrary: f)
  case (Cons cidr l)
  have "append_steps l g = [] \<Longrightarrow> append_entries l g = g" for g
    by (induction l arbitrary: g) (auto simp: Let_def split: option.splits)
  with Cons show ?case by (auto simp: Let_def split: option.splits)
qed simp

lemma append_steps_none: "append_steps l f = [] \<Longrightarrow> append_entries l f = f"
  by (induction l arbitrary: f) (auto simp: Let_def split: option.splits)

lemma setConfig_steps_last: "last (setConfig_steps p l f) = setConfig p l f"
  using append_steps_last append_steps_none
  by (simp add: setConfig_steps_def setConfig_def Let_def)

text \<open>
  C29. A reload opens the filter: the list is emptied before it is filled again, and requests are
  handled meanwhile.  Whatever the old and the new configuration are, the reload passes through
  a state in which every client, known or not, is handled.
\<close>

theorem reload_admits_everyone:
  "\<exists>g \<in> set (setConfig_steps p l f). \<forall>client. filter_request g client = Handle"
  by (rule bexI [of _ "f\<lparr>policy := (if p = ''allow'' then p else ''deny''), ip_list := []\<rparr>"])
    (simp_all add: filter_request_def setConfig_steps_def Let_def)

end
