(* ===== verification/Middleware.thy ===== *)
theory Middleware
  imports IPFilter
begin

text \<open>
  \<open>middleware/proxy.go\<close>: the middleware that sends the configured methods to a remote server.
  \<open>http_do\<close> is \<open>fasthttp.Do\<close>: the body of the response or an error.
\<close>

record http_request =
  req_URI :: string
  req_ContentType :: string
  req_Method :: string
  req_Body :: "u8 list"

text \<open>The fields of \<open>endpoint.Config\<close> it reads; a method without an entry is not proxied.\<close>

record proxy_endpoints =
  ProxyEndpoints :: "string \<rightharpoonup> bool"
  ProxyUrl :: string

datatype 'r rpc_answer = Handled 'r | Relayed "u8 list" | RelayFailed error

definition proxied :: "proxy_endpoints \<Rightarrow> string \<Rightarrow> bool" where
  "proxied ep name = (case ProxyEndpoints ep name of Some b \<Rightarrow> b | None \<Rightarrow> False)"

definition Proxy ::
  "string \<Rightarrow> proxy_endpoints \<Rightarrow> (http_request \<Rightarrow> error + u8 list) \<Rightarrow> ('ctx \<Rightarrow> 'r) \<Rightarrow>
     string \<Rightarrow> u8 list \<Rightarrow> 'ctx \<Rightarrow> 'r rpc_answer" where
  "Proxy contentType ep http_do handler name body ctx =
     (if proxied ep name then
        (case http_do \<lparr>req_URI = ProxyUrl ep, req_ContentType = contentType,
                       req_Method = ''POST'', req_Body = body\<rparr> of
           Inl e \<Rightarrow> RelayFailed e
         | Inr resp \<Rightarrow> Relayed resp)
      else Handled (handler ctx))"

text \<open>A proxied method never reaches the handler, any other always does.\<close>

lemma Proxy_handled_iff:
  "(\<exists>r. Proxy ct ep http_do handler name body ctx = Handled r) \<longleftrightarrow> \<not> proxied ep name"
  by (auto simp: Proxy_def split: sum.split)

end
