(* ===== verification/ProxyWire.thy ===== *)
theory ProxyWire
  imports Prelude
begin

text \<open>
  The connection of \<open>standaloneproxy/proxy.go\<close> to the refiner: \<open>rpcClient\<close> with \<open>reconnect\<close>,
  \<open>request\<close> and \<open>Close\<close>.  A message is its length as four little-endian bytes and its bytes.

  A connection is the bytes written to it and the bytes that arrived and are not read yet.  What
  the system does during a call (a missing socket, a failing dial or write, the bytes that
  arrive before the deadline, the error of a read that cannot complete) is its argument
  \<open>call_io\<close>.
\<close>

section \<open>Errors\<close>

datatype num_error = ErrSyntax | ErrRange

datatype sys_error = EPIPE | SysError string

text \<open>
  The errors of this package: a text, a wrapped error (\<open>fmt.Errorf\<close> with \<open>%w\<close>), the errors of
  \<open>strconv\<close>, of system calls and of the JSON libraries.
\<close>

datatype go_err =
    ErrText string
  | ErrWrap string go_err
  | ErrNum string num_error
  | ErrSys sys_error
  | ErrLib string
  | ErrKeyPathNotFound

fun errors_Is :: "go_err \<Rightarrow> go_err \<Rightarrow> bool" where
  "errors_Is (ErrWrap m e) t = (ErrWrap m e = t \<or> errors_Is e t)"
| "errors_Is e t = (e = t)"

section \<open>Little-endian lengths\<close>

definition le32 :: "u32 \<Rightarrow> u8 list" where
  "le32 n = [ucast n, ucast (drop_bit 8 n), ucast (drop_bit 16 n), ucast (drop_bit 24 n)]"

definition un_le32 :: "u8 list \<Rightarrow> u32" where
  "un_le32 bs =
     of_nat (unat (bs ! 0) + 2 ^ 8 * unat (bs ! 1) + 2 ^ 16 * unat (bs ! 2) + 2 ^ 24 * unat (bs ! 3))"

lemma length_le32 [simp]: "length (le32 n) = 4"
  by (simp add: le32_def)

lemma unat_byte: "unat (ucast (drop_bit k (n :: u32)) :: u8) = unat n div 2 ^ k mod 2 ^ 8"
  by (simp add: unsigned_ucast_eq unat_drop_bit_eq take_bit_eq_mod) (simp add: drop_bit_eq_div)

lemma base_256:
  fixes m :: nat
  assumes "m < 2 ^ 32"
  shows "m mod 256 + 256 * (m div 256 mod 256) + 65536 * (m div 65536 mod 256) +
    16777216 * (m div 16777216 mod 256) = m"
proof -
  have a: "m = m mod 256 + 256 * (m div 256)" by simp
  have b: "m div 256 = m div 256 mod 256 + 256 * (m div 65536)"
    using div_mult2_eq [of m 256 256] by simp
  have c: "m div 65536 = m div 65536 mod 256 + 256 * (m div 16777216)"
    using div_mult2_eq [of m 65536 256] by simp
  have d: "m div 16777216 mod 256 = m div 16777216"
    using assms by (intro mod_less) (simp add: less_mult_imp_div_less)
  have "256 * (m div 256) = 256 * (m div 256 mod 256) + 65536 * (m div 65536)"
    by (subst b) simp
  moreover have "65536 * (m div 65536) = 65536 * (m div 65536 mod 256) + 16777216 * (m div 16777216)"
    by (subst c) simp
  ultimately show ?thesis using a unfolding d by linarith
qed

lemma un_le32_le32 [simp]: "un_le32 (le32 n @ rest) = n"
proof -
  have "unat (ucast n :: u8) = unat n mod 256"
    using unat_byte [of 0 n] by simp
  then have "un_le32 (le32 n @ rest) = of_nat (unat n mod 256 + 256 * (unat n div 256 mod 256) +
      65536 * (unat n div 65536 mod 256) + 16777216 * (unat n div 16777216 mod 256))"
    by (simp add: un_le32_def le32_def unat_byte)
  also have "unat n mod 256 + 256 * (unat n div 256 mod 256) + 65536 * (unat n div 65536 mod 256) +
      16777216 * (unat n div 16777216 mod 256) = unat n"
    using unsigned_less [of n] by (intro base_256) simp
  finally show ?thesis by simp
qed

section \<open>The client\<close>

record conn =
  conn_out :: "u8 list"
  conn_in :: "u8 list"
  conn_closed :: bool

record rpcClient =
  rc_conn :: "conn option"
  rc_network :: string
  rc_address :: string
  rc_timeout :: int

definition newRPCClient :: "string \<Rightarrow> string \<Rightarrow> int \<Rightarrow> rpcClient" where
  "newRPCClient network address timeout =
     \<lparr>rc_conn = None, rc_network = network, rc_address = address, rc_timeout = timeout\<rparr>"

text \<open>One attempt to connect: is the socket missing, does dialling fail.\<close>

record dial_io =
  no_socket :: bool
  dial_fault :: "go_err option"

record call_io =
  first_dial :: dial_io
  second_dial :: dial_io
  deadline_fault :: "go_err option"
  len_write :: "nat \<times> go_err option"
  req_write :: "nat \<times> go_err option"
  arriving :: "u8 list"
  read_fault :: go_err

definition fresh_conn :: conn where
  "fresh_conn = \<lparr>conn_out = [], conn_in = [], conn_closed = False\<rparr>"

definition no_refiner :: go_err where
  "no_refiner = ErrText
     ''socket connection to refiner is not available. Trying to reconnect. Please try again''"

definition reconnect :: "dial_io \<Rightarrow> rpcClient \<Rightarrow> go_err option \<times> rpcClient" where
  "reconnect d rc =
     (if no_socket d \<or> dial_fault d \<noteq> None then (Some no_refiner, rc)
      else (None, rc\<lparr>rc_conn := Some fresh_conn\<rparr>))"

text \<open>\<open>Write\<close> on a connection: all bytes, or some of them and an error.\<close>

definition conn_write :: "nat \<times> go_err option \<Rightarrow> u8 list \<Rightarrow> conn \<Rightarrow> go_err option \<times> conn" where
  "conn_write w bs c =
     (snd w, c\<lparr>conn_out := conn_out c @ (if snd w = None then bs else take (fst w) bs)\<rparr>)"

text \<open>\<open>io.ReadFull\<close>: the bytes asked for, or an error after what there was is consumed.\<close>

definition read_full :: "nat \<Rightarrow> go_err \<Rightarrow> conn \<Rightarrow> (go_err + u8 list) \<times> conn" where
  "read_full n e c =
     (if n \<le> length (conn_in c)
      then (Inr (take n (conn_in c)), c\<lparr>conn_in := drop n (conn_in c)\<rparr>)
      else (Inl e, c\<lparr>conn_in := []\<rparr>))"

definition err_closed :: go_err where
  "err_closed = ErrSys (SysError ''use of closed network connection'')"

text \<open>
  \<open>request\<close> in its two parts: connecting when there is no connection, outside the lock, and the
  exchange under the lock.
\<close>

definition ensure_conn :: "call_io \<Rightarrow> rpcClient \<Rightarrow> go_err option \<times> rpcClient" where
  "ensure_conn cio rc = (if rc_conn rc = None then reconnect (first_dial cio) rc else (None, rc))"

definition exchange ::
  "call_io \<Rightarrow> u8 list \<Rightarrow> rpcClient \<Rightarrow> ((go_err + u8 list) \<times> rpcClient) outcome" where
  "exchange cio req rc =
     (case rc_conn rc of
        None \<Rightarrow> Panic NilDeref
      | Some c \<Rightarrow>
          if conn_closed c then Ret (Inl err_closed, rc)
          else case deadline_fault cio of
            Some e \<Rightarrow> Ret (Inl e, rc)
          | None \<Rightarrow>
              (case conn_write (len_write cio) (le32 (of_nat (length req))) c of
                 (Some e, c1) \<Rightarrow>
                   if errors_Is e (ErrSys EPIPE) then
                     (case reconnect (second_dial cio) (rc\<lparr>rc_conn := Some c1\<rparr>) of
                        (Some e', rc') \<Rightarrow> Ret (Inl e', rc')
                      | (None, rc') \<Rightarrow> Ret (Inl e, rc'))
                   else Ret (Inl e, rc\<lparr>rc_conn := Some c1\<rparr>)
               | (None, c1) \<Rightarrow>
                   (case conn_write (req_write cio) req c1 of
                      (Some e, c2) \<Rightarrow> Ret (Inl e, rc\<lparr>rc_conn := Some c2\<rparr>)
                    | (None, c2) \<Rightarrow>
                        (case read_full 4 (read_fault cio) (c2\<lparr>conn_in := conn_in c2 @ arriving cio\<rparr>) of
                           (Inl e, c3) \<Rightarrow> Ret (Inl e, rc\<lparr>rc_conn := Some c3\<rparr>)
                         | (Inr l, c3) \<Rightarrow>
                             (case read_full (unat (un_le32 l)) (read_fault cio) c3 of
                                (r, c4) \<Rightarrow> Ret (r, rc\<lparr>rc_conn := Some c4\<rparr>))))))"

definition request ::
  "call_io \<Rightarrow> u8 list \<Rightarrow> rpcClient \<Rightarrow> ((go_err + u8 list) \<times> rpcClient) outcome" where
  "request cio req rc =
     (case ensure_conn cio rc of
        (Some e, rc') \<Rightarrow> Ret (Inl e, rc')
      | (None, rc') \<Rightarrow> exchange cio req rc')"

text \<open>\<open>Close\<close> of a connection that is closed already returns an error.\<close>

definition close_client :: "rpcClient \<Rightarrow> go_err option \<times> rpcClient" where
  "close_client rc =
     (case rc_conn rc of
        None \<Rightarrow> (None, rc)
      | Some c \<Rightarrow>
          (if conn_closed c then Some err_closed else None,
           rc\<lparr>rc_conn := Some (c\<lparr>conn_closed := True\<rparr>)\<rparr>))"

text \<open>Requests one after the other, as the lock makes them.\<close>

fun requests ::
  "(call_io \<times> u8 list) list \<Rightarrow> rpcClient \<Rightarrow> ((go_err + u8 list) list \<times> rpcClient) outcome" where
  "requests [] rc = Ret ([], rc)"
| "requests ((cio, req) # calls) rc =
     bind_outcome (request cio req rc) (\<lambda>(r, rc1).
     bind_outcome (requests calls rc1) (\<lambda>(rs, rc2). Ret (r # rs, rc2)))"

section \<open>The wire format\<close>

definition frame :: "u8 list \<Rightarrow> u8 list" where
  "frame req = le32 (of_nat (length req)) @ req"

text \<open>How the other side cuts what it receives into messages; an incomplete rest is not read.\<close>

function deframe :: "u8 list \<Rightarrow> u8 list list" where
  "deframe bs =
     (let n = unat (un_le32 bs)
      in if length bs < 4 + n then [] else take n (drop 4 bs) # deframe (drop (4 + n) bs))"
  by pat_completeness auto
termination
  by (relation "measure length") auto

declare deframe.simps [simp del]

lemma unat_length:
  "length xs < 2 ^ 32 \<Longrightarrow> unat (of_nat (length xs) :: u32) = length xs"
  by (simp add: unsigned_of_nat take_bit_nat_eq_self)

lemma deframe_frame:
  assumes "length req < 2 ^ 32"
  shows "deframe (frame req @ rest) = req # deframe rest"
proof -
  have "unat (un_le32 (frame req @ rest)) = length req"
    using unat_length [OF assms] by (simp add: frame_def)
  moreover have "drop 4 (frame req @ rest) = req @ rest" by (simp add: frame_def)
  moreover have "drop (4 + length req) (frame req @ rest) = rest" by (simp add: frame_def)
  moreover have "\<not> length (frame req @ rest) < 4 + length req" by (simp add: frame_def)
  ultimately show ?thesis by (subst deframe.simps) (simp only: Let_def if_False take_append, simp)
qed

lemma deframe_Nil [simp]: "deframe [] = []"
  by (subst deframe.simps) (simp add: Let_def)

lemma deframe_frames:
  "\<forall>req \<in> set reqs. length req < 2 ^ 32 \<Longrightarrow> deframe (concat (map frame reqs)) = reqs"
  by (induction reqs) (simp_all add: deframe_frame)

section \<open>Calls on a connection\<close>

text \<open>No call panics: the connection is there whenever \<open>exchange\<close> starts, and stays.\<close>

lemma ensure_conn_Some: "ensure_conn cio rc = (None, rc') \<Longrightarrow> rc_conn rc' \<noteq> None"
  by (auto simp: ensure_conn_def reconnect_def split: if_splits)

lemma exchange_Ret:
  "rc_conn rc \<noteq> None \<Longrightarrow> \<exists>r rc'. exchange cio req rc = Ret (r, rc') \<and> rc_conn rc' \<noteq> None"
  by (auto simp: exchange_def conn_write_def reconnect_def read_full_def Let_def
      split: option.split prod.split if_split sum.split)

lemma request_no_panic: "request cio req rc \<noteq> Panic k"
proof (cases "ensure_conn cio rc")
  case (Pair e rc')
  show ?thesis
  proof (cases e)
    case None
    with Pair have "ensure_conn cio rc = (None, rc')" by simp
    from exchange_Ret [OF ensure_conn_Some [OF this], of cio req] Pair None show ?thesis
      by (auto simp: request_def)
  qed (use Pair in \<open>simp add: request_def\<close>)
qed

text \<open>A call in which nothing fails but, perhaps, the reading.\<close>

definition no_write_faults :: "call_io \<Rightarrow> bool" where
  "no_write_faults cio \<longleftrightarrow>
     deadline_fault cio = None \<and> snd (len_write cio) = None \<and> snd (req_write cio) = None"

abbreviation open_client :: "conn \<Rightarrow> rpcClient \<Rightarrow> bool" where
  "open_client c rc \<equiv> rc_conn rc = Some c \<and> \<not> conn_closed c"

lemma request_open:
  fixes req :: "u8 list"
  assumes "open_client c rc" "no_write_faults cio"
  defines "c2 \<equiv> c\<lparr>conn_out := conn_out c @ frame req, conn_in := conn_in c @ arriving cio\<rparr>"
  shows "request cio req rc =
    (case read_full 4 (read_fault cio) c2 of
       (Inl e, c3) \<Rightarrow> Ret (Inl e, rc\<lparr>rc_conn := Some c3\<rparr>)
     | (Inr l, c3) \<Rightarrow>
         (case read_full (unat (un_le32 l)) (read_fault cio) c3 of
            (r, c4) \<Rightarrow> Ret (r, rc\<lparr>rc_conn := Some c4\<rparr>)))"
  using assms by (simp add: request_def ensure_conn_def exchange_def no_write_faults_def
      conn_write_def frame_def)

text \<open>The first message there is becomes the result.\<close>

lemma request_answered:
  assumes "open_client c rc" "no_write_faults cio"
    and "conn_in c @ arriving cio = frame a @ rest" "length a < 2 ^ 32"
  shows "request cio req rc = Ret (Inr a, rc\<lparr>rc_conn :=
    Some (c\<lparr>conn_out := conn_out c @ frame req, conn_in := rest\<rparr>)\<rparr>)"
proof -
  have "un_le32 (take 4 (frame a @ rest)) = of_nat (length a)"
    using un_le32_le32 [of "of_nat (length a)" "[]"] by (simp add: frame_def)
  with assms(3) unat_length [OF assms(4)] show ?thesis
    by (simp add: request_open [OF assms(1,2)] read_full_def) (simp add: frame_def)
qed

text \<open>Without a complete message the call fails; what had arrived is gone.\<close>

lemma request_unanswered:
  assumes "open_client c rc" "no_write_faults cio" "conn_in c @ arriving cio = []"
  shows "request cio req rc = Ret (Inl (read_fault cio), rc\<lparr>rc_conn :=
    Some (c\<lparr>conn_out := conn_out c @ frame req, conn_in := []\<rparr>)\<rparr>)"
  using assms(3) by (simp add: request_open [OF assms(1,2)] read_full_def)

lemma request_writes_frame:
  assumes "open_client c rc" "no_write_faults cio"
  shows "\<exists>r c'. request cio req rc = Ret (r, rc\<lparr>rc_conn := Some c'\<rparr>) \<and> \<not> conn_closed c' \<and>
    conn_out c' = conn_out c @ frame req"
proof -
  have shape: "\<exists>r x. read_full n e d = (r, d\<lparr>conn_in := x\<rparr>)" for n e d
    by (auto simp: read_full_def)
  define d where "d = c\<lparr>conn_out := conn_out c @ frame req, conn_in := conn_in c @ arriving cio\<rparr>"
  obtain r x where 1: "read_full 4 (read_fault cio) d = (r, d\<lparr>conn_in := x\<rparr>)" using shape by blast
  obtain r2 y where 2: "read_full (unat (un_le32 (projr r))) (read_fault cio) (d\<lparr>conn_in := x\<rparr>) =
      (r2, d\<lparr>conn_in := x, conn_in := y\<rparr>)" using shape by blast
  have "\<exists>r z. request cio req rc = Ret (r, rc\<lparr>rc_conn := Some (d\<lparr>conn_in := z\<rparr>)\<rparr>)"
    using 1 2 by (cases r) (auto simp: request_open [OF assms] d_def)
  then obtain r z where "request cio req rc = Ret (r, rc\<lparr>rc_conn := Some (d\<lparr>conn_in := z\<rparr>)\<rparr>)" by blast
  with assms(1) show ?thesis by (auto simp: d_def)
qed

section \<open>Sequences of calls\<close>

definition quiet_io :: "u8 list \<Rightarrow> call_io" where
  "quiet_io bs =
     \<lparr>first_dial = \<lparr>no_socket = False, dial_fault = None\<rparr>,
      second_dial = \<lparr>no_socket = False, dial_fault = None\<rparr>, deadline_fault = None,
      len_write = (0, None), req_write = (0, None), arriving = bs,
      read_fault = ErrSys (SysError ''i/o timeout'')\<rparr>"

lemma quiet_io_ok [simp]: "no_write_faults (quiet_io bs)" "arriving (quiet_io bs) = bs"
    "read_fault (quiet_io bs) = ErrSys (SysError ''i/o timeout'')"
  by (simp_all add: quiet_io_def no_write_faults_def)

lemma requests_out:
  assumes "open_client c rc" "\<forall>(cio, req) \<in> set calls. no_write_faults cio"
  shows "\<exists>rs rc' c'. requests calls rc = Ret (rs, rc') \<and> open_client c' rc' \<and>
    conn_out c' = conn_out c @ concat (map (frame \<circ> snd) calls)"
  using assms
proof (induction calls arbitrary: c rc)
  case Nil
  then show ?case by simp
next
  case (Cons call calls)
  obtain cio req where call: "call = (cio, req)" by (cases call)
  from Cons.prems have ok: "no_write_faults cio" by (simp add: call)
  obtain r c1 where r: "request cio req rc = Ret (r, rc\<lparr>rc_conn := Some c1\<rparr>)" "\<not> conn_closed c1"
    "conn_out c1 = conn_out c @ frame req"
    using request_writes_frame [OF Cons.prems(1) ok] by blast
  have "open_client c1 (rc\<lparr>rc_conn := Some c1\<rparr>)" using r(2) by simp
  moreover have "\<forall>(cio, req) \<in> set calls. no_write_faults cio" using Cons.prems(2) by simp
  ultimately obtain rs rc' c' where "requests calls (rc\<lparr>rc_conn := Some c1\<rparr>) = Ret (rs, rc')"
    "open_client c' rc'" "conn_out c' = conn_out c1 @ concat (map (frame \<circ> snd) calls)"
    using Cons.IH by blast
  with r show ?case by (simp add: call comp_def)
qed

text \<open>
  C15. The refiner gets exactly the requests, in order: on an open connection, after any number
  of calls whose writes succeed (their reads may fail), cutting the bytes written since into
  messages gives back the requests, provided each is shorter than 2 to the 32 bytes.
\<close>

theorem refiner_reads_requests:
  assumes "rc_conn rc = Some c" "\<not> conn_closed c" "conn_out c = []"
    and "\<forall>(cio, req) \<in> set calls. no_write_faults cio \<and> length req < 2 ^ 32"
  shows "\<exists>rs rc' c'. requests calls rc = Ret (rs, rc') \<and> rc_conn rc' = Some c' \<and>
    deframe (conn_out c') = map snd calls"
proof -
  have "\<forall>(cio, req) \<in> set calls. no_write_faults cio" using assms(4) by auto
  from requests_out [OF conjI [OF assms(1,2)] this] obtain rs rc' c' where
    r: "requests calls rc = Ret (rs, rc')" "open_client c' rc'"
    "conn_out c' = concat (map frame (map snd calls))"
    using assms(3) by auto
  have "\<forall>req \<in> set (map snd calls). length req < 2 ^ 32" using assms(4) by auto
  from deframe_frames [OF this] r show ?thesis by auto
qed

definition demo_client :: rpcClient where
  "demo_client = (newRPCClient ''unix'' ''/tmp/refiner.sock'' 5)\<lparr>rc_conn := Some fresh_conn\<rparr>"

theorem refiner_reads_requests_witness:
  "\<exists>rs rc' c'. requests [(quiet_io [], [1, 2]), (quiet_io [5], []), (quiet_io [], [7])] demo_client =
     Ret (rs, rc') \<and> rc_conn rc' = Some c' \<and> deframe (conn_out c') = [[1, 2], [], [7]]"
  using refiner_reads_requests [where rc = demo_client and c = fresh_conn and
      calls = "[(quiet_io [], [1, 2]), (quiet_io [5], []), (quiet_io [], [7])]"]
  by (simp add: demo_client_def fresh_conn_def)

text \<open>
  Requests answered in time get their own answers: on an open connection with nothing left
  to read, when during every call the frame of its answer arrives, the results are the answers.
\<close>

theorem prompt_answers_match:
  assumes "rc_conn rc = Some c" "\<not> conn_closed c" "conn_in c = []"
    and "\<forall>(req, a) \<in> set qas. length a < 2 ^ 32"
  shows "\<exists>rc'. requests (map (\<lambda>(req, a). (quiet_io (frame a), req)) qas) rc =
    Ret (map (Inr \<circ> snd) qas, rc')"
  using assms
proof (induction qas arbitrary: c rc)
  case Nil
  then show ?case by simp
next
  case (Cons qa qas)
  obtain req a where qa: "qa = (req, a)" by (cases qa)
  have "request (quiet_io (frame a)) req rc = Ret (Inr a, rc\<lparr>rc_conn :=
      Some (c\<lparr>conn_out := conn_out c @ frame req, conn_in := []\<rparr>)\<rparr>)"
    using Cons.prems by (intro request_answered) (auto simp: qa)
  with Cons.IH [of "rc\<lparr>rc_conn := Some (c\<lparr>conn_out := conn_out c @ frame req, conn_in := []\<rparr>)\<rparr>"]
    Cons.prems show ?case by (auto simp: qa)
qed

theorem prompt_answers_match_witness:
  "\<exists>rc'. requests [(quiet_io (frame [8]), [1]), (quiet_io (frame []), [2])] demo_client =
     Ret ([Inr [8], Inr []], rc')"
  using prompt_answers_match [where rc = demo_client and c = fresh_conn and qas = "[([1], [8]), ([2], [])]"]
  by (simp add: demo_client_def fresh_conn_def)

text \<open>A connection that starts with an unread message stays one answer behind.\<close>

lemma requests_behind:
  assumes "open_client c rc" "conn_in c = frame a" "length a < 2 ^ 32"
    and "\<forall>(req, b) \<in> set qas. length b < 2 ^ 32"
  shows "\<exists>rc'. requests (map (\<lambda>(req, b). (quiet_io (frame b), req)) qas) rc =
    Ret (map Inr (butlast (a # map snd qas)), rc')"
  using assms
proof (induction qas arbitrary: a c rc)
  case Nil
  then show ?case by simp
next
  case (Cons qa qas)
  obtain req b where qa: "qa = (req, b)" by (cases qa)
  let ?rc = "rc\<lparr>rc_conn := Some (c\<lparr>conn_out := conn_out c @ frame req, conn_in := frame b\<rparr>)\<rparr>"
  have "request (quiet_io (frame b)) req rc = Ret (Inr a, ?rc)"
    using Cons.prems by (intro request_answered) auto
  with Cons.IH [of ?rc "c\<lparr>conn_out := conn_out c @ frame req, conn_in := frame b\<rparr>" b]
    Cons.prems show ?case by (auto simp: qa)
qed

text \<open>
  C16. One late answer shifts all that follow: the connection is kept after a read timed out, and
  answers are not matched to requests (every request carries id 1).  So when the answer to a
  timed-out request arrives during the next call and the refiner answers in order, the next call
  returns the answer to the timed-out request, and every later call the answer to the call
  before it.
\<close>

theorem late_answer_shifts_all:
  assumes "rc_conn rc = Some c" "\<not> conn_closed c" "conn_in c = []"
    and "length a0 < 2 ^ 32" "length a1 < 2 ^ 32" "\<forall>(req, b) \<in> set qas. length b < 2 ^ 32"
  shows "\<exists>rc'. requests ((quiet_io [], q0) # (quiet_io (frame a0 @ frame a1), q1) #
      map (\<lambda>(req, b). (quiet_io (frame b), req)) qas) rc =
    Ret (Inl (ErrSys (SysError ''i/o timeout'')) # Inr a0 # map Inr (butlast (a1 # map snd qas)), rc')"
proof -
  let ?c1 = "c\<lparr>conn_out := conn_out c @ frame q0, conn_in := []\<rparr>"
  let ?rc1 = "rc\<lparr>rc_conn := Some ?c1\<rparr>"
  let ?c2 = "?c1\<lparr>conn_out := conn_out ?c1 @ frame q1, conn_in := frame a1\<rparr>"
  have 1: "request (quiet_io []) q0 rc = Ret (Inl (ErrSys (SysError ''i/o timeout'')), ?rc1)"
    using request_unanswered [where c = c and rc = rc and cio = "quiet_io []" and req = q0] assms by simp
  have 2: "request (quiet_io (frame a0 @ frame a1)) q1 ?rc1 = Ret (Inr a0, ?rc1\<lparr>rc_conn := Some ?c2\<rparr>)"
    using assms by (intro request_answered) auto
  have "open_client ?c2 (?rc1\<lparr>rc_conn := Some ?c2\<rparr>)" "conn_in ?c2 = frame a1" using assms by simp_all
  from requests_behind [OF this assms(5,6)] 1 2 show ?thesis by auto
qed

theorem late_answer_shifts_all_witness:
  "\<exists>rc'. requests [(quiet_io [], [1]), (quiet_io (frame [101] @ frame [102]), [2]),
      (quiet_io (frame [103]), [3])] demo_client =
    Ret ([Inl (ErrSys (SysError ''i/o timeout'')), Inr [101], Inr [102]], rc')"
  using late_answer_shifts_all [where rc = demo_client and c = fresh_conn and ?a0.0 = "[101]" and
    ?a1.0 = "[102]" and qas = "[([3], [103])]" and ?q0.0 = "[1]" and ?q1.0 = "[2]"]
  by (simp add: demo_client_def fresh_conn_def)

end
