(* ===== verification/StandaloneProxy.thy ===== *)
theory StandaloneProxy
  imports ProxyWire
begin

text \<open>
  \<open>standaloneproxy/proxy.go\<close> above the connection: the configuration, the JSON-RPC request text,
  \<open>TraceTransaction\<close> and \<open>EstimateGas\<close> with the reading of their responses, and the endpoint
  processor \<open>Pre\<close>.  The JSON libraries and the types of \<open>relayer2-base\<close> are the functions of
  \<open>refiner_lib\<close>.
\<close>

section \<open>Numbers as text\<close>

definition is_digit :: "char \<Rightarrow> bool" where
  "is_digit c \<longleftrightarrow> 48 \<le> (of_char c :: nat) \<and> (of_char c :: nat) < 58"

text \<open>\<open>strconv.ParseUint(s, 10, 64)\<close> after its test for the empty string.\<close>

fun scan_uint :: "nat \<Rightarrow> string \<Rightarrow> num_error + nat" where
  "scan_uint acc [] = Inr acc"
| "scan_uint acc (c # cs) =
     (if \<not> is_digit c then Inl ErrSyntax
      else if (2 ^ 64 - 1) div 10 + 1 \<le> acc then Inl ErrRange
      else
        (let n = acc * 10 + (of_char c - 48)
         in if 2 ^ 64 \<le> n then Inl ErrRange else scan_uint n cs))"

text \<open>\<open>strconv.ParseInt(s, 10, 64)\<close>.\<close>

definition ParseInt :: "string \<Rightarrow> num_error + int" where
  "ParseInt s =
     (if s = [] then Inl ErrSyntax
      else
        (let neg = (hd s = CHR ''-''); body = (if neg \<or> hd s = CHR ''+'' then tl s else s)
         in if body = [] then Inl ErrSyntax
            else case scan_uint 0 body of
                Inl e \<Rightarrow> Inl e
              | Inr n \<Rightarrow>
                  if \<not> neg \<and> 2 ^ 63 \<le> n then Inl ErrRange
                  else if neg \<and> 2 ^ 63 < n then Inl ErrRange
                  else Inr (if neg then - int n else int n)))"

text \<open>\<open>%x\<close> of a number.\<close>

definition hex_digit :: "nat \<Rightarrow> char" where
  "hex_digit d = char_of (if d < 10 then 48 + d else 87 + d)"

fun hex_nat :: "nat \<Rightarrow> string" where
  "hex_nat n = (if n < 16 then [hex_digit n] else hex_nat (n div 16) @ [hex_digit (n mod 16)])"

declare hex_nat.simps [simp del]

definition hex_int :: "int \<Rightarrow> string" where
  "hex_int n = (if n < 0 then ''-'' @ hex_nat (nat (- n)) else hex_nat (nat n))"

section \<open>What the client relies on\<close>

datatype json_type =
    JNotExist | JString | JNumber | JObject | JArray | JBoolean | JNull | JUnknown

type_synonym h256 = "u8 list"
type_synonym s64 = "64 word"

record ('tx, 'f, 'u) refiner_lib =
  json_Get :: "u8 list \<Rightarrow> string list \<Rightarrow> (u8 list \<times> json_type) \<times> go_err option"
  json_ArrayEach :: "u8 list \<Rightarrow> u8 list list \<times> go_err option"
  Unmarshal_CallFrame :: "u8 list \<Rightarrow> 'f \<times> go_err option"
  Marshal_H256 :: "h256 \<Rightarrow> go_err + u8 list"
  Marshal_tx :: "'tx \<Rightarrow> go_err + u8 list"
  Marshal_BN64 :: "s64 \<Rightarrow> go_err + u8 list"
  Uint256_UnmarshalJSON :: "u8 list \<Rightarrow> go_err + 'u"
  EarliestBlockNumber :: s64
  LatestBlockNumber :: s64
  PendingBlockNumber :: s64

section \<open>Configuration\<close>

record proxy_Config =
  proxy_Network :: string
  proxy_Address :: string
  proxy_Timeout :: int

text \<open>\<open>sub\<close>: the section of the configuration file, if there is one, decoded over a configuration.\<close>

definition proxy_GetConfig ::
  "(proxy_Config \<Rightarrow> go_err option \<times> proxy_Config) option \<Rightarrow> proxy_Config" where
  "proxy_GetConfig sub =
     (let config = \<lparr>proxy_Network = ''unix'', proxy_Address = [], proxy_Timeout = 5 * second\<rparr>
      in case sub of None \<Rightarrow> config | Some decode \<Rightarrow> snd (decode config))"

definition New_proxy :: "(proxy_Config \<Rightarrow> go_err option \<times> proxy_Config) option \<Rightarrow> rpcClient" where
  "New_proxy sub =
     (let conf = proxy_GetConfig sub
      in newRPCClient (proxy_Network conf) (proxy_Address conf) (proxy_Timeout conf))"

section \<open>The request text\<close>

text \<open>\<open>json.Marshal\<close> of a string of plain characters, and of the other parameters.\<close>

datatype 'tx param = PHash h256 | PTx 'tx | PNumber s64 | PText string

fun Marshal :: "('tx, 'f, 'u) refiner_lib \<Rightarrow> 'tx param \<Rightarrow> go_err + u8 list" where
  "Marshal lib (PHash h) = Marshal_H256 lib h"
| "Marshal lib (PTx tx) = Marshal_tx lib tx"
| "Marshal lib (PNumber n) = Marshal_BN64 lib n"
| "Marshal lib (PText s) = Inr (bytes_of_string ([CHR 0x22] @ s @ [CHR 0x22]))"

fun write_params ::
  "('tx, 'f, 'u) refiner_lib \<Rightarrow> bool \<Rightarrow> 'tx param list \<Rightarrow> u8 list \<Rightarrow> go_err + u8 list" where
  "write_params lib first [] b = Inr b"
| "write_params lib first (x # xs) b =
     (case Marshal lib x of
        Inl e \<Rightarrow> Inl e
      | Inr p \<Rightarrow>
          write_params lib False xs (b @ (if first then [] else bytes_of_string '','') @ p))"

definition quoted :: "string \<Rightarrow> string" where
  "quoted s = [CHR 0x22] @ s @ [CHR 0x22]"

definition buildRequest ::
  "('tx, 'f, 'u) refiner_lib \<Rightarrow> string \<Rightarrow> 'tx param list \<Rightarrow> go_err + u8 list" where
  "buildRequest lib method params =
     (case write_params lib True params
             (bytes_of_string (''{'' @ quoted ''id'' @ '':1,'' @ quoted ''jsonrpc'' @ '':'' @
                quoted ''2.0'' @ '','' @ quoted ''method'' @ '':'' @ quoted method @ '','' @
                quoted ''params'' @ '':['')) of
        Inl e \<Rightarrow> Inl e
      | Inr b \<Rightarrow> Inr (b @ bytes_of_string '']}''))"

section \<open>Reading responses\<close>

text \<open>
  The elements of an array that decode.  The error of an element is assigned to the variable of
  the enclosing function, which nothing reads again.
\<close>

fun collect_traces :: "('tx, 'f, 'u) refiner_lib \<Rightarrow> u8 list list \<Rightarrow> 'f list" where
  "collect_traces lib [] = []"
| "collect_traces lib (v # vs) =
     (case Unmarshal_CallFrame lib v of
        (t, None) \<Rightarrow> t # collect_traces lib vs
      | (t, Some e) \<Rightarrow> collect_traces lib vs)"

definition trace_result ::
  "('tx, 'f, 'u) refiner_lib \<Rightarrow> u8 list \<Rightarrow> 'f option \<times> go_err option" where
  "trace_result lib res =
     (let ((r, rtype), e) = json_Get lib res [''result'']
      in if e \<noteq> None \<and> \<not> errors_Is (the e) ErrKeyPathNotFound then (None, e)
         else case rtype of
           JNotExist \<Rightarrow>
             (let ((rpcErr, etype), e') = json_Get lib res [''error'', ''message'']
              in if e' \<noteq> None \<or> etype \<noteq> JString then (None, Some (ErrText ''internal rpc error''))
                 else (None, Some (ErrText (string_of_bytes rpcErr))))
         | JObject \<Rightarrow> (let (t, e') = Unmarshal_CallFrame lib r in (Some t, e'))
         | JArray \<Rightarrow>
             (let (vs, e') = json_ArrayEach lib r; traces = collect_traces lib vs
              in if length traces \<noteq> 1 then (None, Some (ErrText ''unexpected response''))
                 else (Some (traces ! 0), e'))
         | _ \<Rightarrow> (None, Some (ErrText ''failed to parse unexpected response'')))"

definition handleEstimateGasError ::
  "('tx, 'f, 'u) refiner_lib \<Rightarrow> u8 list \<Rightarrow> 'u option \<times> go_err option" where
  "handleEstimateGasError lib res =
     (let ((dat, _), de) = json_Get lib res [''error'', ''data'']
      in if de = None \<and> dat \<noteq> [] then
           (None, Some (ErrText (''engine error: '' @ string_of_bytes dat)))
         else
           (let ((msg, _), me) = json_Get lib res [''error'', ''message'']
            in if me = None \<and> msg \<noteq> [] then
                 (None, Some (ErrText (''engine error: '' @ string_of_bytes msg)))
               else (None, Some (ErrText ''engine error: unknown error occurred''))))"

definition parseEstimateGasResponse ::
  "('tx, 'f, 'u) refiner_lib \<Rightarrow> u8 list \<Rightarrow> 'u option \<times> go_err option" where
  "parseEstimateGasResponse lib res =
     (let ((r, rtype), e) = json_Get lib res [''result'']
      in if e = None \<and> rtype = JNumber then
           (case ParseInt (string_of_bytes r) of
              Inl ne \<Rightarrow>
                (None, Some (ErrWrap ''failed to parse result as integer'' (ErrNum (string_of_bytes r) ne)))
            | Inr val \<Rightarrow>
                (case Uint256_UnmarshalJSON lib (bytes_of_string (''0x'' @ hex_int val)) of
                   Inl ue \<Rightarrow> (None, Some (ErrWrap ''failed to unmarshal result'' ue))
                 | Inr u \<Rightarrow> (Some u, None)))
         else handleEstimateGasError lib res)"

section \<open>The client's two calls\<close>

definition TraceTransaction ::
  "('tx, 'f, 'u) refiner_lib \<Rightarrow> call_io \<Rightarrow> h256 \<Rightarrow> rpcClient \<Rightarrow>
     (('f option \<times> go_err option) \<times> rpcClient) outcome" where
  "TraceTransaction lib cio h rc =
     (case buildRequest lib ''debug_traceTransaction'' [PHash h] of
        Inl e \<Rightarrow> Ret ((None, Some e), rc)
      | Inr req \<Rightarrow>
          bind_outcome (request cio req rc) (\<lambda>(r, rc').
            case r of
              Inl e \<Rightarrow> Ret ((None, Some e), rc')
            | Inr res \<Rightarrow> Ret (trace_result lib res, rc')))"

definition block_param :: "('tx, 'f, 'u) refiner_lib \<Rightarrow> s64 \<Rightarrow> 'tx param" where
  "block_param lib n =
     (if n = EarliestBlockNumber lib then PText ''earliest''
      else if n = LatestBlockNumber lib then PText ''latest''
      else if n = PendingBlockNumber lib then PText ''pending''
      else PNumber n)"

text \<open>\<open>*number\<close> is read first: a nil pointer panics.\<close>

definition EstimateGas ::
  "('tx, 'f, 'u) refiner_lib \<Rightarrow> call_io \<Rightarrow> 'tx \<Rightarrow> s64 option \<Rightarrow> rpcClient \<Rightarrow>
     (('u option \<times> go_err option) \<times> rpcClient) outcome" where
  "EstimateGas lib cio tx number rc =
     (case number of
        None \<Rightarrow> Panic NilDeref
      | Some n \<Rightarrow>
          (case buildRequest lib ''eth_estimateGas'' [PTx tx, block_param lib n] of
             Inl e \<Rightarrow> Ret ((None, Some (ErrWrap ''failed to build request'' e)), rc)
           | Inr req \<Rightarrow>
               bind_outcome (request cio req rc) (\<lambda>(r, rc').
                 case r of
                   Inl e \<Rightarrow> Ret ((None, Some (ErrWrap ''failed to send request'' e)), rc')
                 | Inr res \<Rightarrow> Ret (parseEstimateGasResponse lib res, rc'))))"

section \<open>The endpoint processor\<close>

text \<open>A value of \<open>common.BlockNumberOrHash\<close>: its block number, a pointer, and what else it holds.\<close>

record 'r block_ref =
  ref_number :: "s64 option"
  ref_rest :: 'r

datatype ('tx, 'r) any_arg = AHash h256 | ATx 'tx | ABlock "'r block_ref option" | AOther

datatype ('f, 'u) response = RFrame "'f option" | RGas "'u option"

definition invalid_params :: go_err where
  "invalid_params = ErrText ''invalid params''"

text \<open>
  \<open>Pre\<close> over the \<open>RPCClient\<close> interface: whether the processing stops, the error, and the value
  stored in \<open>*response\<close> if one is.
\<close>

definition Pre ::
  "(h256 \<Rightarrow> 's \<Rightarrow> (('f option \<times> go_err option) \<times> 's) outcome) \<Rightarrow>
   ('tx \<Rightarrow> s64 option \<Rightarrow> 's \<Rightarrow> (('u option \<times> go_err option) \<times> 's) outcome) \<Rightarrow> s64 \<Rightarrow>
   string \<Rightarrow> ('tx, 'r) any_arg list \<Rightarrow> 's \<Rightarrow>
   ((bool \<times> go_err option \<times> ('f, 'u) response option) \<times> 's) outcome" where
  "Pre trace estimate latest name args s =
     (if name = ''debug_traceTransaction'' then
        (if length args \<noteq> 1 then Ret ((False, Some invalid_params, None), s)
         else case args ! 0 of
             AHash h \<Rightarrow>
               bind_outcome (trace h s) (\<lambda>((res, e), s').
                 Ret (if e \<noteq> None then (True, e, None) else (True, None, Some (RFrame res)), s'))
           | _ \<Rightarrow> Ret ((False, Some invalid_params, None), s))
      else if name = ''eth_estimateGas'' then
        bind_outcome (slice_get args 0) (\<lambda>a0.
          case a0 of
            ATx tx \<Rightarrow>
              bind_outcome (slice_get args 1) (\<lambda>a1.
                case a1 of
                  ABlock b \<Rightarrow>
                    bind_outcome
                      (estimate tx (case b of None \<Rightarrow> Some latest | Some r \<Rightarrow> ref_number r) s)
                      (\<lambda>((res, e), s').
                        Ret (if e \<noteq> None then (True, e, None) else (True, None, Some (RGas res)), s'))
                | _ \<Rightarrow> Ret ((True, Some invalid_params, None), s))
          | _ \<Rightarrow> Ret ((True, Some invalid_params, None), s))
      else Ret ((False, None, None), s))"

definition proxy_Pre ::
  "('tx, 'f, 'u) refiner_lib \<Rightarrow> call_io \<Rightarrow> string \<Rightarrow> ('tx, 'r) any_arg list \<Rightarrow> rpcClient \<Rightarrow>
   ((bool \<times> go_err option \<times> ('f, 'u) response option) \<times> rpcClient) outcome" where
  "proxy_Pre lib cio = Pre (TraceTransaction lib cio) (EstimateGas lib cio) (LatestBlockNumber lib)"

section \<open>Numbers survive the two notations\<close>

lemma is_digit_digit: "d < 10 \<Longrightarrow> is_digit (digit d)"
  by (simp add: is_digit_def of_char_digit)

lemma scan_uint_append:
  "scan_uint acc (s @ t) = (case scan_uint acc s of Inl e \<Rightarrow> Inl e | Inr n \<Rightarrow> scan_uint n t)"
proof (induction acc s rule: scan_uint.induct)
  case (2 acc c cs)
  define d where "d = (of_char c :: nat) - 48"
  show ?case using 2 unfolding append_Cons scan_uint.simps Let_def d_def [symmetric]
    by (simp only: if_split sum.case split: if_split) blast
qed simp

lemma scan_uint_dec: "scan_uint 0 (dec n) = (if n < 2 ^ 64 then Inr n else Inl ErrRange)"
proof (induction n rule: dec.induct)
  case (1 n)
  show ?case
  proof (cases "n < 10")
    case True
    then show ?thesis
      by (simp add: dec.simps [of n] is_digit_digit of_char_digit)
  next
    case False
    have d: "n = n div 10 * 10 + n mod 10" "n mod 10 < 10" by simp_all
    have "scan_uint 0 (dec n) = (case scan_uint 0 (dec (n div 10)) of
        Inl e \<Rightarrow> Inl e | Inr m \<Rightarrow> scan_uint m [digit (n mod 10)])"
      using False by (subst dec.simps) (simp add: scan_uint_append)
    then show ?thesis
      using 1 [OF False] d by (auto simp: is_digit_digit of_char_digit Let_def split: if_splits)
  qed
qed

lemma dec_first:
  assumes "dec n = c # cs"
  shows "c \<noteq> CHR ''-''" "c \<noteq> CHR ''+''"
  using dec_no_char [of "CHR ''-''" n] dec_no_char [of "CHR ''+''" n] assms by auto

lemma ParseInt_dec: "ParseInt (dec n) = (if n < 2 ^ 63 then Inr (int n) else Inl ErrRange)"
proof -
  obtain c cs where c: "dec n = c # cs" by (cases "dec n") auto
  have "ParseInt (dec n) = (case scan_uint 0 (dec n) of
      Inl e \<Rightarrow> Inl e | Inr m \<Rightarrow> if 2 ^ 63 \<le> m then Inl ErrRange else Inr (int m))"
    using dec_first [OF c] by (simp add: ParseInt_def c Let_def split: sum.split)
  then show ?thesis by (simp add: scan_uint_dec)
qed

fun unhex_from :: "nat \<Rightarrow> string \<Rightarrow> nat" where
  "unhex_from acc [] = acc"
| "unhex_from acc (c # cs) =
     unhex_from (16 * acc + (if is_digit c then of_char c - 48 else of_char c - 87)) cs"

lemma unhex_from_append: "unhex_from acc (s @ t) = unhex_from (unhex_from acc s) t"
  by (induction acc s rule: unhex_from.induct) auto

lemma hex_digit_value:
  "d < 16 \<Longrightarrow> (if is_digit (hex_digit d) then of_char (hex_digit d) - 48
     else of_char (hex_digit d) - 87) = d"
  by (simp add: hex_digit_def is_digit_def)

lemma unhex_hex_nat: "unhex_from 0 (hex_nat n) = n"
proof (induction n rule: hex_nat.induct)
  case (1 n)
  show ?case
  proof (cases "n < 16")
    case True
    then show ?thesis using hex_digit_value [OF True] by (simp add: hex_nat.simps [of n])
  next
    case False
    with 1 hex_digit_value [of "n mod 16"] show ?thesis
      by (simp add: hex_nat.simps [of n] unhex_from_append)
  qed
qed

lemma string_bytes_string [simp]: "string_of_bytes (bytes_of_string s) = s"
proof -
  have "char_of (unat (of_char c :: u8)) = c" for c
  proof -
    have "unat (of_char c :: u8) = unat (of_nat (of_char c) :: u8)"
      by (simp only: of_nat_of_char)
    also have "\<dots> = of_char c mod 256" by (simp only: unsigned_of_nat take_bit_eq_mod) simp
    finally show ?thesis by simp
  qed
  then show ?thesis by (induction s) (simp_all add: string_of_bytes_def bytes_of_string_def)
qed

section \<open>What the calls return\<close>

text \<open>
  A gas estimate the refiner prints as a decimal number below 2 to the 63 reaches
  \<open>Uint256.UnmarshalJSON\<close> as a hexadecimal text of the same value; a larger one is refused with
  the range error of \<open>strconv\<close>, never truncated.
\<close>

theorem estimate_number_kept:
  assumes "json_Get lib res [''result''] = ((bytes_of_string (dec n), JNumber), None)"
  shows "\<exists>h. unhex_from 0 h = n \<and> parseEstimateGasResponse lib res =
    (if n < 2 ^ 63 then
       (case Uint256_UnmarshalJSON lib (bytes_of_string (''0x'' @ h)) of
          Inl e \<Rightarrow> (None, Some (ErrWrap ''failed to unmarshal result'' e))
        | Inr u \<Rightarrow> (Some u, None))
     else (None, Some (ErrWrap ''failed to parse result as integer'' (ErrNum (dec n) ErrRange))))"
  using assms
  by (intro exI [of _ "hex_nat n"])
    (simp add: parseEstimateGasResponse_def ParseInt_dec hex_int_def unhex_hex_nat)

definition demo_lib :: "(u8 list, u8 list, string) refiner_lib" where
  "demo_lib =
     \<lparr>json_Get = (\<lambda>res path.
        if path = [''result''] \<and> res = bytes_of_string ''21000'' then ((res, JNumber), None)
        else if path = [''result''] \<and> res = [1] then (([1], JArray), None)
        else (([], JNotExist), Some ErrKeyPathNotFound)),
      json_ArrayEach = (\<lambda>_. ([[0], [7]], None)),
      Unmarshal_CallFrame = (\<lambda>v. (v, if v = [0] then Some (ErrLib ''bad frame'') else None)),
      Marshal_H256 = Inr, Marshal_tx = Inr, Marshal_BN64 = (\<lambda>_. Inl (ErrLib ''unused'')),
      Uint256_UnmarshalJSON = (\<lambda>bs. Inr (string_of_bytes bs)),
      EarliestBlockNumber = 0, LatestBlockNumber = - 2, PendingBlockNumber = - 1\<rparr>"

theorem estimate_number_kept_witness:
  "\<exists>h. unhex_from 0 h = 21000 \<and>
     parseEstimateGasResponse demo_lib (bytes_of_string ''21000'') = (Some (''0x'' @ h), None)"
proof -
  have "dec 21000 = ''21000''" by (simp add: dec.simps digit_def char_of_eq_iff take_bit_eq_mod)
  then have "json_Get demo_lib (bytes_of_string ''21000'') [''result''] =
      ((bytes_of_string (dec 21000), JNumber), None)"
    by (simp add: demo_lib_def)
  from estimate_number_kept [OF this] show ?thesis by (simp add: demo_lib_def)
qed

text \<open>
  A response without a numeric result is an error, and the error is the engine's own: its
  \<open>error.data\<close> if there is any, else its \<open>error.message\<close>, else a text of the relayer.
\<close>

theorem estimate_error_precedence:
  assumes "json_Get lib res [''result''] = ((r, t), e)" "e \<noteq> None \<or> t \<noteq> JNumber"
    and "json_Get lib res [''error'', ''data''] = ((dat, dt), de)"
    and "json_Get lib res [''error'', ''message''] = ((msg, mt), me)"
  shows "parseEstimateGasResponse lib res = (None, Some (ErrText (''engine error: '' @
    (if de = None \<and> dat \<noteq> [] then string_of_bytes dat
     else if me = None \<and> msg \<noteq> [] then string_of_bytes msg
     else ''unknown error occurred''))))"
  using assms by (auto simp: parseEstimateGasResponse_def handleEstimateGasError_def Let_def)

theorem estimate_error_precedence_witness:
  "parseEstimateGasResponse demo_lib [] =
     (None, Some (ErrText ''engine error: unknown error occurred''))"
  using estimate_error_precedence [of demo_lib "[]" "[]" JNotExist "Some ErrKeyPathNotFound" "[]"
      JNotExist "Some ErrKeyPathNotFound" "[]" JNotExist "Some ErrKeyPathNotFound"]
  by (simp add: demo_lib_def bytes_of_string_def)

text \<open>
  An array of traces is accepted when exactly one of its elements decodes: the errors of the
  others are lost, so an array of several elements can give a trace and no error.
\<close>

theorem undecodable_traces_dropped:
  assumes "json_Get lib res [''result''] = ((r, JArray), None)"
    and "json_ArrayEach lib r = (xs @ v # ys, None)" "Unmarshal_CallFrame lib v = (t, None)"
    and "\<forall>x \<in> set (xs @ ys). snd (Unmarshal_CallFrame lib x) \<noteq> None"
  shows "trace_result lib res = (Some t, None)"
proof -
  have bad: "collect_traces lib zs = []"
    if "\<forall>x \<in> set zs. snd (Unmarshal_CallFrame lib x) \<noteq> None" for zs
    using that by (induction zs) (auto split: prod.split option.split)
  have app: "collect_traces lib (us @ ws) = collect_traces lib us @ collect_traces lib ws" for us ws
    by (induction us) (auto split: prod.split option.split)
  have "collect_traces lib (xs @ v # ys) = [t]"
    using assms(3,4) bad [of xs] bad [of ys] by (simp add: app)
  then show ?thesis using assms(1,2) by (simp add: trace_result_def)
qed

theorem undecodable_traces_dropped_witness:
  "trace_result demo_lib [1] = (Some [7], None)"
  using undecodable_traces_dropped [of demo_lib "[1]" "[1]" "[[0]]" "[7]" "[]" "[7]"]
  by (simp add: demo_lib_def bytes_of_string_def)

section \<open>The processor over the client interface\<close>

text \<open>
  What the processor needs of an \<open>RPCClient\<close>: a trace never panics, an estimate panics exactly
  when it gets no block number, and an error comes without a value being used.
\<close>

locale rpc_client =
  fixes trace :: "h256 \<Rightarrow> 's \<Rightarrow> (('f option \<times> go_err option) \<times> 's) outcome"
    and estimate :: "'tx \<Rightarrow> s64 option \<Rightarrow> 's \<Rightarrow> (('u option \<times> go_err option) \<times> 's) outcome"
    and latest :: s64
  assumes trace_returns: "\<exists>r s'. trace h s = Ret (r, s')"
    and estimate_returns: "\<exists>r s'. estimate tx (Some n) s = Ret (r, s')"
    and estimate_nil: "estimate tx None s = Panic NilDeref"
begin

lemma pre_trace_no_panic: "Pre trace estimate latest ''debug_traceTransaction'' args s \<noteq> Panic k"
proof (cases "\<exists>h. args = [AHash h]")
  case True
  then obtain h where h: "args = [AHash h]" by blast
  obtain r s' where "trace h s = Ret (r, s')" using trace_returns by blast
  with h show ?thesis by (cases r) (simp add: Pre_def)
next
  case False
  then show ?thesis by (cases args) (auto simp: Pre_def split: any_arg.split)
qed

lemma pre_estimate:
  "Pre trace estimate latest ''eth_estimateGas'' (ATx tx # ABlock b # rest) s =
     (case (case b of None \<Rightarrow> Some latest | Some r \<Rightarrow> ref_number r) of
        None \<Rightarrow> Panic NilDeref
      | Some n \<Rightarrow>
          bind_outcome (estimate tx (Some n) s) (\<lambda>((res, e), s').
            Ret (if e \<noteq> None then (True, e, None) else (True, None, Some (RGas res)), s')))"
  by (simp add: Pre_def estimate_nil split: option.split)

lemma pre_estimate_panics:
  "Pre trace estimate latest ''eth_estimateGas'' args s = Panic k \<longleftrightarrow>
     (k = IndexOutOfRange \<and> (args = [] \<or> (\<exists>tx. args = [ATx tx]))) \<or>
     (k = NilDeref \<and> (\<exists>tx r rest. args = ATx tx # ABlock (Some r) # rest \<and> ref_number r = None))"
proof (cases "\<exists>tx b rest. args = ATx tx # ABlock b # rest")
  case True
  then obtain tx b rest where a: "args = ATx tx # ABlock b # rest" by blast
  have ret: "bind_outcome (estimate tx (Some n) s) (\<lambda>((res, e), s').
      Ret (if e \<noteq> None then (True, e, None) else (True, None, Some (RGas res)), s')) \<noteq> Panic k" for n
  proof -
    obtain r s' where "estimate tx (Some n) s = Ret (r, s')" using estimate_returns by blast
    then show ?thesis by (cases r) simp
  qed
  show ?thesis
    unfolding a pre_estimate using ret by (auto split: option.split)
next
  case False
  then show ?thesis
    by (cases args; cases "tl args") (auto simp: Pre_def split: any_arg.split)
qed

lemma pre_panics:
  "Pre trace estimate latest name args s = Panic k \<longleftrightarrow> name = ''eth_estimateGas'' \<and>
     ((k = IndexOutOfRange \<and> (args = [] \<or> (\<exists>tx. args = [ATx tx]))) \<or>
      (k = NilDeref \<and> (\<exists>tx r rest. args = ATx tx # ABlock (Some r) # rest \<and> ref_number r = None)))"
proof (cases "name = ''eth_estimateGas''")
  case True
  then show ?thesis by (simp add: pre_estimate_panics)
next
  case False
  then have "Pre trace estimate latest name args s \<noteq> Panic k"
  proof (cases "name = ''debug_traceTransaction''")
    case True
    with pre_trace_no_panic show ?thesis by simp
  qed (simp add: Pre_def)
  with False show ?thesis by simp
qed

end

lemma request_returns: "\<exists>r rc'. request cio req rc = Ret (r, rc')"
proof (cases "ensure_conn cio rc")
  case (Pair e rc')
  show ?thesis
  proof (cases e)
    case None
    with Pair have "ensure_conn cio rc = (None, rc')" by simp
    from exchange_Ret [OF ensure_conn_Some [OF this], of cio req] Pair None show ?thesis
      by (auto simp: request_def)
  qed (use Pair in \<open>simp add: request_def\<close>)
qed

lemma answer_returns:
  "\<exists>r s'. bind_outcome (request cio req rc)
     (\<lambda>(x, rc'). case x of Inl e \<Rightarrow> Ret (f e, rc') | Inr y \<Rightarrow> Ret (g y, rc')) = Ret (r, s')"
proof -
  obtain x rc' where "request cio req rc = Ret (x, rc')" using request_returns by blast
  then show ?thesis by (cases x) simp_all
qed

interpretation refiner: rpc_client "TraceTransaction lib cio" "EstimateGas lib cio" "LatestBlockNumber lib"
  for lib :: "('tx, 'f, 'u) refiner_lib" and cio
proof
  show "\<exists>r s'. TraceTransaction lib cio h s = Ret (r, s')" for h s
    unfolding TraceTransaction_def
    by (cases "buildRequest lib ''debug_traceTransaction'' [PHash h]") (simp_all add: answer_returns del: split_paired_Ex)
  show "\<exists>r s'. EstimateGas lib cio tx (Some n) s = Ret (r, s')" for tx n s
    unfolding EstimateGas_def
    by (cases "buildRequest lib ''eth_estimateGas'' [PTx tx, block_param lib n]")
      (simp_all add: answer_returns del: split_paired_Ex)
  show "EstimateGas lib cio tx None s = Panic NilDeref" for tx s
    by (simp add: EstimateGas_def)
qed

text \<open>
  C35. When \<open>Pre\<close> crashes: only on \<open>eth_estimateGas\<close>, and there exactly when the call has too few
  arguments, or names a block without giving its number (a block hash): the pointer to the
  number is read without a test.  Nothing the refiner or the connection does makes it crash.
\<close>

theorem proxy_Pre_panics_iff:
  "proxy_Pre lib cio name args rc = Panic k \<longleftrightarrow> name = ''eth_estimateGas'' \<and>
     ((k = IndexOutOfRange \<and> (args = [] \<or> (\<exists>tx. args = [ATx tx]))) \<or>
      (k = NilDeref \<and> (\<exists>tx r rest. args = ATx tx # ABlock (Some r) # rest \<and> ref_number r = None)))"
  unfolding proxy_Pre_def by (rule refiner.pre_panics)

end
