(* ===== verification/GoGlob.thy ===== *)
theory GoGlob
  imports GoPath "HOL-Library.List_Lexorder" "HOL-Library.Char_ord"
begin

text \<open>
  Go's \<open>filepath.Match\<close> and \<open>filepath.Glob\<close> (on Unix).  Patterns are read into tokens, which also
  finds the malformed ones (\<open>ErrBadPattern\<close>, here \<open>None\<close>).  A \<open>?\<close> and a class stand for one byte,
  which is Go's behaviour on names whose text is ASCII.  The file system is two arguments: whether
  a path exists, and the names in a directory (\<open>None\<close>: not a directory one can read).  Go's limit
  of 10000 nested directory patterns is left out.
\<close>

section \<open>Patterns\<close>

datatype glob_tok = GChar char | GAny | GStar | GClass bool "(char \<times> char) list"

definition backslash :: char where "backslash = CHR 0x5C"

definition meta_char :: "char \<Rightarrow> bool" where
  "meta_char c \<longleftrightarrow> c = CHR ''*'' \<or> c = CHR ''?'' \<or> c = CHR ''['' \<or> c = backslash"

definition hasMeta :: "string \<Rightarrow> bool" where
  "hasMeta p \<longleftrightarrow> list_ex meta_char p"

text \<open>A character of a class, which must not be the last of the pattern.\<close>

fun getEsc :: "string \<Rightarrow> (char \<times> string) option" where
  "getEsc [] = None"
| "getEsc (c # cs) =
     (if c = CHR ''-'' \<or> c = CHR '']'' then None
      else if c = backslash then
        (case cs of [] \<Rightarrow> None | d # ds \<Rightarrow> if ds = [] then None else Some (d, ds))
      else if cs = [] then None else Some (c, cs))"

lemma getEsc_length: "getEsc s = Some (c, t) \<Longrightarrow> length t < length s"
  by (cases s) (auto split: if_splits list.splits)

function parse_ranges :: "bool \<Rightarrow> string \<Rightarrow> ((char \<times> char) list \<times> string) option" where
  "parse_ranges start s =
     (if \<not> start \<and> s \<noteq> [] \<and> hd s = CHR '']'' then Some ([], tl s)
      else case getEsc s of
          None \<Rightarrow> None
        | Some (lo, t) \<Rightarrow>
            (if hd t = CHR ''-'' then
               (case getEsc (tl t) of
                  None \<Rightarrow> None
                | Some (hi, u) \<Rightarrow>
                    map_option (\<lambda>(rs, v). ((lo, hi) # rs, v)) (parse_ranges False u))
             else map_option (\<lambda>(rs, v). ((lo, lo) # rs, v)) (parse_ranges False t)))"
  by pat_completeness auto
termination
  by (relation "measure (\<lambda>(b, s). length s)") (force dest: getEsc_length)+

declare parse_ranges.simps [simp del]

lemma parse_ranges_length: "parse_ranges b s = Some (rs, t) \<Longrightarrow> length t < length s"
proof (induction b s arbitrary: rs t rule: parse_ranges.induct)
  case (1 b s)
  show ?case
    using 1 by (subst (asm) (3) parse_ranges.simps)
      (force split: if_splits option.splits prod.splits dest: getEsc_length)
qed

function parse_glob :: "string \<Rightarrow> glob_tok list option" where
  "parse_glob [] = Some []"
| "parse_glob (c # cs) =
     (if c = CHR ''*'' then map_option (Cons GStar) (parse_glob cs)
      else if c = CHR ''?'' then map_option (Cons GAny) (parse_glob cs)
      else if c = CHR ''['' then
        (let negated = (cs \<noteq> [] \<and> hd cs = CHR ''^'')
         in case parse_ranges True (if negated then tl cs else cs) of
              None \<Rightarrow> None
            | Some (rs, t) \<Rightarrow> map_option (Cons (GClass negated rs)) (parse_glob t))
      else if c = backslash then
        (case cs of
           [] \<Rightarrow> None
         | d # ds \<Rightarrow> map_option (Cons (GChar d)) (parse_glob ds))
      else map_option (Cons (GChar c)) (parse_glob cs))"
  by pat_completeness auto
termination
  by (relation "measure length") (auto split: if_splits dest!: parse_ranges_length)

text \<open>\<open>Match\<close>, on a pattern read into tokens.\<close>

fun match_glob :: "glob_tok list \<Rightarrow> string \<Rightarrow> bool" where
  "match_glob [] s = (s = [])"
| "match_glob (GStar # ts) [] = match_glob ts []"
| "match_glob (GStar # ts) (c # cs) =
     (match_glob ts (c # cs) \<or> c \<noteq> CHR ''/'' \<and> match_glob (GStar # ts) cs)"
| "match_glob (GChar d # ts) (c # cs) = (c = d \<and> match_glob ts cs)"
| "match_glob (GAny # ts) (c # cs) = (c \<noteq> CHR ''/'' \<and> match_glob ts cs)"
| "match_glob (GClass negated rs # ts) (c # cs) =
     (list_ex (\<lambda>(lo, hi). lo \<le> c \<and> c \<le> hi) rs \<noteq> negated \<and> match_glob ts cs)"
| "match_glob (t # ts) [] = False"

section \<open>Globbing\<close>

definition cleanGlobPath :: "string \<Rightarrow> string" where
  "cleanGlobPath p = (if p = [] then ''.'' else if p = ''/'' then p else butlast p)"

definition glob_dir ::
  "(string \<Rightarrow> string list option) \<Rightarrow> string \<Rightarrow> string list \<Rightarrow> string \<Rightarrow> string list option" where
  "glob_dir readdir file acc dir =
     (case readdir dir of
        None \<Rightarrow> Some acc
      | Some names \<Rightarrow>
          if names = [] then Some acc
          else case parse_glob file of
              None \<Rightarrow> None
            | Some ts \<Rightarrow> Some (acc @ map (\<lambda>n. Join [dir, n]) (filter (match_glob ts) (sort names))))"

fun glob_dirs ::
  "(string \<Rightarrow> string list option) \<Rightarrow> string \<Rightarrow> string list \<Rightarrow> string list \<Rightarrow> string list option" where
  "glob_dirs readdir file acc [] = Some acc"
| "glob_dirs readdir file acc (d # ds) =
     (case glob_dir readdir file acc d of
        None \<Rightarrow> None
      | Some acc' \<Rightarrow> glob_dirs readdir file acc' ds)"

lemma cleanGlobPath_length:
  "hasMeta (cleanGlobPath (fst (Split p))) \<Longrightarrow>
   length (cleanGlobPath (fst (Split p))) < length p"
proof -
  assume m: "hasMeta (cleanGlobPath (fst (Split p)))"
  let ?d = "fst (Split p)"
  have "?d \<noteq> []" "?d \<noteq> ''/''"
    using m by (auto simp: cleanGlobPath_def hasMeta_def meta_char_def backslash_def)
  moreover have "length ?d \<le> length p" by (simp add: Split_def)
  ultimately show ?thesis by (cases ?d) (auto simp: cleanGlobPath_def)
qed

function Glob ::
  "(string \<Rightarrow> bool) \<Rightarrow> (string \<Rightarrow> string list option) \<Rightarrow> string \<Rightarrow> string list option" where
  "Glob exists_at readdir pattern =
     (if parse_glob pattern = None then None
      else if \<not> hasMeta pattern then Some (if exists_at pattern then [pattern] else [])
      else
        (let dir = cleanGlobPath (fst (Split pattern)); file = snd (Split pattern)
         in if \<not> hasMeta dir then glob_dir readdir file [] dir
            else case Glob exists_at readdir dir of
                None \<Rightarrow> None
              | Some ds \<Rightarrow> glob_dirs readdir file [] ds))"
  by pat_completeness auto

termination
  by (relation "measure (\<lambda>(e, r, p). length p)") (auto dest: cleanGlobPath_length)

declare Glob.simps [simp del]

section \<open>What a pattern finds\<close>

lemma parse_glob_plain:
  "\<not> hasMeta u \<Longrightarrow> parse_glob (u @ v) = map_option ((@) (map GChar u)) (parse_glob v)"
proof (induction u)
  case Nil
  then show ?case by (cases "parse_glob v") simp_all
next
  case (Cons c u)
  then show ?case
    by (cases "parse_glob v") (auto simp: hasMeta_def meta_char_def)
qed

lemma match_plain: "match_glob (map GChar u) v \<longleftrightarrow> v = u"
proof (induction u arbitrary: v)
  case (Cons c u)
  then show ?case by (cases v) auto
qed simp

lemma match_plain_append: "match_glob (map GChar u @ ts) v \<longleftrightarrow> (\<exists>w. v = u @ w \<and> match_glob ts w)"
proof (induction u arbitrary: v)
  case (Cons c u)
  then show ?case by (cases v) auto
qed simp

text \<open>A star stands for any text without a slash.\<close>

lemma match_star:
  "match_glob (GStar # ts) s \<longleftrightarrow> (\<exists>u v. s = u @ v \<and> CHR ''/'' \<notin> set u \<and> match_glob ts v)"
proof (induction s)
  case (Cons c s)
  have "(\<exists>u v. c # s = u @ v \<and> CHR ''/'' \<notin> set u \<and> match_glob ts v) \<longleftrightarrow>
     match_glob ts (c # s) \<or> c \<noteq> CHR ''/'' \<and> (\<exists>u v. s = u @ v \<and> CHR ''/'' \<notin> set u \<and> match_glob ts v)"
    (is "?l = ?r")
  proof
    assume ?l
    then obtain u v where uv: "c # s = u @ v" "CHR ''/'' \<notin> set u" "match_glob ts v" by blast
    then show ?r by (cases u) auto
  next
    assume ?r
    then show ?l
    proof
      assume "match_glob ts (c # s)"
      then show ?l by (intro exI [of _ "[]"] exI [of _ "c # s"]) simp
    next
      assume "c \<noteq> CHR ''/'' \<and> (\<exists>u v. s = u @ v \<and> CHR ''/'' \<notin> set u \<and> match_glob ts v)"
      then obtain u v where "c \<noteq> CHR ''/''" "s = u @ v" "CHR ''/'' \<notin> set u" "match_glob ts v" by blast
      then show ?l by (intro exI [of _ "c # u"] exI [of _ v]) simp
    qed
  qed
  then show ?case using Cons by simp
qed simp

lemma hasMeta_append [simp]: "hasMeta (u @ v) \<longleftrightarrow> hasMeta u \<or> hasMeta v"
  by (simp add: hasMeta_def)

lemma hasMeta_Cons [simp]: "hasMeta (c # v) \<longleftrightarrow> meta_char c \<or> hasMeta v"
  by (simp add: hasMeta_def)

lemma hasMeta_Nil [simp]: "\<not> hasMeta []"
  by (simp add: hasMeta_def)

lemma hasMeta_subset: "\<not> hasMeta p \<Longrightarrow> set q \<subseteq> set p \<union> {CHR ''/'', CHR ''.''} \<Longrightarrow> \<not> hasMeta q"
proof
  assume "\<not> hasMeta p" "set q \<subseteq> set p \<union> {CHR ''/'', CHR ''.''}" "hasMeta q"
  then obtain c where c: "c \<in> set q" "meta_char c" by (auto simp: hasMeta_def list_ex_iff)
  then have "c \<noteq> CHR ''/''" "c \<noteq> CHR ''.''" by (auto simp: meta_char_def backslash_def)
  then have "c \<in> set p" using c \<open>set q \<subseteq> _\<close> by blast
  then show False using c \<open>\<not> hasMeta p\<close> by (auto simp: hasMeta_def list_ex_iff)
qed

lemma glob_dir_mem:
  assumes "readdir dir = Some names" "n \<in> set names" "parse_glob file = Some ts" "match_glob ts n"
  shows "\<exists>fs. glob_dir readdir file [] dir = Some fs \<and> Join [dir, n] \<in> set fs"
  using assms by (auto simp: glob_dir_def simp del: Join.simps)


text \<open>
  The pattern \<open>pat\<close> in directory \<open>p\<close> finds every name of the directory it matches, in a file
  system where a directory does not depend on how its path is spelled.
\<close>

lemma Glob_finds:
  assumes p: "\<not> hasMeta p" and pat: "plain_name pat" "hasMeta pat"
    and ts: "parse_glob pat = Some ts" "match_glob ts n"
    and dir: "\<And>d. place_of d = place_of p \<Longrightarrow> readdir d = Some names" and n: "n \<in> set names"
  shows "\<exists>fs d. Glob exists_at readdir (Join [p, pat]) = Some fs \<and> place_of d = place_of p \<and>
    Join [d, n] \<in> set fs"
proof -
  obtain q where q: "Split (Join [p, pat]) = (q, pat)"
    "q = render (place_of p) \<and> snd (place_of p) = [] \<or>
     q = render (place_of p) @ ''/'' \<and> snd (place_of p) \<noteq> []"
    using Split_Join [OF pat(1)] by blast
  let ?d = "cleanGlobPath q"
  have join: "Join [p, pat] = q @ pat" using Split_parts [of "Join [p, pat]"] q(1) by simp
  have "set q \<subseteq> {CHR ''/''} \<union> set p" using q(2) render_chars [of p] by auto
  then have mq: "\<not> hasMeta q" by (intro hasMeta_subset [OF p]) auto
  have md: "\<not> hasMeta ?d"
  proof (rule hasMeta_subset [OF mq])
    show "set ?d \<subseteq> set q \<union> {CHR ''/'', CHR ''.''}"
      by (auto simp: cleanGlobPath_def dest: in_set_butlastD)
  qed
  have k: "place_of (render (place_of p)) = place_of p"
    using place_of_render [OF clean_stack_place [of p]] by simp
  have d: "place_of ?d = place_of p"
    using q(2)
  proof
    assume a: "q = render (place_of p) \<and> snd (place_of p) = []"
    then have "q = [] \<or> q = ''/''" by (auto simp: render_def)
    then show ?thesis using a k by (auto simp: cleanGlobPath_def)
  next
    assume a: "q = render (place_of p) @ ''/'' \<and> snd (place_of p) \<noteq> []"
    have "render (place_of p) \<noteq> []" using a k by (metis place_of_here(1) snd_conv)
    then have "?d = render (place_of p)" using a by (auto simp: cleanGlobPath_def)
    then show ?thesis using k by simp
  qed
  have parse: "parse_glob (Join [p, pat]) \<noteq> None"
    using parse_glob_plain [OF mq] ts(1) by (simp add: join del: Join.simps)
  have meta: "hasMeta (Join [p, pat])" using pat(2) by (simp add: join del: Join.simps)
  obtain fs where "glob_dir readdir pat [] ?d = Some fs" "Join [?d, n] \<in> set fs"
    using glob_dir_mem [of readdir ?d, OF dir [OF d] n ts] by blast
  then have "Glob exists_at readdir (Join [p, pat]) = Some fs"
    using parse meta md by (subst Glob.simps) (simp add: q(1) del: Join.simps)
  then show ?thesis using d \<open>Join [?d, n] \<in> set fs\<close> by blast
qed

end
