(* ===== verification/Keys.thy ===== *)
theory Keys
  imports GoGlob Account "HOL-Library.AList"
begin

text \<open>
  \<open>cmd/keys.go\<close>: the commands that generate, add and delete the signer's keys.  A command runs on
  a \<open>kworld\<close>: the files and directories under their places (theory \<open>GoPath\<close>; the directories listed
  are the readable ones, and no path goes through a symbolic link), what \<open>viper\<close> holds of
  \<open>endpoint.engine\<close>, how many key pairs were drawn, the lines printed and the batches sent to NEAR.
  The NEAR client, base58, ed25519, the JSON reader of the key store and the decoding of the
  configuration are the fields of \<open>keys_env\<close>; errors of the file system other than a missing file
  come from \<open>fs_faults\<close>.
\<close>

section \<open>Data\<close>

record KeyFile =
  AccountID :: string
  PublicKey :: string
  SecretKey :: string

datatype content = KeyJson KeyFile | OtherContent string

text \<open>\<open>cmd.Config\<close>; the field \<open>NearConfig\<close> is filled by \<open>loadConfig\<close>.\<close>

record KeysConfig =
  kc_Signer :: string
  kc_SignerKey :: string
  kc_FunctionKeyPrefixPattern :: string
  kc_NearNetworkID :: string
  kc_NearNodeURL :: string
  kc_NearArchivalNodeURL :: string
  kc_NearConfig :: near_Config

text \<open>\<open>utils.PublicKey\<close> with the key type the sources set and its 32 bytes.\<close>

datatype nearPublicKey = ED25519Key "u8 list"

datatype chain_call = CallAddKeys "nearPublicKey list" | CallDeleteKeys "nearPublicKey list"

text \<open>
  What \<open>viper.ReadInConfig\<close> does: it reads a file, whose engine section decodes or not, finds no
  file, or fails in another way.
\<close>

datatype config_read = ConfigRead "error + KeysConfig" | ConfigNotFound | ConfigBad error

record kworld =
  kfiles :: "(place \<times> content) list"
  kdirs :: "place list"
  viper :: "error + KeysConfig"
  drawn :: nat
  printed :: "string list"
  calls :: "chain_call list"

record fs_faults =
  stat_fault :: "string \<Rightarrow> error option"
  create_fault :: "string \<Rightarrow> error option"
  write_fault :: "string \<Rightarrow> error option"
  remove_fault :: "string \<Rightarrow> error option"

record 'acc keys_env = "'acc near_lib" +
  ReadInConfig :: "string \<Rightarrow> config_read"
  GenerateKey :: "nat \<Rightarrow> error + (u8 list \<times> u8 list)"
  b58_Encode :: "u8 list \<Rightarrow> string"
  b58_Decode :: "string \<Rightarrow> u8 list"
  LoadKeyPairFromPath :: "string \<Rightarrow> content option \<Rightarrow> string \<Rightarrow> error + string"
  near_AddKeys :: "nat \<Rightarrow> 'acc \<Rightarrow> nearPublicKey list \<Rightarrow> error + (string \<times> goval) list"
  near_DeleteKeys :: "nat \<Rightarrow> 'acc \<Rightarrow> nearPublicKey list \<Rightarrow> error + (string \<times> goval) list"
  show_goval :: "goval \<Rightarrow> string"

section \<open>Commands\<close>

text \<open>
  How a command stops early: \<open>os.Exit\<close> with a code, an error of \<open>PersistentPreRunE\<close>, or a panic.
  A command that returns \<open>nil\<close> gives \<open>Inr\<close>.
\<close>

datatype cmd_end = Exited nat | RunError error | RunPanic go_panic

type_synonym 'a cmd = "(kworld, cmd_end, 'a) prog"

definition print :: "string \<Rightarrow> unit cmd" where
  "print s w = (Inr (), w\<lparr>printed := printed w @ [s]\<rparr>)"

definition fail_with :: "string \<Rightarrow> 'a cmd" where
  "fail_with s = then_cmd (print s) (\<lambda>_. stop (Exited 1))"

section \<open>The file system\<close>

definition exists_at :: "kworld \<Rightarrow> string \<Rightarrow> bool" where
  "exists_at w p \<longleftrightarrow>
     map_of (kfiles w) (place_of p) \<noteq> None \<or> place_of p \<in> set (kdirs w)"

text \<open>The names in a directory, of files and of directories.\<close>

definition names_in :: "place \<Rightarrow> place list \<Rightarrow> string list" where
  "names_in d ks =
     map (\<lambda>k. hd (snd k))
       (filter (\<lambda>k. snd k \<noteq> [] \<and> hd (snd k) \<noteq> ''..'' \<and> (fst k, tl (snd k)) = d) ks)"

definition Readdirnames :: "kworld \<Rightarrow> string \<Rightarrow> string list option" where
  "Readdirnames w p =
     (if place_of p \<in> set (kdirs w)
      then Some (names_in (place_of p) (map fst (kfiles w) @ kdirs w)) else None)"

text \<open>\<open>os.IsNotExist(err)\<close> of \<open>os.Stat\<close>.\<close>

definition stat_not_exist :: "fs_faults \<Rightarrow> kworld \<Rightarrow> string \<Rightarrow> bool" where
  "stat_not_exist fl w p \<longleftrightarrow> p = [] \<or> stat_fault fl p = None \<and> \<not> exists_at w p"

text \<open>
  \<open>os.Create\<close> makes an empty file, in a directory that exists and under a name that is not a
  directory.
\<close>

definition can_create :: "kworld \<Rightarrow> string \<Rightarrow> bool" where
  "can_create w p \<longleftrightarrow> p \<noteq> [] \<and> last p \<noteq> CHR ''/'' \<and> place_of p \<notin> set (kdirs w) \<and>
     (case place_of p of
        (r, []) \<Rightarrow> False
      | (r, n # st) \<Rightarrow> n \<noteq> ''..'' \<and> (r, st) \<in> set (kdirs w))"

definition os_Create :: "fs_faults \<Rightarrow> string \<Rightarrow> error option cmd" where
  "os_Create fl p w =
     (if create_fault fl p \<noteq> None then (Inr (create_fault fl p), w)
      else if can_create w p
        then (Inr None, w\<lparr>kfiles := AList.update (place_of p) (OtherContent []) (kfiles w)\<rparr>)
      else (Inr (Some (''open '' @ p @ '': no such file or directory'')), w))"

text \<open>\<open>encoder.Encode(keyFile)\<close>, which writes the whole text or fails.\<close>

definition encode_key :: "fs_faults \<Rightarrow> string \<Rightarrow> KeyFile \<Rightarrow> error option cmd" where
  "encode_key fl p kf w =
     (case write_fault fl p of
        Some e \<Rightarrow> (Inr (Some e), w)
      | None \<Rightarrow> (Inr None, w\<lparr>kfiles := AList.update (place_of p) (KeyJson kf) (kfiles w)\<rparr>))"

definition os_Remove_key :: "fs_faults \<Rightarrow> string \<Rightarrow> error option cmd" where
  "os_Remove_key fl p w =
     (if remove_fault fl p \<noteq> None then (Inr (remove_fault fl p), w)
      else if map_of (kfiles w) (place_of p) \<noteq> None
        then (Inr None, w\<lparr>kfiles := AList.delete (place_of p) (kfiles w)\<rparr>)
      else if place_of p \<in> set (kdirs w) \<and> names_in (place_of p) (map fst (kfiles w) @ kdirs w) = []
        then (Inr None, w\<lparr>kdirs := removeAll (place_of p) (kdirs w)\<rparr>)
      else (Inr (Some (''remove '' @ p)), w))"

section \<open>Keys and key files\<close>

definition keyPrefix :: string where "keyPrefix = ''ed25519:''"

definition defaultConfigFile :: string where "defaultConfigFile = ''config/testnet.yaml''"

text \<open>\<open>hex.EncodeToString\<close>.\<close>

definition hex_digit :: "nat \<Rightarrow> char" where
  "hex_digit d = char_of (if d < 10 then 48 + d else 87 + d)"

definition hex_EncodeToString :: "u8 list \<Rightarrow> string" where
  "hex_EncodeToString bs =
     concat (map (\<lambda>b. [hex_digit (unat b div 16), hex_digit (unat b mod 16)]) bs)"

definition publicKeyFromBase58 :: "'acc keys_env \<Rightarrow> string \<Rightarrow> nearPublicKey" where
  "publicKeyFromBase58 env pub =
     (let decoded = b58_Decode env (trim_prefix pub keyPrefix)
      in ED25519Key (take 32 decoded @ replicate (32 - length decoded) 0))"

definition newKey :: "'acc keys_env \<Rightarrow> string \<Rightarrow> KeyFile cmd" where
  "newKey env accountid w =
     (case GenerateKey env (drawn w) of
        Inl e \<Rightarrow> (Inl (RunPanic PanicCall), w)
      | Inr (pub, priv) \<Rightarrow>
          (Inr \<lparr>AccountID = (if accountid = [] then hex_EncodeToString pub else accountid),
                PublicKey = keyPrefix @ b58_Encode env pub,
                SecretKey = keyPrefix @ b58_Encode env priv\<rparr>,
           w\<lparr>drawn := drawn w + 1\<rparr>))"

definition dumpJson :: "fs_faults \<Rightarrow> string \<Rightarrow> KeyFile \<Rightarrow> error option cmd" where
  "dumpJson fl fileName keyFile w =
     (if stat_not_exist fl w fileName then
        then_cmd (os_Create fl fileName) (\<lambda>e. case e of
            Some m \<Rightarrow> ret (Some m)
          | None \<Rightarrow> encode_key fl fileName keyFile) w
      else (Inr (Some (''file already exists: ['' @ fileName @ '']'')), w))"

section \<open>Configuration\<close>

definition bindConfiguration :: "'acc keys_env \<Rightarrow> string \<Rightarrow> unit cmd" where
  "bindConfiguration env configFile w =
     (case ReadInConfig env (if configFile \<noteq> [] then configFile else defaultConfigFile) of
        ConfigRead c \<Rightarrow> (Inr (), w\<lparr>viper := c\<rparr>)
      | ConfigNotFound \<Rightarrow> (Inr (), w)
      | ConfigBad e \<Rightarrow> (Inl (RunError e), w))"

definition fill_config :: "KeysConfig \<Rightarrow> KeysConfig" where
  "fill_config config =
     (let c = (if kc_NearNodeURL config = []
               then config\<lparr>kc_NearNodeURL := kc_NearArchivalNodeURL config\<rparr> else config)
      in c\<lparr>kc_NearConfig :=
           \<lparr>cfg_NetworkID = kc_NearNetworkID c, cfg_NodeURL = kc_NearNodeURL c,
            cfg_FunctionKeyPrefixPattern = [], cfg_KeyPath = kc_SignerKey c\<rparr>\<rparr>)"

definition loadConfig :: "KeysConfig cmd" where
  "loadConfig w =
     (case viper w of
        Inl e \<Rightarrow> (Inl (RunPanic PanicCall), w)
      | Inr config \<Rightarrow> (Inr (fill_config config), w))"

definition getFunctionCallKeyPairFilePaths :: "kworld \<Rightarrow> string \<Rightarrow> string \<Rightarrow> string list" where
  "getFunctionCallKeyPairFilePaths w path prefixPattern =
     (let (dir, file) = Split path;
          pattern = Join [dir, prefixPattern @ file]
      in case Glob (exists_at w) (Readdirnames w) pattern of
           None \<Rightarrow> []
         | Some files \<Rightarrow> files)"

section \<open>generate-key\<close>

definition GenerateKeysCmd ::
  "'acc keys_env \<Rightarrow> fs_faults \<Rightarrow> string \<Rightarrow> string \<Rightarrow> string \<Rightarrow> unit cmd" where
  "GenerateKeysCmd env fl configFile accountID outputPath =
     then_cmd
       (if accountID = [] \<and> outputPath = [] then bindConfiguration env configFile else ret ())
       (\<lambda>_. if outputPath \<noteq> [] then
              then_cmd (newKey env accountID) (\<lambda>key.
              then_cmd (dumpJson fl outputPath key) (\<lambda>_.
                print (''key generated: ['' @ outputPath @ '']'')))
            else
              then_cmd loadConfig (\<lambda>config.
                if kc_SignerKey config = [] then
                  fail_with ''signerKey is not set, please provide it in the config file''
                else
                  then_cmd (newKey env []) (\<lambda>key.
                  then_cmd (dumpJson fl (kc_SignerKey config) key) (\<lambda>_.
                    print (''key generated: ['' @ kc_SignerKey config @ '']'')))))"

section \<open>add-keys\<close>

definition key_file_name :: "string \<Rightarrow> nat \<Rightarrow> string" where
  "key_file_name signerKey i = Dir signerKey @ ''/fk'' @ dec i @ ''.'' @ Base signerKey"

primrec add_keys_loop ::
  "nat \<Rightarrow> 'acc keys_env \<Rightarrow> fs_faults \<Rightarrow> KeysConfig \<Rightarrow> nat \<Rightarrow> nearPublicKey list \<Rightarrow> nearPublicKey list cmd"
where
  "add_keys_loop 0 env fl config i pubKeys = ret pubKeys"
| "add_keys_loop (Suc n) env fl config i pubKeys =
     then_cmd (newKey env (kc_Signer config)) (\<lambda>key.
     then_cmd (dumpJson fl (key_file_name (kc_SignerKey config) i) key) (\<lambda>e.
       case e of
         Some m \<Rightarrow>
           fail_with (''failed to dump key to file: ['' @ key_file_name (kc_SignerKey config) i @ '']('' @ m @ '') '')
       | None \<Rightarrow>
           add_keys_loop n env fl config (i + 1) (pubKeys @ [publicKeyFromBase58 env (PublicKey key)])))"

definition field :: "(string \<times> goval) list \<Rightarrow> string \<Rightarrow> goval" where
  "field m k = (case map_of m k of Some v \<Rightarrow> v | None \<Rightarrow> GNil)"

text \<open>The lines after a batch: its error, the type assertion and the failure in its status.\<close>

definition check_result :: "'acc keys_env \<Rightarrow> string \<Rightarrow> error + (string \<times> goval) list \<Rightarrow> unit cmd" where
  "check_result env what r =
     (case r of
        Inl e \<Rightarrow> fail_with (''failed to '' @ what @ '' key: ['' @ e @ '']'')
      | Inr m \<Rightarrow>
          (case as_map (field m ''status'') of
             Ret st \<Rightarrow>
               if field st ''Failure'' \<noteq> GNil then
                 fail_with (''failed to '' @ what @ '' key: ['' @ show_goval env (field st ''Failure'') @ '']'')
               else ret ()
           | Blocked \<Rightarrow> ret ()
           | Panic k \<Rightarrow> stop (RunPanic k)))"

definition send_add :: "'acc keys_env \<Rightarrow> 'acc \<Rightarrow> nearPublicKey list \<Rightarrow> unit cmd" where
  "send_add env acc pks w =
     check_result env ''add'' (near_AddKeys env (length (calls w)) acc pks)
       (w\<lparr>calls := calls w @ [CallAddKeys pks]\<rparr>)"

definition load_account :: "'acc keys_env \<Rightarrow> KeysConfig \<Rightarrow> 'acc cmd" where
  "load_account env config =
     (case LoadAccount env (cfg_NodeURL (kc_NearConfig config))
        (kc_NearConfig config) (kc_Signer config) of
        Inl e \<Rightarrow>
          fail_with (''failed to load Near account from path: ['' @ kc_SignerKey config @ '']('' @ e @ '')'')
      | Inr acc \<Rightarrow> ret acc)"

definition AddKeysCmd :: "'acc keys_env \<Rightarrow> fs_faults \<Rightarrow> string \<Rightarrow> u64 \<Rightarrow> unit cmd" where
  "AddKeysCmd env fl configFile numberOfKeys =
     then_cmd (bindConfiguration env configFile) (\<lambda>_.
     then_cmd loadConfig (\<lambda>config.
       if numberOfKeys = 0 then
         fail_with ''number-of-keys is not set, please provide it using -n flag''
       else
         then_cmd (load_account env config) (\<lambda>acc.
         then_cmd (add_keys_loop (unat numberOfKeys) env fl config 0 []) (\<lambda>pubKeys.
         then_cmd (send_add env acc pubKeys) (\<lambda>_.
           print (dec (length pubKeys) @ '' keys where added''))))))"

section \<open>delete-keys\<close>

primrec load_keys ::
  "string list \<Rightarrow> 'acc keys_env \<Rightarrow> string \<Rightarrow> nearPublicKey list \<Rightarrow> nearPublicKey list cmd" where
  "load_keys [] env signer pubKeys = ret pubKeys"
| "load_keys (p # ps) env signer pubKeys = (\<lambda>w.
     case LoadKeyPairFromPath env p (map_of (kfiles w) (place_of p)) signer of
       Inl e \<Rightarrow> fail_with (''failed to load key pair from path: ['' @ p @ '']('' @ e @ '')'') w
     | Inr pub \<Rightarrow> load_keys ps env signer (pubKeys @ [publicKeyFromBase58 env pub]) w)"

primrec remove_keys :: "string list \<Rightarrow> fs_faults \<Rightarrow> unit cmd" where
  "remove_keys [] fl = ret ()"
| "remove_keys (p # ps) fl =
     then_cmd (os_Remove_key fl p) (\<lambda>e.
       case e of
         Some m \<Rightarrow> fail_with (''failed to remove key pair file: ['' @ p @ '']('' @ m @ '')'')
       | None \<Rightarrow> remove_keys ps fl)"

definition send_delete :: "'acc keys_env \<Rightarrow> 'acc \<Rightarrow> nearPublicKey list \<Rightarrow> unit cmd" where
  "send_delete env acc pks w =
     check_result env ''delete'' (near_DeleteKeys env (length (calls w)) acc pks)
       (w\<lparr>calls := calls w @ [CallDeleteKeys pks]\<rparr>)"

definition delete_paths :: "KeysConfig \<Rightarrow> string list cmd" where
  "delete_paths config w =
     (Inr (getFunctionCallKeyPairFilePaths w (kc_SignerKey config) (kc_FunctionKeyPrefixPattern config)), w)"

definition DeleteKeysCmd :: "'acc keys_env \<Rightarrow> fs_faults \<Rightarrow> string \<Rightarrow> unit cmd" where
  "DeleteKeysCmd env fl configFile =
     then_cmd (bindConfiguration env configFile) (\<lambda>_.
     then_cmd loadConfig (\<lambda>config.
     then_cmd (delete_paths config) (\<lambda>paths.
     then_cmd (load_account env config) (\<lambda>acc.
     then_cmd (load_keys paths env (kc_Signer config) []) (\<lambda>pubKeys.
     then_cmd (send_delete env acc pubKeys) (\<lambda>_.
     then_cmd (remove_keys paths fl) (\<lambda>_.
     then_cmd (print (dec (length paths) @ '' keys where deleted'')) (\<lambda>_.
       stop (Exited 0)))))))))"

section \<open>What \<open>dumpJson\<close> does\<close>

text \<open>
  It leaves the files as they are, or it makes a new one, in full when it
  reports no error.
\<close>

lemma dumpJson_outcome:
  assumes "dumpJson fl p kf w = (r, v)"
  obtains m where "r = Inr (Some m)" "v = w"
  | m where "r = Inr (Some m)" "\<not> exists_at w p" "can_create w p"
      "v = w\<lparr>kfiles := AList.update (place_of p) (OtherContent []) (kfiles w)\<rparr>"
  | "r = Inr None" "\<not> exists_at w p" "can_create w p" "p \<noteq> []"
      "map_of (kfiles v) = (map_of (kfiles w))(place_of p \<mapsto> KeyJson kf)"
      "kdirs v = kdirs w" "drawn v = drawn w" "calls v = calls w" "viper v = viper w"
proof -
  have ex: "stat_not_exist fl w p \<Longrightarrow> can_create w p \<Longrightarrow> \<not> exists_at w p"
    by (auto simp: stat_not_exist_def can_create_def)
  show ?thesis
  proof (cases "stat_not_exist fl w p \<and> create_fault fl p = None \<and> can_create w p")
    case False
    then have "\<exists>m. r = Inr (Some m) \<and> v = w"
      using assms by (auto simp: dumpJson_def then_cmd_def os_Create_def ret_def split: if_splits)
    then show ?thesis using that(1) by blast
  next
    case True
    then have ne: "\<not> exists_at w p" using ex by blast
    show ?thesis
    proof (cases "write_fault fl p")
      case None
      then have "r = Inr None" "v = w\<lparr>kfiles := AList.update (place_of p) (KeyJson kf)
          (AList.update (place_of p) (OtherContent []) (kfiles w))\<rparr>"
        using True assms by (auto simp: dumpJson_def then_cmd_def os_Create_def encode_key_def)
      then show ?thesis using that(3) True ne by (simp add: update_conv' can_create_def)
    next
      case (Some m)
      then show ?thesis
        using that(2) [of m] True ne assms
        by (auto simp: dumpJson_def then_cmd_def os_Create_def encode_key_def)
    qed
  qed
qed

section \<open>What a command keeps\<close>

text \<open>
  A relation between the states before and after that printing, drawing keys and \<open>dumpJson\<close> keep,
  is kept by every command built from them.
\<close>

definition cmd_keeps :: "(kworld \<Rightarrow> kworld \<Rightarrow> bool) \<Rightarrow> 'a cmd \<Rightarrow> bool" where
  "cmd_keeps R m \<longleftrightarrow> (\<forall>w. R w (snd (m w)))"

lemma cmd_keepsD: "cmd_keeps R m \<Longrightarrow> m w = (r, v) \<Longrightarrow> R w v"
  unfolding cmd_keeps_def by (metis snd_conv)

named_theorems keeps \<open>commands that keep a relation\<close>

locale cmd_frame =
  fixes R :: "kworld \<Rightarrow> kworld \<Rightarrow> bool"
  assumes R_refl: "R w w"
    and R_trans: "R u v \<Longrightarrow> R v w \<Longrightarrow> R u w"
    and R_print: "R w (w\<lparr>printed := ps\<rparr>)"
    and R_drawn: "R w (w\<lparr>drawn := n\<rparr>)"
    and R_dump: "R w (snd (dumpJson fl p kf w))"
begin

lemma keeps_then [keeps]:
  assumes "cmd_keeps R m" "\<And>x. cmd_keeps R (f x)"
  shows "cmd_keeps R (then_cmd m f)"
  using assms unfolding cmd_keeps_def then_cmd_def
  by (auto split: prod.split sum.split intro: R_trans) (metis R_trans snd_conv)

lemma keeps_ret [keeps]: "cmd_keeps R (ret x)"
  by (simp add: cmd_keeps_def ret_def R_refl)

lemma keeps_stop [keeps]: "cmd_keeps R (stop e)"
  by (simp add: cmd_keeps_def stop_def R_refl)

lemma keeps_print [keeps]: "cmd_keeps R (print s)"
  by (simp add: cmd_keeps_def print_def R_print)

lemma keeps_fail [keeps]: "cmd_keeps R (fail_with s)"
  unfolding fail_with_def by (intro keeps)

lemma keeps_newKey [keeps]: "cmd_keeps R (newKey env acc)"
  by (auto simp: cmd_keeps_def newKey_def R_refl R_drawn split: sum.split)

lemma keeps_dump [keeps]: "cmd_keeps R (dumpJson fl p kf)"
  by (simp add: cmd_keeps_def R_dump)

lemma keeps_load [keeps]: "cmd_keeps R loadConfig"
  by (auto simp: cmd_keeps_def loadConfig_def R_refl split: sum.split)

lemma keeps_account [keeps]: "cmd_keeps R (load_account env config)"
  by (auto simp: load_account_def intro!: keeps split: sum.split)

lemma keeps_check [keeps]: "cmd_keeps R (check_result env what r)"
  by (auto simp: check_result_def Let_def intro!: keeps split: sum.split outcome.split)

lemma keeps_loop [keeps]: "cmd_keeps R (add_keys_loop n env fl config i pks)"
  by (induction n arbitrary: i pks) (auto intro!: keeps split: option.split)

end

text \<open>Every file is still there, with its content, and the directories are the same.\<close>

definition files_kept :: "kworld \<Rightarrow> kworld \<Rightarrow> bool" where
  "files_kept w v \<longleftrightarrow>
     (\<forall>k c. map_of (kfiles w) k = Some c \<longrightarrow> map_of (kfiles v) k = Some c) \<and> kdirs v = kdirs w"

lemma files_keptD: "files_kept w v \<Longrightarrow> map_of (kfiles w) k = Some c \<Longrightarrow> map_of (kfiles v) k = Some c"
  by (cases k) (simp add: files_kept_def)

lemma files_kept_refl [simp]: "files_kept w w"
  by (simp add: files_kept_def)

interpretation files: cmd_frame files_kept
proof
  fix w fl p kf
  obtain r v where d: "dumpJson fl p kf w = (r, v)" by fastforce
  then have "files_kept w v"
    by (cases rule: dumpJson_outcome) (auto simp: files_kept_def exists_at_def update_conv')
  then show "files_kept w (snd (dumpJson fl p kf w))" using d by simp
qed (simp_all add: files_kept_def)

text \<open>No batch was sent and the configuration is the same.\<close>

definition nothing_sent :: "kworld \<Rightarrow> kworld \<Rightarrow> bool" where
  "nothing_sent w v \<longleftrightarrow> calls v = calls w \<and> viper v = viper w"

interpretation unsent: cmd_frame nothing_sent
proof
  fix w fl p kf
  obtain r v where d: "dumpJson fl p kf w = (r, v)" by fastforce
  then have "nothing_sent w v" by (cases rule: dumpJson_outcome) (simp_all add: nothing_sent_def)
  then show "nothing_sent w (snd (dumpJson fl p kf w))" using d by simp
qed (simp_all add: nothing_sent_def)

lemma keeps_bind [keeps]: "cmd_keeps files_kept (bindConfiguration env flag)"
  by (auto simp: cmd_keeps_def bindConfiguration_def files_kept_def split: config_read.split)

lemma keeps_send [keeps]: "cmd_keeps files_kept (send_add env acc pks)"
  using files.keeps_check [of env "''add''"]
  by (auto simp: cmd_keeps_def send_add_def files_kept_def)

lemma keeps_AddKeys [keeps]: "cmd_keeps files_kept (AddKeysCmd env fl configFile numberOfKeys)"
  by (auto simp: AddKeysCmd_def intro!: keeps)

lemma keeps_GenerateKeys [keeps]: "cmd_keeps files_kept (GenerateKeysCmd env fl configFile accountID outputPath)"
  by (auto simp: GenerateKeysCmd_def intro!: keeps)

text \<open>
  C19. No key is overwritten: whatever generate-key and add-keys do, fail in the middle included,
  every file that was there when they started is there when they end, with the same content.
\<close>

theorem key_files_never_overwritten:
  assumes "map_of (kfiles w) k = Some c"
  shows "map_of (kfiles (snd (GenerateKeysCmd env fl configFile accountID outputPath w))) k = Some c \<and>
    map_of (kfiles (snd (AddKeysCmd env fl configFile numberOfKeys w))) k = Some c"
  using assms files_keptD keeps_AddKeys keeps_GenerateKeys by (simp add: cmd_keeps_def) blast

section \<open>The key files\<close>

lemma Base_Split:
  assumes "plain_name (snd (Split p))"
  shows "Base p = snd (Split p)"
proof -
  obtain q w where q: "Split p = (q, w)" by fastforce
  have w: "w \<noteq> []" "CHR ''/'' \<notin> set w" using assms q by (simp_all add: plain_name_def)
  have p: "p = q @ w" using Split_parts [of p] q by simp
  have "last w \<noteq> CHR ''/''" using w by (cases w rule: rev_cases) auto
  then have strip: "rev (dropWhile (\<lambda>c. c = CHR ''/'') (rev (q @ w))) = q @ w"
    using w(1) by (cases w rule: rev_cases) auto
  have "q = [] \<or> last q = CHR ''/''" using Split_dir [of p] q by simp
  then have "last (split_path (q @ w)) = w"
  proof
    assume "last q = CHR ''/''"
    then show ?thesis
      using last_split_path [OF w(2), of "butlast q"] w(2)
      by (cases q rule: rev_cases) (simp_all add: split_path_plain)
  qed (use w in \<open>simp add: split_path_plain\<close>)
  then show ?thesis unfolding p using w(1) q p strip by (simp add: Base_def Let_def del: rev_append)
qed

definition key_name :: "string \<Rightarrow> nat \<Rightarrow> string" where
  "key_name base i = ''fk'' @ dec i @ ''.'' @ base"

lemma plain_key_name: "plain_name base \<Longrightarrow> plain_name (key_name base i)"
  using dec_no_char [of "CHR ''/''" i] by (simp add: plain_name_def key_name_def)

lemma key_file_place:
  assumes "plain_name (snd (Split sk))"
  shows "place_of (key_file_name sk i) =
    (fst (place_of (fst (Split sk))), key_name (snd (Split sk)) i # snd (place_of (fst (Split sk))))"
proof -
  have "Dir sk \<noteq> []" by (simp add: Dir_def Clean_def Let_def)
  from place_of_append [OF this plain_key_name [OF assms, of i]] show ?thesis
    by (simp add: key_file_name_def Base_Split [OF assms] key_name_def Dir_def place_of_Clean)
qed

text \<open>The pattern of the shipped configuration finds a key file.\<close>

lemma key_file_found:
  assumes sk: "plain_name (snd (Split sk))" "\<not> hasMeta sk"
    and there: "map_of (kfiles w) (place_of (key_file_name sk i)) = Some c"
    and dir: "place_of (fst (Split sk)) \<in> set (kdirs w)"
  shows "\<exists>p \<in> set (getFunctionCallKeyPairFilePaths w sk ''fk*.'').
    place_of p = place_of (key_file_name sk i)"
proof -
  obtain q b where q: "Split sk = (q, b)" by fastforce
  have b: "plain_name b" using sk q by simp
  have m: "\<not> hasMeta q" "\<not> hasMeta b"
    using sk(2) Split_parts [of sk] q by (metis fst_conv snd_conv hasMeta_append)+
  let ?pat = "''fk*.'' @ b" and ?n = "key_name b i"
  have pat: "plain_name ?pat" "hasMeta ?pat"
    using b by (simp_all add: plain_name_def hasMeta_def meta_char_def)
  have "parse_glob (b @ []) = Some (map GChar b)" using parse_glob_plain [OF m(2), of "[]"] by simp
  then have ts: "parse_glob ?pat = Some (GChar CHR ''f'' # GChar CHR ''k'' # GStar # map GChar (CHR ''.'' # b))"
    by (simp add: backslash_def)
  have "match_glob (GStar # map GChar (CHR ''.'' # b)) (dec i @ CHR ''.'' # b)"
    unfolding match_star match_plain using dec_no_char [of "CHR ''/''" i] by auto
  then have mt: "match_glob (GChar CHR ''f'' # GChar CHR ''k'' # GStar # map GChar (CHR ''.'' # b)) ?n"
    by (simp add: key_name_def)
  let ?d = "place_of q"
  let ?names = "names_in ?d (map fst (kfiles w) @ kdirs w)"
  have rd: "Readdirnames w d = Some ?names" if "place_of d = ?d" for d
    using dir that q by (simp add: Readdirnames_def)
  have "place_of (key_file_name sk i) \<in> fst ` set (kfiles w)"
    using there by (metis map_of_eq_None_iff option.distinct(1))
  then have "(fst ?d, ?n # snd ?d) \<in> fst ` set (kfiles w)"
    using key_file_place [OF sk(1), of i] q by simp
  then have n: "?n \<in> set ?names" by (force simp: names_in_def key_name_def)
  obtain fs d where "Glob (exists_at w) (Readdirnames w) (Join [q, ?pat]) = Some fs"
      "place_of d = ?d" "Join [d, ?n] \<in> set fs"
    using Glob_finds [where readdir = "Readdirnames w", OF m(1) pat ts mt rd n] by blast
  moreover have "place_of (Join [d, ?n]) = place_of (key_file_name sk i)" if "place_of d = ?d" for d
    using place_of_Join [OF plain_key_name [OF b], of d i] that key_file_place [OF sk(1), of i] q
    by (simp del: Join.simps)
  ultimately show ?thesis
    by (auto simp: getFunctionCallKeyPairFilePaths_def q simp del: Join.simps)
qed

section \<open>A run of add-keys\<close>

text \<open>The key file of the \<open>n\<close>-th pair drawn.\<close>

definition key_of_draw :: "'acc keys_env \<Rightarrow> nat \<Rightarrow> KeyFile \<Rightarrow> bool" where
  "key_of_draw env n kf \<longleftrightarrow>
     (\<exists>pub priv. GenerateKey env n = Inr (pub, priv) \<and> PublicKey kf = keyPrefix @ b58_Encode env pub)"

lemma newKey_draw:
  "newKey env acc w = (Inr kf, v) \<Longrightarrow> key_of_draw env (drawn w) kf \<and> v = w\<lparr>drawn := drawn w + 1\<rparr>"
  by (auto simp: newKey_def key_of_draw_def split: sum.splits)

lemma can_create_dirs: "kdirs v = kdirs w \<Longrightarrow> can_create v p = can_create w p"
  unfolding can_create_def by presburger

lemma add_keys_loop_step:
  assumes "add_keys_loop (Suc n) env fl config i pks w = (Inr pks', v)"
  shows "\<exists>kf w1 w2. newKey env (kc_Signer config) w = (Inr kf, w1) \<and>
    dumpJson fl (key_file_name (kc_SignerKey config) i) kf w1 = (Inr None, w2) \<and>
    add_keys_loop n env fl config (i + 1) (pks @ [publicKeyFromBase58 env (PublicKey kf)]) w2 = (Inr pks', v)"
  using assms
  by (auto simp: then_cmd_def fail_with_def print_def stop_def
      split: prod.splits sum.splits option.splits)

lemma add_keys_loop_written:
  "add_keys_loop n env fl config i pks w = (Inr pks', v) \<Longrightarrow>
   \<exists>kfs. length kfs = n \<and> pks' = pks @ map (\<lambda>kf. publicKeyFromBase58 env (PublicKey kf)) kfs \<and>
     (\<forall>j<n. map_of (kfiles v) (place_of (key_file_name (kc_SignerKey config) (i + j))) = Some (KeyJson (kfs ! j)) \<and>
        can_create w (key_file_name (kc_SignerKey config) (i + j)) \<and> key_of_draw env (drawn w + j) (kfs ! j))"
proof (induction n arbitrary: i pks w)
  case 0
  then show ?case by (simp add: ret_def)
next
  case (Suc n)
  let ?f = "key_file_name (kc_SignerKey config)"
  obtain kf w1 w2 where k: "newKey env (kc_Signer config) w = (Inr kf, w1)"
    and d: "dumpJson fl (?f i) kf w1 = (Inr None, w2)"
    and r: "add_keys_loop n env fl config (i + 1) (pks @ [publicKeyFromBase58 env (PublicKey kf)]) w2 = (Inr pks', v)"
    using add_keys_loop_step [OF Suc.prems] by blast
  have w1: "key_of_draw env (drawn w) kf" "w1 = w\<lparr>drawn := drawn w + 1\<rparr>" using newKey_draw [OF k] by auto
  have "kdirs w1 = kdirs w" "kdirs w2 = kdirs w"
    using w1(2) d by (auto elim!: dumpJson_outcome)
  then have cc: "can_create w1 p = can_create w p" "can_create w2 p = can_create w p" for p
    using can_create_dirs by blast+
  have d2: "map_of (kfiles w2) (place_of (?f i)) = Some (KeyJson kf)" "drawn w2 = drawn w + 1"
    using d w1(2) by (auto elim!: dumpJson_outcome)
  have d3: "can_create w (?f i)"
    using d cc by (auto elim!: dumpJson_outcome)
  obtain kfs where s: "length kfs = n"
      "pks' = (pks @ [publicKeyFromBase58 env (PublicKey kf)]) @ map (\<lambda>kf. publicKeyFromBase58 env (PublicKey kf)) kfs"
      "\<forall>j<n. map_of (kfiles v) (place_of (?f (i + 1 + j))) = Some (KeyJson (kfs ! j)) \<and>
        can_create w2 (?f (i + 1 + j)) \<and> key_of_draw env (drawn w2 + j) (kfs ! j)"
    using Suc.IH [of "i + 1" "pks @ [publicKeyFromBase58 env (PublicKey kf)]" w2] r by auto
  have f0: "map_of (kfiles v) (place_of (?f i)) = Some (KeyJson kf)"
    using files_keptD [OF cmd_keepsD [OF files.keeps_loop r] d2(1)] .
  show ?case
  proof (intro exI [of _ "kf # kfs"] conjI allI impI)
    fix j assume j: "j < Suc n"
    show "map_of (kfiles v) (place_of (?f (i + j))) = Some (KeyJson ((kf # kfs) ! j))"
      using f0 s(3) j by (cases j) auto
    show "can_create w (?f (i + j))"
      using d3 s(3) j cc by (cases j) auto
    show "key_of_draw env (drawn w + j) ((kf # kfs) ! j)"
      using w1(1) s(3) j d2(2) by (cases j) auto
  qed (use s in auto)
qed

lemma fill_config_key [simp]: "kc_SignerKey (fill_config c) = kc_SignerKey c"
  by (simp add: fill_config_def Let_def)

lemma check_result_world:
  "check_result env what r w = (x, v) \<Longrightarrow> files_kept w v \<and> calls v = calls w \<and> viper v = viper w"
  using cmd_keepsD [OF files.keeps_check] cmd_keepsD [OF unsent.keeps_check] nothing_sent_def by metis

lemma loadConfig_cases: "loadConfig w = (r, v) \<Longrightarrow>
    v = w \<and> (r = Inl (RunPanic PanicCall) \<or> (\<exists>c. viper w = Inr c \<and> r = Inr (fill_config c)))"
  by (auto simp: loadConfig_def split: sum.splits)

text \<open>
  A run that reached the chain: the configuration, and the state \<open>u\<close> between the key files and
  the batch.
\<close>

lemma AddKeysCmd_sent:
  assumes run: "AddKeysCmd env fl configFile n w = (r, v)" and sent: "calls v \<noteq> calls w"
  shows "\<exists>w1 w2 c acc pks u. bindConfiguration env configFile w = (Inr (), w1) \<and> viper w1 = Inr c \<and> n \<noteq> 0 \<and>
    load_account env (fill_config c) w1 = (Inr acc, w2) \<and>
    add_keys_loop (unat n) env fl (fill_config c) 0 [] w2 = (Inr pks, u) \<and>
    calls v = calls w @ [CallAddKeys pks] \<and> files_kept u v \<and> viper v = Inr c \<and>
    kfiles w2 = kfiles w \<and> kdirs w2 = kdirs w \<and> drawn w2 = drawn w"
proof -
  obtain x w1 where b: "bindConfiguration env configFile w = (x, w1)" by fastforce
  have w1: "kfiles w1 = kfiles w" "kdirs w1 = kdirs w" "drawn w1 = drawn w" "calls w1 = calls w"
    using b by (auto simp: bindConfiguration_def split: config_read.splits)
  note same = cmd_keepsD [OF unsent.keeps_load, unfolded nothing_sent_def] cmd_keepsD [OF unsent.keeps_fail, unfolded nothing_sent_def]
    cmd_keepsD [OF unsent.keeps_account, unfolded nothing_sent_def] cmd_keepsD [OF unsent.keeps_loop, unfolded nothing_sent_def]
  from run have x: "x = Inr ()"
    using sent w1 b by (auto simp: AddKeysCmd_def elim!: then_cmdE)
  let ?rest = "\<lambda>config. if n = 0 then fail_with ''number-of-keys is not set, please provide it using -n flag''
      else then_cmd (load_account env config) (\<lambda>acc.
         then_cmd (add_keys_loop (unat n) env fl config 0 []) (\<lambda>pubKeys.
         then_cmd (send_add env acc pubKeys) (\<lambda>_. print (dec (length pubKeys) @ '' keys where added''))))"
  have "then_cmd loadConfig ?rest w1 = (r, v)"
    using run b x by (simp add: AddKeysCmd_def then_cmd_def)
  then obtain c where c: "viper w1 = Inr c" "?rest (fill_config c) w1 = (r, v)"
    using sent w1 by (cases rule: then_cmdE) (auto dest!: loadConfig_cases)
  have n: "n \<noteq> 0" using c(2) sent w1 by (auto dest!: same(2))
  obtain acc w2 where a: "load_account env (fill_config c) w1 = (Inr acc, w2)"
    and r2: "then_cmd (add_keys_loop (unat n) env fl (fill_config c) 0 []) (\<lambda>pubKeys.
         then_cmd (send_add env acc pubKeys) (\<lambda>_. print (dec (length pubKeys) @ '' keys where added''))) w2 = (r, v)"
  proof -
    have "then_cmd (load_account env (fill_config c)) (\<lambda>acc.
         then_cmd (add_keys_loop (unat n) env fl (fill_config c) 0 []) (\<lambda>pubKeys.
         then_cmd (send_add env acc pubKeys) (\<lambda>_. print (dec (length pubKeys) @ '' keys where added'')))) w1 = (r, v)"
      using c(2) n by simp
    then show ?thesis
    proof (cases rule: then_cmdE)
      case (1 e)
      then show ?thesis using same(3) [OF 1(1)] sent w1 by simp
    qed (rule that)
  qed
  have w2: "w2 = w1" using a by (auto simp: load_account_def ret_def fail_with_def then_cmd_def print_def stop_def split: sum.splits)
  obtain pks u where l: "add_keys_loop (unat n) env fl (fill_config c) 0 [] w2 = (Inr pks, u)"
    and r3: "then_cmd (send_add env acc pks) (\<lambda>_. print (dec (length pks) @ '' keys where added'')) u = (r, v)"
    using r2
  proof (cases rule: then_cmdE)
    case (1 e)
    then show ?thesis using same(4) [OF 1(1)] sent w1 w2 by simp
  qed (rule that)
  have u: "calls u = calls w" "viper u = Inr c" using same(4) [OF l] w1 w2 c(1) by simp_all
  have "calls v = calls w @ [CallAddKeys pks] \<and> files_kept u v \<and> viper v = Inr c"
    using r3 u
    by (cases rule: then_cmdE)
       (auto simp: send_add_def print_def dest!: check_result_world, auto simp: files_kept_def)
  then show ?thesis using b x c(1) n a l w1 w2 by blast
qed

lemma AddKeysCmd_success:
  assumes "AddKeysCmd env fl configFile n w = (Inr (), v)"
  shows "calls v \<noteq> calls w"
proof -
  obtain w1 where b: "bindConfiguration env configFile w = (Inr (), w1)" "calls w1 = calls w"
    using assms by (auto simp: AddKeysCmd_def bindConfiguration_def then_cmd_def split: config_read.splits)
  then obtain c where c: "viper w1 = Inr c" "n \<noteq> 0"
      "then_cmd (load_account env (fill_config c)) (\<lambda>acc.
         then_cmd (add_keys_loop (unat n) env fl (fill_config c) 0 []) (\<lambda>pubKeys.
         then_cmd (send_add env acc pubKeys) (\<lambda>_. print (dec (length pubKeys) @ '' keys where added'')))) w1 = (Inr (), v)"
    using assms by (auto simp: AddKeysCmd_def then_cmd_def loadConfig_def fail_with_def print_def stop_def
        split: sum.splits if_splits)
  then obtain acc w2 pks u where s: "load_account env (fill_config c) w1 = (Inr acc, w2)"
      "add_keys_loop (unat n) env fl (fill_config c) 0 [] w2 = (Inr pks, u)"
      "then_cmd (send_add env acc pks) (\<lambda>_. print (dec (length pks) @ '' keys where added'')) u = (Inr (), v)"
    by (fastforce elim: then_cmdE)
  have u: "calls u = calls w"
    using cmd_keepsD [OF unsent.keeps_account s(1)] cmd_keepsD [OF unsent.keeps_loop s(2)] b(2)
    by (simp add: nothing_sent_def)
  show ?thesis
    using s(3) u by (cases rule: then_cmdE) (auto simp: send_add_def print_def dest!: check_result_world)
qed

text \<open>
  C17. Keys that were sent are keys delete-keys will find: after any run of add-keys that reached the
  chain, the batch accepted or not, and for a signer key path without glob characters, the pattern
  of the shipped configuration finds a file of every key of the batch, and the public key in the
  file reads back as the one that was generated and sent.
\<close>

theorem added_keys_are_found:
  assumes codec: "\<And>bs. b58_Decode env (b58_Encode env bs) = bs"
    and len: "\<forall>n pub priv. GenerateKey env n = Inr (pub, priv) \<longrightarrow> length pub = 32"
    and run: "AddKeysCmd env fl configFile n w = (r, v)" "calls v \<noteq> calls w"
    and config: "viper v = Inr config" "plain_name (snd (Split (kc_SignerKey config)))"
      "\<not> hasMeta (kc_SignerKey config)"
  shows "\<exists>pks. calls v = calls w @ [CallAddKeys pks] \<and> length pks = unat n \<and>
    (\<forall>i < unat n. \<exists>p \<in> set (getFunctionCallKeyPairFilePaths v (kc_SignerKey config) ''fk*.'').
       \<exists>kf pub priv. map_of (kfiles v) (place_of p) = Some (KeyJson kf) \<and>
         GenerateKey env (drawn w + i) = Inr (pub, priv) \<and>
         publicKeyFromBase58 env (PublicKey kf) = ED25519Key pub \<and> pks ! i = ED25519Key pub)"
proof -
  obtain w2 acc pks u where l: "add_keys_loop (unat n) env fl (fill_config config) 0 [] w2 = (Inr pks, u)"
    and v: "calls v = calls w @ [CallAddKeys pks]" "files_kept u v"
    and w2: "kdirs w2 = kdirs w" "drawn w2 = drawn w"
    using AddKeysCmd_sent [OF run] config(1) by auto
  let ?f = "key_file_name (kc_SignerKey config)"
  obtain kfs where k: "length kfs = unat n" "pks = map (\<lambda>kf. publicKeyFromBase58 env (PublicKey kf)) kfs"
    and f: "\<forall>j<unat n. map_of (kfiles u) (place_of (?f j)) = Some (KeyJson (kfs ! j)) \<and>
      can_create w2 (?f j) \<and> key_of_draw env (drawn w + j) (kfs ! j)"
    using add_keys_loop_written [OF l] w2 by auto
  have d: "kdirs v = kdirs w2"
    using v(2) cmd_keepsD [OF files.keeps_loop l] by (simp add: files_kept_def)
  have "\<exists>p \<in> set (getFunctionCallKeyPairFilePaths v (kc_SignerKey config) ''fk*.'').
       \<exists>kf pub priv. map_of (kfiles v) (place_of p) = Some (KeyJson kf) \<and>
         GenerateKey env (drawn w + i) = Inr (pub, priv) \<and>
         publicKeyFromBase58 env (PublicKey kf) = ED25519Key pub \<and> pks ! i = ED25519Key pub"
    if i: "i < unat n" for i
  proof -
    have stored: "map_of (kfiles v) (place_of (?f i)) = Some (KeyJson (kfs ! i))"
      using f i files_keptD [OF v(2)] by blast
    have "place_of (fst (Split (kc_SignerKey config))) \<in> set (kdirs v)"
      using f i d key_file_place [OF config(2), of i] by (auto simp: can_create_def)
    then obtain p where p: "p \<in> set (getFunctionCallKeyPairFilePaths v (kc_SignerKey config) ''fk*.'')"
        "place_of p = place_of (?f i)"
      using key_file_found [OF config(2,3) stored] by blast
    obtain pub priv where g: "GenerateKey env (drawn w + i) = Inr (pub, priv)"
        "PublicKey (kfs ! i) = keyPrefix @ b58_Encode env pub"
      using f i by (auto simp: key_of_draw_def)
    have "publicKeyFromBase58 env (PublicKey (kfs ! i)) = ED25519Key pub"
      using g(2) len [rule_format, OF g(1)] by (simp add: publicKeyFromBase58_def codec)
    then show ?thesis using p stored g(1) k i by (intro bexI [OF _ p(1)]) auto
  qed
  then show ?thesis using v(1) k by auto
qed

text \<open>
  C39. Keys are added once: after a run of add-keys that reached the chain, a failed batch included, a
  second run with the same configuration sends no batch and changes no file; it does not report
  success either.
\<close>

theorem add_keys_runs_once:
  assumes first: "AddKeysCmd env fl configFile n w = (r, v)" "calls v \<noteq> calls w"
    and second: "AddKeysCmd env fl' configFile n' v = (r', u)"
  shows "calls u = calls v \<and> kdirs u = kdirs v \<and> r' \<noteq> Inr () \<and>
    (\<forall>k c. map_of (kfiles v) k = Some c \<longrightarrow> map_of (kfiles u) k = Some c)"
proof -
  obtain w1 w2 c acc pks s where b: "bindConfiguration env configFile w = (Inr (), w1)" "viper w1 = Inr c"
    and n: "n \<noteq> 0" and l: "add_keys_loop (unat n) env fl (fill_config c) 0 [] w2 = (Inr pks, s)"
    and v: "files_kept s v" "viper v = Inr c"
    using AddKeysCmd_sent [OF first] by blast
  have n0: "0 < unat n" using n by (simp add: unat_gt_0)
  then have stored: "map_of (kfiles v) (place_of (key_file_name (kc_SignerKey c) 0)) \<noteq> None"
    using add_keys_loop_written [OF l] files_keptD [OF v(1)] by fastforce
  have kept: "files_kept v u"
    using cmd_keepsD [OF keeps_AddKeys second] .
  have "calls u = calls v"
  proof (rule ccontr)
    assume ne: "calls u \<noteq> calls v"
    then obtain v1 v2 c' pks' s' where b': "bindConfiguration env configFile v = (Inr (), v1)" "viper v1 = Inr c'"
      and n': "n' \<noteq> 0" and l': "add_keys_loop (unat n') env fl' (fill_config c') 0 [] v2 = (Inr pks', s')"
      and v2: "kfiles v2 = kfiles v" "kdirs v2 = kdirs v"
      using AddKeysCmd_sent [OF second] by blast
    have c': "c' = c"
      using b b' v(2) by (auto simp: bindConfiguration_def split: config_read.splits)
    obtain m where m: "unat n' = Suc m" using n' by (metis not0_implies_Suc unat_eq_zero)
    obtain kf x y where k: "newKey env (kc_Signer (fill_config c)) v2 = (Inr kf, x)"
      and d: "dumpJson fl' (key_file_name (kc_SignerKey c) 0) kf x = (Inr None, y)"
      using add_keys_loop_step [of m env fl' "fill_config c" 0 "[]" v2] l' c' m by auto
    have "\<not> exists_at x (key_file_name (kc_SignerKey c) 0)"
      using d by (auto elim!: dumpJson_outcome)
    then show False
      using newKey_draw [OF k] v2 stored by (auto simp: exists_at_def)
  qed
  moreover have "r' \<noteq> Inr ()"
  proof
    assume "r' = Inr ()"
    then have "calls u \<noteq> calls v"
      using second AddKeysCmd_success by blast
    then show False using calculation by simp
  qed
  ultimately show ?thesis using kept by (simp add: files_kept_def)
qed

section \<open>generate-key and delete-keys\<close>

text \<open>
  generate-key does not look at what \<open>dumpJson\<close> returns: with an output path it reports the key as
  generated and succeeds, whatever happens to the file; if the path is taken, the pair it drew is
  lost and nothing is written.
\<close>

theorem generate_key_always_succeeds:
  assumes "GenerateKey env (drawn w) = Inr (pub, priv)" "outputPath \<noteq> []"
  shows "\<exists>v. GenerateKeysCmd env fl configFile accountID outputPath w = (Inr (), v) \<and>
    last (printed v) = ''key generated: ['' @ outputPath @ '']'' \<and> drawn v = drawn w + 1 \<and>
    (exists_at w outputPath \<longrightarrow> kfiles v = kfiles w)"
proof -
  obtain kf w1 where k: "newKey env accountID w = (Inr kf, w1)"
    using assms(1) by (simp add: newKey_def)
  then have w1: "w1 = w\<lparr>drawn := drawn w + 1\<rparr>" using newKey_draw by blast
  obtain r w2 where d: "dumpJson fl outputPath kf w1 = (r, w2)" by fastforce
  have ex: "exists_at w1 p = exists_at w p" for p by (simp add: exists_at_def w1)
  have d2: "\<exists>e. r = Inr e" "drawn w2 = drawn w + 1" "exists_at w outputPath \<Longrightarrow> kfiles w2 = kfiles w"
    using d w1 ex by (auto elim!: dumpJson_outcome)
  then obtain e where "r = Inr e" by blast
  then have "GenerateKeysCmd env fl configFile accountID outputPath w =
      (Inr (), w2\<lparr>printed := printed w2 @ [''key generated: ['' @ outputPath @ '']'']\<rparr>)"
    using assms(2) k d by (simp add: GenerateKeysCmd_def then_cmd_def ret_def print_def)
  then show ?thesis using d2 by simp
qed

lemma load_keys_spec:
  "load_keys ps env signer pks w = (Inr pks', v) \<Longrightarrow> v = w \<and>
   (\<forall>p \<in> set ps. \<exists>pub. LoadKeyPairFromPath env p (map_of (kfiles w) (place_of p)) signer = Inr pub \<and>
      publicKeyFromBase58 env pub \<in> set pks') \<and> set pks \<subseteq> set pks'"
proof (induction ps arbitrary: pks)
  case Nil
  then show ?case by (simp add: ret_def)
next
  case (Cons p ps)
  then show ?case
    by (fastforce simp: fail_with_def then_cmd_def print_def stop_def split: sum.splits)
qed

lemma load_keys_world: "load_keys ps env signer pks w = (r, v) \<Longrightarrow> files_kept w v"
proof (induction ps arbitrary: pks)
  case (Cons p ps)
  then show ?case
    using cmd_keepsD [OF files.keeps_fail] by (auto split: sum.splits)
qed (simp add: ret_def)

lemma remove_keys_spec:
  "remove_keys ps fl w = (r, v) \<Longrightarrow> calls v = calls w \<and>
   (\<forall>k. k \<notin> place_of ` set ps \<longrightarrow> map_of (kfiles v) k = map_of (kfiles w) k)"
proof (induction ps arbitrary: w)
  case Nil
  then show ?case by (simp add: ret_def)
next
  case (Cons p ps)
  have "\<exists>e u. os_Remove_key fl p w = (Inr e, u)" by (simp add: os_Remove_key_def)
  then obtain e u where o: "os_Remove_key fl p w = (Inr e, u)" by blast
  have u: "calls u = calls w" "\<forall>k. k \<noteq> place_of p \<longrightarrow> map_of (kfiles u) k = map_of (kfiles w) k"
    using o by (auto simp: os_Remove_key_def delete_conv' split: if_splits)
  show ?case
    using Cons u o
    by (cases e) (auto simp: then_cmd_def fail_with_def print_def stop_def)
qed

lemma paths_same_files:
  assumes "kfiles v = kfiles w" "kdirs v = kdirs w"
  shows "getFunctionCallKeyPairFilePaths v = getFunctionCallKeyPairFilePaths w"
proof -
  have same: "exists_at v = exists_at w" "Readdirnames v = Readdirnames w"
    using assms by (simp_all add: fun_eq_iff exists_at_def Readdirnames_def)
  show ?thesis unfolding fun_eq_iff getFunctionCallKeyPairFilePaths_def same by blast
qed

lemma check_result_accepted:
  "check_result env what r w = (Inr x, v) \<Longrightarrow> v = w \<and>
   (\<exists>m st. r = Inr m \<and> as_map (field m ''status'') = Ret st \<and> field st ''Failure'' = GNil)"
  by (auto simp: check_result_def fail_with_def then_cmd_def print_def stop_def ret_def Let_def
      split: sum.splits outcome.splits if_splits) (metis as_map.simps outcome.distinct goval.exhaust)

text \<open>A run of delete-keys that lost or changed a file got as far as sending the batch.\<close>

lemma DeleteKeysCmd_sends:
  assumes run: "DeleteKeysCmd env fl configFile w = (r, v)" and lost: "\<not> files_kept w v"
  shows "\<exists>w1 (config :: KeysConfig) paths acc pks. kfiles w1 = kfiles w \<and> kdirs w1 = kdirs w \<and> calls w1 = calls w \<and>
    paths = getFunctionCallKeyPairFilePaths w (kc_SignerKey config) (kc_FunctionKeyPrefixPattern config) \<and>
    load_keys paths env (kc_Signer config) [] w1 = (Inr pks, w1) \<and>
    then_cmd (send_delete env acc pks) (\<lambda>_. then_cmd (remove_keys paths fl) (\<lambda>_.
     then_cmd (print (dec (length paths) @ '' keys where deleted'')) (\<lambda>_. stop (Exited 0)))) w1 = (r, v)"
proof -
  obtain x w1 where b: "bindConfiguration env configFile w = (x, w1)" by fastforce
  have w1: "kfiles w1 = kfiles w" "kdirs w1 = kdirs w" "calls w1 = calls w"
    using b by (auto simp: bindConfiguration_def split: config_read.splits)
  have k1: "files_kept w u \<longleftrightarrow> files_kept w1 u" for u using w1 by (simp add: files_kept_def)
  let ?rm = "\<lambda>paths. then_cmd (remove_keys paths fl) (\<lambda>_.
     then_cmd (print (dec (length paths) @ '' keys where deleted'')) (\<lambda>_. stop (Exited 0)))"
  let ?send = "\<lambda>env acc paths pubKeys. then_cmd (send_delete env acc pubKeys) (\<lambda>_. ?rm paths)"
  let ?load = "\<lambda>config acc paths. then_cmd (load_keys paths env (kc_Signer config) []) (?send env acc paths)"
  let ?acc = "\<lambda>config paths. then_cmd (load_account env config) (\<lambda>acc. ?load config acc paths)"
  have "then_cmd loadConfig (\<lambda>config. then_cmd (delete_paths config) (?acc config)) w1 = (r, v)"
    using run b lost k1 by (cases x) (auto simp: DeleteKeysCmd_def then_cmd_def)
  then obtain config paths where paths: "paths = getFunctionCallKeyPairFilePaths w (kc_SignerKey config)
        (kc_FunctionKeyPrefixPattern config)"
    and a: "?acc config paths w1 = (r, v)"
  proof (cases rule: then_cmdE)
    case (1 e)
    then show ?thesis using lost k1 loadConfig_cases by fastforce
  next
    case (2 config u)
    then have "u = w1" using loadConfig_cases by blast
    then show ?thesis
      using that 2(2) paths_same_files [OF w1(1,2)]
      by (simp add: then_cmd_def [of "delete_paths config"] delete_paths_def)
  qed
  obtain acc where l: "?load config acc paths w1 = (r, v)"
    using a
  proof (cases rule: then_cmdE)
    case (1 e)
    then show ?thesis using lost k1 cmd_keepsD [OF files.keeps_account 1(1)] by simp
  next
    case (2 acc u)
    then have "u = w1"
      by (auto simp: load_account_def ret_def fail_with_def then_cmd_def print_def stop_def split: sum.splits)
    then show ?thesis using that 2 by blast
  qed
  obtain pks where keys: "load_keys paths env (kc_Signer config) [] w1 = (Inr pks, w1)"
    and s: "?send env acc paths pks w1 = (r, v)"
    using l
  proof (cases rule: then_cmdE)
    case (1 e)
    then show ?thesis using lost k1 load_keys_world [OF 1(1)] by simp
  next
    case (2 pks u)
    then show ?thesis using that load_keys_spec [OF 2(1)] by blast
  qed
  show ?thesis
    by (intro exI [of _ w1] exI [of _ config] exI [of _ paths] exI [of _ acc] exI [of _ pks]
        conjI w1 paths keys s)
qed

text \<open>
  C18. A key file goes only after its key: when a run of delete-keys removed a file, that file was
  found by the configured pattern, its key is one of the batch the run sent, and the chain accepted
  the batch.
\<close>

theorem files_removed_after_their_keys:
  assumes run: "DeleteKeysCmd env fl configFile w = (r, v)"
    and gone: "map_of (kfiles w) k = Some c" "map_of (kfiles v) k \<noteq> Some c"
  shows "\<exists>pks acc m st (config :: KeysConfig) p pub. calls v = calls w @ [CallDeleteKeys pks] \<and>
    near_DeleteKeys env (length (calls w)) acc pks = Inr m \<and>
    as_map (field m ''status'') = Ret st \<and> field st ''Failure'' = GNil \<and>
    p \<in> set (getFunctionCallKeyPairFilePaths w (kc_SignerKey config) (kc_FunctionKeyPrefixPattern config)) \<and>
    place_of p = k \<and> LoadKeyPairFromPath env p (Some c) (kc_Signer config) = Inr pub \<and>
    publicKeyFromBase58 env pub \<in> set pks"
proof -
  have lost: "\<not> files_kept w v" using gone files_keptD by blast
  obtain w1 and config :: KeysConfig and paths acc pks where w1: "kfiles w1 = kfiles w" "kdirs w1 = kdirs w" "calls w1 = calls w"
    and paths: "paths = getFunctionCallKeyPairFilePaths w (kc_SignerKey config) (kc_FunctionKeyPrefixPattern config)"
    and keys: "load_keys paths env (kc_Signer config) [] w1 = (Inr pks, w1)"
    and s: "then_cmd (send_delete env acc pks) (\<lambda>_. then_cmd (remove_keys paths fl) (\<lambda>_.
     then_cmd (print (dec (length paths) @ '' keys where deleted'')) (\<lambda>_. stop (Exited 0)))) w1 = (r, v)"
    using DeleteKeysCmd_sends [OF run lost] by blast
  let ?w2 = "w1\<lparr>calls := calls w1 @ [CallDeleteKeys pks]\<rparr>"
  have k2: "files_kept w u \<longleftrightarrow> files_kept ?w2 u" for u using w1 by (simp add: files_kept_def)
  obtain rm: "then_cmd (remove_keys paths fl) (\<lambda>_.
     then_cmd (print (dec (length paths) @ '' keys where deleted'')) (\<lambda>_. stop (Exited 0))) ?w2 = (r, v)"
    and ok: "\<exists>m st. near_DeleteKeys env (length (calls w)) acc pks = Inr m \<and>
      as_map (field m ''status'') = Ret st \<and> field st ''Failure'' = GNil"
    using s
  proof (cases rule: then_cmdE)
    case (1 e)
    then show ?thesis using lost k2 check_result_world by (simp add: send_delete_def) blast
  next
    case (2 y u)
    then show ?thesis using that check_result_accepted w1(3) by (simp add: send_delete_def) blast
  qed
  have v: "calls v = calls ?w2"
    and same: "k \<notin> place_of ` set paths \<Longrightarrow> map_of (kfiles v) k = map_of (kfiles ?w2) k"
    using rm
    by (cases rule: then_cmdE; cases k; auto dest!: remove_keys_spec simp: then_cmd_def print_def stop_def)+
  then have "k \<in> place_of ` set paths" using gone w1(1) same by force
  then obtain p where p: "p \<in> set paths" "place_of p = k" by blast
  then obtain pub where "LoadKeyPairFromPath env p (Some c) (kc_Signer config) = Inr pub"
      "publicKeyFromBase58 env pub \<in> set pks"
    using load_keys_spec [OF keys] gone(1) w1(1) by fastforce
  moreover obtain m st where "near_DeleteKeys env (length (calls w)) acc pks = Inr m"
      "as_map (field m ''status'') = Ret st" "field st ''Failure'' = GNil"
    using ok by blast
  moreover have "calls v = calls w @ [CallDeleteKeys pks]" using v w1(3) by simp
  ultimately show ?thesis using p unfolding paths by blast
qed

section \<open>A concrete signer\<close>

lemma bytes_string_bytes: "bytes_of_string (string_of_bytes bs) = bs"
proof -
  have "of_char (char_of (unat b) :: char) = (b :: u8)" for b
  proof -
    have "unat b < 256" using unsigned_less [of b] by simp
    then have "(of_char (char_of (unat b) :: char) :: nat) = unat b" by (simp add: of_char_of)
    then have "of_nat (of_char (char_of (unat b) :: char)) = b" by simp
    then show ?thesis by (metis of_nat_of_char)
  qed
  then show ?thesis by (simp add: bytes_of_string_def string_of_bytes_def comp_def)
qed

definition demo_keys_config :: KeysConfig where
  "demo_keys_config =
     \<lparr>kc_Signer = ''relayer.near'', kc_SignerKey = ''config/relayer.json'',
      kc_FunctionKeyPrefixPattern = ''fk*.'', kc_NearNetworkID = ''testnet'', kc_NearNodeURL = [],
      kc_NearArchivalNodeURL = ''https://archival'',
      kc_NearConfig = \<lparr>cfg_NetworkID = [], cfg_NodeURL = [], cfg_FunctionKeyPrefixPattern = [], cfg_KeyPath = []\<rparr>\<rparr>"

definition demo_keys_env :: "unit keys_env" where
  "demo_keys_env =
     \<lparr>LoadAccount = (\<lambda>_ _ _. Inr ()), GetVerifiedAccessKeys = (\<lambda>_. []),
      ReadInConfig = (\<lambda>_. ConfigRead (Inr demo_keys_config)),
      GenerateKey = (\<lambda>n. Inr (replicate 32 (of_nat n), replicate 64 7)),
      b58_Encode = string_of_bytes, b58_Decode = bytes_of_string,
      LoadKeyPairFromPath = (\<lambda>p c a. case c of
          Some (KeyJson kf) \<Rightarrow> Inr (PublicKey kf) | _ \<Rightarrow> Inl ''no key''),
      near_AddKeys = (\<lambda>n acc pks. Inl ''timeout''),
      near_DeleteKeys = (\<lambda>n acc pks. Inr [(''status'', GMap [(''SuccessValue'', GStr [])])]),
      show_goval = (\<lambda>_. [])\<rparr>"

definition no_faults :: fs_faults where
  "no_faults = \<lparr>stat_fault = (\<lambda>_. None), create_fault = (\<lambda>_. None), write_fault = (\<lambda>_. None),
     remove_fault = (\<lambda>_. None)\<rparr>"

definition demo_kworld :: kworld where
  "demo_kworld = \<lparr>kfiles = [], kdirs = [(False, []), (False, [''config''])],
     viper = Inl ''unset'', drawn = 5, printed = [], calls = []\<rparr>"


definition demo_added :: "(cmd_end + unit) \<times> kworld" where
  "demo_added = AddKeysCmd demo_keys_env no_faults [] 2 demo_kworld"

lemma demo_names: "key_file_name ''config/relayer.json'' 0 = ''config/fk0.relayer.json''"
  "key_file_name ''config/relayer.json'' 1 = ''config/fk1.relayer.json''"
  by code_simp+

lemma demo_places: "place_of ''config/fk0.relayer.json'' = (False, [''fk0.relayer.json'', ''config''])"
  "place_of ''config/fk1.relayer.json'' = (False, [''fk1.relayer.json'', ''config''])"
  by code_simp+

lemma demo_added_run:
  "calls (snd demo_added) \<noteq> [] \<and> viper (snd demo_added) = Inr demo_keys_config"
proof -
  let ?k = "\<lambda>n. \<lparr>AccountID = ''relayer.near'', PublicKey = keyPrefix @ string_of_bytes (replicate 32 (of_nat n)),
     SecretKey = keyPrefix @ string_of_bytes (replicate 64 7)\<rparr>"
  have n: "newKey demo_keys_env ''relayer.near'' w = (Inr (?k (drawn w)), w\<lparr>drawn := drawn w + 1\<rparr>)" for w
    by (simp add: newKey_def demo_keys_env_def)
  have d: "dumpJson no_faults p kf w = (Inr None, w\<lparr>kfiles := AList.update (place_of p) (KeyJson kf)
      (AList.update (place_of p) (OtherContent []) (kfiles w))\<rparr>)"
    if "can_create w p" "map_of (kfiles w) (place_of p) = None" for w p kf
    using that
    by (simp add: dumpJson_def then_cmd_def os_Create_def encode_key_def no_faults_def stat_not_exist_def
        exists_at_def can_create_def)
  have env: "ReadInConfig demo_keys_env f = ConfigRead (Inr demo_keys_config)"
      "LoadAccount demo_keys_env url cfg signer = Inr ()"
      "near_AddKeys demo_keys_env k acc pks = Inl ''timeout''" for f url cfg signer k acc pks
    by (simp_all add: demo_keys_env_def)
  have c: "kc_Signer (fill_config demo_keys_config) = ''relayer.near''"
    "kc_SignerKey demo_keys_config = ''config/relayer.json''"
    by (simp_all add: fill_config_def demo_keys_config_def Let_def)
  have u: "unat (2 :: u64) = Suc (Suc 0)" by simp
  have names: "key_file_name ''config/relayer.json'' (Suc 0) = ''config/fk1.relayer.json''"
    using demo_names(2) by simp
  show ?thesis
    unfolding demo_added_def AddKeysCmd_def u
    by (simp add: then_cmd_def bindConfiguration_def loadConfig_def load_account_def ret_def env c n d
        demo_names names demo_places can_create_def demo_kworld_def update_conv' send_add_def
        check_result_def fail_with_def print_def stop_def)
qed

theorem key_files_never_overwritten_witness:
  "map_of (kfiles (snd (GenerateKeysCmd demo_keys_env no_faults [] [] ''config/relayer.json''
     (demo_kworld\<lparr>kfiles := [((False, [''relayer.json'', ''config'']), OtherContent ''old'')]\<rparr>))))
     (False, [''relayer.json'', ''config'']) = Some (OtherContent ''old'')"
  using key_files_never_overwritten [of "demo_kworld\<lparr>kfiles := [((False, [''relayer.json'', ''config'']), OtherContent ''old'')]\<rparr>"
      "(False, [''relayer.json'', ''config''])" "OtherContent ''old''" demo_keys_env no_faults "[]" "[]"
      "''config/relayer.json''" 1]
  by simp

lemma demo_codec:
  "b58_Decode demo_keys_env (b58_Encode demo_keys_env bs) = bs"
  "GenerateKey demo_keys_env n = Inr (pub, priv) \<Longrightarrow> length pub = 32"
  by (auto simp: demo_keys_env_def bytes_string_bytes)

lemma demo_run:
  "AddKeysCmd demo_keys_env no_faults [] 2 demo_kworld = (fst demo_added, snd demo_added)"
  "calls (snd demo_added) \<noteq> calls demo_kworld"
  using demo_added_run by (simp_all add: demo_added_def demo_kworld_def)

theorem added_keys_are_found_witness:
  "\<exists>pks. calls (snd demo_added) = [CallAddKeys pks] \<and> length pks = 2 \<and>
    (\<exists>p \<in> set (getFunctionCallKeyPairFilePaths (snd demo_added) ''config/relayer.json'' ''fk*.'').
       \<exists>kf. map_of (kfiles (snd demo_added)) (place_of p) = Some (KeyJson kf) \<and>
         publicKeyFromBase58 demo_keys_env (PublicKey kf) = pks ! 1)"
proof -
  have s: "Split ''config/relayer.json'' = (''config/'', ''relayer.json'')" by code_simp
  have k: "kc_SignerKey demo_keys_config = ''config/relayer.json''" by (simp add: demo_keys_config_def)
  have n: "plain_name (snd (Split (kc_SignerKey demo_keys_config)))"
    by (simp add: k s plain_name_def)
  have m: "\<not> hasMeta (kc_SignerKey demo_keys_config)"
    by (simp add: k meta_char_def backslash_def)
  have v: "viper (snd demo_added) = Inr demo_keys_config" using demo_added_run by blast
  have two: "unat (2 :: u64) = 2" by simp
  have len: "\<forall>n pub priv. GenerateKey demo_keys_env n = Inr (pub, priv) \<longrightarrow> length pub = 32"
    using demo_codec(2) by blast
  note found = added_keys_are_found [of demo_keys_env, OF demo_codec(1) len demo_run v n m, unfolded two k]
  obtain pks
    where p: "calls (snd demo_added) = calls demo_kworld @ [CallAddKeys pks]" "length pks = 2"
    and f: "\<forall>i < 2. \<exists>p \<in> set (getFunctionCallKeyPairFilePaths (snd demo_added) ''config/relayer.json'' ''fk*.'').
       \<exists>kf pub priv. map_of (kfiles (snd demo_added)) (place_of p) = Some (KeyJson kf) \<and>
         GenerateKey demo_keys_env (drawn demo_kworld + i) = Inr (pub, priv) \<and>
         publicKeyFromBase58 demo_keys_env (PublicKey kf) = ED25519Key pub \<and> pks ! i = ED25519Key pub"
    using found by blast
  have "\<exists>p \<in> set (getFunctionCallKeyPairFilePaths (snd demo_added) ''config/relayer.json'' ''fk*.'').
       \<exists>kf. map_of (kfiles (snd demo_added)) (place_of p) = Some (KeyJson kf) \<and>
         publicKeyFromBase58 demo_keys_env (PublicKey kf) = pks ! 1"
    using f [rule_format, of 1] by force
  moreover have "calls demo_kworld = []" by (simp add: demo_kworld_def)
  ultimately show ?thesis using p by auto
qed

theorem add_keys_runs_once_witness:
  "calls (snd (AddKeysCmd demo_keys_env no_faults [] 3 (snd demo_added))) = calls (snd demo_added) \<and>
   fst (AddKeysCmd demo_keys_env no_faults [] 3 (snd demo_added)) \<noteq> Inr ()"
  using add_keys_runs_once [OF demo_run, of no_faults 3
      "fst (AddKeysCmd demo_keys_env no_faults [] 3 (snd demo_added))"
      "snd (AddKeysCmd demo_keys_env no_faults [] 3 (snd demo_added))"]
  by simp

definition demo_key_world :: kworld where
  "demo_key_world = demo_kworld\<lparr>kfiles :=
     [((False, [''fk0.relayer.json'', ''config'']),
       KeyJson \<lparr>AccountID = ''relayer.near'', PublicKey = ''ed25519:a'', SecretKey = ''s''\<rparr>)]\<rparr>"

theorem generate_key_always_succeeds_witness:
  "\<exists>v. GenerateKeysCmd demo_keys_env no_faults [] [] ''config/fk0.relayer.json'' demo_key_world = (Inr (), v) \<and>
    last (printed v) = ''key generated: [config/fk0.relayer.json]'' \<and> kfiles v = kfiles demo_key_world"
proof -
  have g: "GenerateKey demo_keys_env (drawn demo_key_world) = Inr (replicate 32 (of_nat 5), replicate 64 7)"
    by (simp add: demo_keys_env_def demo_key_world_def demo_kworld_def)
  have e: "exists_at demo_key_world ''config/fk0.relayer.json''"
    by (simp add: exists_at_def demo_places demo_key_world_def)
  show ?thesis
    using generate_key_always_succeeds [OF g, of "''config/fk0.relayer.json''" no_faults "[]" "[]"] e by auto
qed

lemma demo_deleted:
  "map_of (kfiles (snd (DeleteKeysCmd demo_keys_env no_faults [] demo_key_world)))
     (False, [''fk0.relayer.json'', ''config'']) = None"
  by code_simp

theorem files_removed_after_their_keys_witness:
  "\<exists>pks pub. calls (snd (DeleteKeysCmd demo_keys_env no_faults [] demo_key_world)) = [CallDeleteKeys pks] \<and>
     publicKeyFromBase58 demo_keys_env pub \<in> set pks"
proof -
  have "map_of (kfiles demo_key_world) (False, [''fk0.relayer.json'', ''config'']) =
      Some (KeyJson \<lparr>AccountID = ''relayer.near'', PublicKey = ''ed25519:a'', SecretKey = ''s''\<rparr>)"
    by (simp add: demo_key_world_def)
  from files_removed_after_their_keys [OF prod.collapse [symmetric] this, of demo_keys_env no_faults "[]"]
  show ?thesis using demo_deleted by (auto simp: demo_key_world_def demo_kworld_def)
qed

end
