(* ===== verification/Relayer.thy ===== *)
theory Relayer
  imports IndexerFaults EngineEth IPFilter ProxyWire
begin

text \<open>
  \<open>main.go\<close>: the start command, from the database to the wait for a signal, and the deferred
  calls that close what was made.  The constructors of the repository are the models of their
  theories; those of \<open>relayer2-base\<close>, and what its server answers to a registration, are fields
  of \<open>relayer_env\<close>.  An action on the server is recorded in the trace.  \<open>logger.Fatal\<close> exits the
  process at once, without the deferred calls; a panic runs them.  \<open>standaloneproxy.New\<close> and the
  constructors of endpoints cannot fail.
\<close>

section \<open>State\<close>

text \<open>What the command closes with a \<open>defer\<close>.\<close>

datatype component =
  StoreHandler | ProxyClient | Engine | RpcNode | TarIndexer | BlockIndexer | Prehistory

datatype boot_act =
    AddProcessor string
  | AddMiddleware string
  | Registered string string
  | RegisteredEvents string
  | Started component
  | Closed component

record boot =
  boot_trace :: "boot_act list"
  deferred :: "component list"

datatype boot_end = BootFatal string | BootPanic go_panic

text \<open>
  \<open>at_signal_indexer\<close>, \<open>at_signal_account\<close> and \<open>at_signal_client\<close> are the indexer, the account and
  the client of the refiner when the deferred calls run; the constructors of the optional indexers return a nil pointer (\<open>False\<close>) or not.
\<close>

record ('acc, 'b, 'db) relayer_env =
  new_BlockHandler :: "error option"
  new_FilterHandler :: "error option"
  new_node :: "error option"
  has_Broker :: bool
  engine_lib :: "'acc near_lib"
  engine_config :: EngineConfig
  read_filter :: "string \<Rightarrow> read_error option \<times> string \<times> string list"
  filter_path :: string
  register :: "string \<Rightarrow> string \<Rightarrow> error option"
  new_tar :: "error + bool"
  env_handler :: "('b, 'db) handler"
  env_db :: 'db
  idx_config :: Config
  new_prehistory :: "error + bool"
  at_signal_indexer :: "('b, 'db) isys"
  at_signal_account :: "'acc Account"
  at_signal_client :: rpcClient
  lib_Close :: "component \<Rightarrow> unit outcome"

section \<open>Starting\<close>

type_synonym boot_prog = "(boot, boot_end, unit) prog"

definition act :: "boot_act \<Rightarrow> boot_prog" where
  "act a b = (Inr (), b\<lparr>boot_trace := boot_trace b @ [a]\<rparr>)"

definition defer_close :: "component \<Rightarrow> boot_prog" where
  "defer_close c b = (Inr (), b\<lparr>deferred := c # deferred b\<rparr>)"

definition or_fatal :: "error option \<Rightarrow> string \<Rightarrow> boot_prog" where
  "or_fatal e msg = (if e = None then ret () else stop (BootFatal msg))"

definition start_and_defer :: "component \<Rightarrow> boot_prog" where
  "start_and_defer c = then_cmd (act (Started c)) (\<lambda>_. defer_close c)"

primrec run_all :: "boot_prog list \<Rightarrow> boot_prog" where
  "run_all [] = ret ()"
| "run_all (m # ms) = then_cmd m (\<lambda>_. run_all ms)"

definition make_engine :: "('acc, 'b, 'db) relayer_env \<Rightarrow> boot_prog" where
  "make_engine env =
     (case NewEngineEth (engine_lib env) (engine_config env) of
        Panic k \<Rightarrow> stop (BootPanic k)
      | _ \<Rightarrow> defer_close Engine)"

definition make_filter :: "('acc, 'b, 'db) relayer_env \<Rightarrow> boot_prog" where
  "make_filter env =
     (case FilterIP (read_filter env) (filter_path env) of
        None \<Rightarrow> stop (BootFatal ''failed to read config file filter.yml'')
      | Some f \<Rightarrow> act (AddMiddleware ''FilterIP''))"

definition RegisterEndpoints :: "('acc, 'b, 'db) relayer_env \<Rightarrow> string \<times> string \<times> string \<Rightarrow> boot_prog" where
  "RegisterEndpoints env r =
     (case r of (ns, ep, msg) \<Rightarrow>
        then_cmd (or_fatal (register env ns ep) msg) (\<lambda>_. act (Registered ns ep)))"

definition registrations :: "(string \<times> string \<times> string) list" where
  "registrations =
     [(''eth'', ''ethProcessor'', ''failed to register `eth` endpoints''),
      (''net'', ''netProcessor'', ''failed to register `net` endpoints''),
      (''web3'', ''web3Processor'', ''failed to register `web3` endpoints''),
      (''parity'', ''parityProcessor'', ''failed to register `parity` endpoints''),
      (''debug'', ''debugProcessor'', ''failed to register `debug` endpoints''),
      (''eth'', ''engineEth'', ''failed to register `eth` endpoints for engine''),
      (''net'', ''engineNet'', ''failed to register `net` endpoints for engine'')]"

text \<open>An optional indexer is started when its constructor returns one.\<close>

definition start_optional :: "error + bool \<Rightarrow> string \<Rightarrow> component \<Rightarrow> boot_prog" where
  "start_optional r msg c =
     (case r of
        Inl e \<Rightarrow> stop (BootFatal msg)
      | Inr there \<Rightarrow> if there then start_and_defer c else ret ())"

definition new_indexer :: "('acc, 'b, 'db) relayer_env \<Rightarrow> (error + 'b Indexer) outcome" where
  "new_indexer env =
     (if has_Broker env
      then NewWithBroker (Some (env_handler env)) True (env_db env) (idx_config env)
      else New (Some (env_handler env)) (env_db env) (idx_config env))"

definition start_indexer :: "('acc, 'b, 'db) relayer_env \<Rightarrow> boot_prog" where
  "start_indexer env =
     (case new_indexer env of
        Panic k \<Rightarrow> stop (BootPanic k)
      | Ret (Inl e) \<Rightarrow> stop (BootFatal ''failed to start indexer'')
      | _ \<Rightarrow> start_and_defer BlockIndexer)"

text \<open>Everything before the indexers, and the whole.\<close>

definition start_server :: "('acc, 'b, 'db) relayer_env \<Rightarrow> boot_prog list" where
  "start_server env =
     [or_fatal (new_BlockHandler env) ''failed to start block handler'',
      or_fatal (new_FilterHandler env) ''failed to start filter handler'',
      defer_close StoreHandler,
      or_fatal (new_node env) ''failed to create json-rpc server'',
      act (AddProcessor ''EnableDisable''),
      act (AddProcessor ''StandaloneProxy''),
      defer_close ProxyClient,
      make_engine env,
      make_filter env,
      act (AddMiddleware ''Proxy'')]
     @ map (RegisterEndpoints env) registrations
     @ [or_fatal (register env ''eth'' ''eventsEndpoint'') ''failed to register `eth` events'',
        act (RegisteredEvents ''eth''),
        start_and_defer RpcNode]"

definition start_relayer :: "('acc, 'b, 'db) relayer_env \<Rightarrow> boot_prog" where
  "start_relayer env =
     run_all (start_server env @
       [start_optional (new_tar env) ''failed to start tar indexer'' TarIndexer,
        start_indexer env,
        start_optional (new_prehistory env) ''failed to start indexer'' Prehistory])"

section \<open>Stopping\<close>

text \<open>The error a \<open>Close\<close> returns is dropped by its \<open>defer\<close>.\<close>

definition close_component :: "('acc, 'b, 'db) relayer_env \<Rightarrow> component \<Rightarrow> unit outcome" where
  "close_component env c =
     (case c of
        BlockIndexer \<Rightarrow>
          bind_outcome (CloseIndexer (env_handler env) (at_signal_indexer env)) (\<lambda>_. Ret ())
      | Engine \<Rightarrow> bind_outcome (CloseAccount (at_signal_account env)) (\<lambda>_. Ret ())
      | ProxyClient \<Rightarrow> (let (e, client) = close_client (at_signal_client env) in Ret ())
      | _ \<Rightarrow> lib_Close env c)"

datatype relayer_end = Stopped | FatalExit string | CrashedWith go_panic | Hanging component

text \<open>The deferred calls, the last one first; a panic goes on with the next.\<close>

fun run_deferred ::
  "('acc, 'b, 'db) relayer_env \<Rightarrow> component list \<Rightarrow> boot_act list \<Rightarrow> go_panic option \<Rightarrow>
     relayer_end \<times> boot_act list" where
  "run_deferred env [] tr None = (Stopped, tr)"
| "run_deferred env [] tr (Some k) = (CrashedWith k, tr)"
| "run_deferred env (c # cs) tr p =
     (case close_component env c of
        Ret u \<Rightarrow> run_deferred env cs (tr @ [Closed c]) p
      | Panic k \<Rightarrow> run_deferred env cs (tr @ [Closed c]) (Some k)
      | Blocked \<Rightarrow> (Hanging c, tr @ [Closed c]))"

text \<open>The start command; \<open><-sig\<close> is between its two halves.\<close>

definition StartCmd :: "('acc, 'b, 'db) relayer_env \<Rightarrow> relayer_end \<times> boot_act list" where
  "StartCmd env =
     (case start_relayer env \<lparr>boot_trace = [], deferred = []\<rparr> of
        (Inl (BootFatal m), b) \<Rightarrow> (FatalExit m, boot_trace b)
      | (Inl (BootPanic k), b) \<Rightarrow> run_deferred env (deferred b) (boot_trace b) (Some k)
      | (Inr u, b) \<Rightarrow> run_deferred env (deferred b) (boot_trace b) None)"

section \<open>What is started and what is closed\<close>

lemma run_all_append:
  "run_all (xs @ ys) = then_cmd (run_all xs) (\<lambda>_. run_all ys)"
proof (induction xs)
  case Nil
  then show ?case by (simp add: fun_eq_iff then_cmd_def ret_def)
next
  case (Cons x xs)
  then show ?case by (auto simp: fun_eq_iff then_cmd_def split: prod.split sum.split)
qed

lemma run_deferred_trace:
  "\<forall>c \<in> set cs. close_component env c \<noteq> Blocked \<Longrightarrow> snd (run_deferred env cs tr p) = tr @ map Closed cs"
  by (induction env cs tr p rule: run_deferred.induct) (auto split: outcome.split)

lemma run_deferred_end:
  "\<forall>c \<in> set cs. close_component env c \<noteq> Blocked \<Longrightarrow>
   fst (run_deferred env cs tr p) = Stopped \<longleftrightarrow> p = None \<and> (\<forall>c \<in> set cs. close_component env c = Ret ())"
  by (induction env cs tr p rule: run_deferred.induct) (auto split: outcome.split)

text \<open>The actions that start something.\<close>

fun starts :: "boot_act \<Rightarrow> component list" where
  "starts (Started c) = [c]"
| "starts _ = []"

abbreviation started_in :: "boot_act list \<Rightarrow> component list" where
  "started_in tr \<equiv> concat (map starts tr)"

lemmas boot_defs = act_def defer_close_def or_fatal_def start_and_defer_def ret_def stop_def

text \<open>\<open>adds m ds ss\<close>: when \<open>m\<close> succeeds, it has deferred \<open>ds\<close> and started \<open>ss\<close>.\<close>

definition adds :: "boot_prog \<Rightarrow> component list \<Rightarrow> component list \<Rightarrow> bool" where
  "adds m ds ss \<longleftrightarrow>
     (\<forall>b v. m b = (Inr (), v) \<longrightarrow>
        deferred v = ds @ deferred b \<and> started_in (boot_trace v) = started_in (boot_trace b) @ ss)"

named_theorems boot_adds \<open>what a step of the start adds\<close>

lemma adds_then: "adds m ds ss \<Longrightarrow> adds (f ()) ds' ss' \<Longrightarrow> adds (then_cmd m f) (ds' @ ds) (ss @ ss')"
  unfolding adds_def by (auto elim!: then_cmdE)

lemma adds_ret [boot_adds]: "adds (ret ()) [] []"
  by (simp add: adds_def ret_def)

lemma adds_stop [boot_adds]: "adds (stop e) ds ss"
  by (simp add: adds_def stop_def)

lemma adds_defer [boot_adds]: "adds (defer_close c) [c] []"
  by (simp add: adds_def defer_close_def)

lemma adds_act [boot_adds]:
  "adds (act (AddProcessor n)) [] []" "adds (act (AddMiddleware n)) [] []"
  "adds (act (Registered n n')) [] []" "adds (act (RegisteredEvents n)) [] []"
  by (auto simp: adds_def act_def)

lemma adds_start [boot_adds]: "adds (start_and_defer c) [c] [c]"
  by (auto simp: adds_def start_and_defer_def then_cmd_def act_def defer_close_def)

lemma adds_fatal [boot_adds]: "adds (or_fatal e m) [] []"
  by (simp add: or_fatal_def boot_adds)

lemma adds_engine [boot_adds]: "adds (make_engine env) [Engine] []"
  by (auto simp: make_engine_def boot_adds split: outcome.split)

lemma adds_filter [boot_adds]: "adds (make_filter env) [] []"
  by (auto simp: make_filter_def boot_adds split: option.split)

lemma adds_register [boot_adds]: "adds (RegisterEndpoints env r) [] []"
  using adds_then [OF adds_fatal adds_act(3)] by (auto simp: RegisterEndpoints_def split: prod.split)

lemma adds_all:
  "list_all2 (\<lambda>m e. adds m (fst e) (snd e)) ms es \<Longrightarrow>
   adds (run_all ms) (concat (rev (map fst es))) (concat (map snd es))"
  by (induction rule: list_all2_induct) (auto simp: boot_adds intro: adds_then)

lemma server_up:
  "adds (run_all (start_server env)) [RpcNode, Engine, ProxyClient, StoreHandler] [RpcNode]"
proof -
  let ?n = "([], []) :: component list \<times> component list"
  have "list_all2 (\<lambda>m e. adds m (fst e) (snd e)) (start_server env)
     ([?n, ?n, ([StoreHandler], []), ?n, ?n, ?n, ([ProxyClient], []), ([Engine], []), ?n, ?n] @
      replicate 7 ?n @ [?n, ?n, ([RpcNode], [RpcNode])])"
    by (simp add: start_server_def registrations_def boot_adds numeral_eq_Suc)
  from adds_all [OF this] show ?thesis by (simp add: numeral_eq_Suc)
qed

text \<open>Starting closes nothing.\<close>

definition closes_nothing :: "boot_prog \<Rightarrow> bool" where
  "closes_nothing m \<longleftrightarrow>
     (\<forall>b c. Closed c \<in> set (boot_trace (snd (m b))) \<longrightarrow> Closed c \<in> set (boot_trace b))"

lemma closes_nothing_then:
  "closes_nothing m \<Longrightarrow> (\<And>x. closes_nothing (f x)) \<Longrightarrow> closes_nothing (then_cmd m f)"
  unfolding closes_nothing_def
proof (intro allI impI)
  fix b c
  assume m: "\<forall>b c. Closed c \<in> set (boot_trace (snd (m b))) \<longrightarrow> Closed c \<in> set (boot_trace b)"
    and f: "\<And>x. \<forall>b c. Closed c \<in> set (boot_trace (snd (f x b))) \<longrightarrow> Closed c \<in> set (boot_trace b)"
    and c: "Closed c \<in> set (boot_trace (snd (then_cmd m f b)))"
  obtain r v where r: "then_cmd m f b = (r, v)" by fastforce
  then show "Closed c \<in> set (boot_trace b)"
  proof (cases rule: then_cmdE)
    case (1 e)
    then show ?thesis using m [rule_format, of c b] c r by simp
  next
    case (2 x u)
    then show ?thesis using m [rule_format, of c b] f [rule_format, of c x u] c r by simp
  qed
qed

lemma closes_nothing_all: "\<forall>m \<in> set ms. closes_nothing m \<Longrightarrow> closes_nothing (run_all ms)"
proof (induction ms)
  case Nil
  then show ?case by (simp add: closes_nothing_def ret_def)
qed (simp add: closes_nothing_then)

lemma closes_nothing_basic:
  "closes_nothing (ret ())" "closes_nothing (stop e)" "closes_nothing (defer_close c)"
  "closes_nothing (or_fatal e' m)" "closes_nothing (start_and_defer c)"
  "closes_nothing (act (AddProcessor n))" "closes_nothing (act (AddMiddleware n))"
  "closes_nothing (act (Registered n n'))" "closes_nothing (act (RegisteredEvents n))"
  by (auto simp: closes_nothing_def boot_defs then_cmd_def)

lemma closes_nothing_parts:
  "closes_nothing (make_engine env)" "closes_nothing (make_filter env)"
  "closes_nothing (RegisterEndpoints env r)" "closes_nothing (start_optional r' m c)"
  "closes_nothing (start_indexer env)"
  by (auto simp: make_engine_def make_filter_def RegisterEndpoints_def start_optional_def start_indexer_def
      intro!: closes_nothing_basic closes_nothing_then
      split: outcome.split option.split prod.split sum.split)

lemma start_closes_nothing:
  assumes "start_relayer env \<lparr>boot_trace = [], deferred = []\<rparr> = (r, b)"
  shows "Closed c \<notin> set (boot_trace b)"
proof -
  have "closes_nothing (start_relayer env)"
    unfolding start_relayer_def start_server_def registrations_def
    by (rule closes_nothing_all) (auto intro: closes_nothing_basic closes_nothing_parts)
  then show ?thesis
    unfolding closes_nothing_def using assms by (metis boot.select_convs(1) empty_iff empty_set snd_conv)
qed

definition there :: "error + bool \<Rightarrow> component \<Rightarrow> component list" where
  "there r c = (if r = Inr True then [c] else [])"

lemma adds_optional [boot_adds]: "adds (start_optional r m c) (there r c) (there r c)"
  by (auto simp: start_optional_def there_def boot_adds split: sum.split)

lemma adds_indexer [boot_adds]: "adds (start_indexer env) [BlockIndexer] [BlockIndexer]"
  by (auto simp: start_indexer_def boot_adds split: sum.split outcome.split)

lemma start_components:
  assumes "start_relayer env \<lparr>boot_trace = [], deferred = []\<rparr> = (Inr (), b)"
  shows "deferred b = there (new_prehistory env) Prehistory @ [BlockIndexer] @ there (new_tar env) TarIndexer @
      [RpcNode, Engine, ProxyClient, StoreHandler]"
    "started_in (boot_trace b) =
      [RpcNode] @ there (new_tar env) TarIndexer @ [BlockIndexer] @ there (new_prehistory env) Prehistory"
proof -
  have "list_all2 (\<lambda>m e. adds m (fst e) (snd e))
     [start_optional (new_tar env) ''failed to start tar indexer'' TarIndexer, start_indexer env,
      start_optional (new_prehistory env) ''failed to start indexer'' Prehistory]
     [(there (new_tar env) TarIndexer, there (new_tar env) TarIndexer), ([BlockIndexer], [BlockIndexer]),
      (there (new_prehistory env) Prehistory, there (new_prehistory env) Prehistory)]"
    by (simp add: boot_adds)
  from adds_then [OF server_up adds_all [OF this]]
  have "adds (start_relayer env) (there (new_prehistory env) Prehistory @ [BlockIndexer] @
      there (new_tar env) TarIndexer @ [RpcNode, Engine, ProxyClient, StoreHandler])
    ([RpcNode] @ there (new_tar env) TarIndexer @ [BlockIndexer] @ there (new_prehistory env) Prehistory)"
    by (simp add: start_relayer_def run_all_append)
  then show "deferred b = there (new_prehistory env) Prehistory @ [BlockIndexer] @ there (new_tar env) TarIndexer @
      [RpcNode, Engine, ProxyClient, StoreHandler]"
    "started_in (boot_trace b) =
      [RpcNode] @ there (new_tar env) TarIndexer @ [BlockIndexer] @ there (new_prehistory env) Prehistory"
    using assms by (auto simp: adds_def)
qed

text \<open>
  C26. After a start that succeeded, and if no \<open>Close\<close> waits for ever, a signal runs the deferred
  \<open>Close\<close> calls in the reverse of the order in which they were registered: the indexers that exist,
  the server, the engine, the client of the refiner and, last of all, the database, each once and
  whatever panics on the way; nothing was closed before.  What was started, the server and then the
  indexers that exist, is closed in the reverse of the order it was started in.  The process ends
  normally exactly when no \<open>Close\<close> panics.
\<close>

theorem relayer_stops_in_reverse:
  assumes started: "start_relayer env \<lparr>boot_trace = [], deferred = []\<rparr> = (Inr (), b)"
    and cs: "cs = there (new_prehistory env) Prehistory @ [BlockIndexer] @ there (new_tar env) TarIndexer @
      [RpcNode, Engine, ProxyClient, StoreHandler]"
    and "\<forall>c \<in> set cs. close_component env c \<noteq> Blocked"
  shows "deferred b = cs \<and> snd (StartCmd env) = boot_trace b @ map Closed cs \<and>
    (\<forall>c. Closed c \<notin> set (boot_trace b)) \<and>
    rev (started_in (boot_trace b)) = filter (\<lambda>c. c \<notin> {Engine, ProxyClient, StoreHandler}) cs \<and>
    (fst (StartCmd env) = Stopped \<longleftrightarrow> (\<forall>c \<in> set cs. close_component env c = Ret ()))"
proof -
  have "StartCmd env = run_deferred env cs (boot_trace b) None"
    using started start_components(1) [OF started] cs by (simp add: StartCmd_def)
  then show ?thesis
    using run_deferred_trace [OF assms(3)] run_deferred_end [OF assms(3)] cs
      start_components(1) [OF started]
      start_components(2) [OF started] start_closes_nothing [OF started]
    by (simp add: there_def)
qed

text \<open>
  A refused indexer configuration ends the process with everything open: \<open>logger.Fatal\<close> exits without
  the deferred calls, when the server is already answering and the database is open.
\<close>

theorem fatal_start_leaves_open:
  assumes up: "run_all (start_server env) \<lparr>boot_trace = [], deferred = []\<rparr> = (Inr (), b)"
    and "new_tar env = Inr False" "new_indexer env = Ret (Inl e)"
  shows "StartCmd env = (FatalExit ''failed to start indexer'', boot_trace b) \<and>
    RpcNode \<in> set (started_in (boot_trace b)) \<and> (\<forall>c. Closed c \<notin> set (boot_trace b))"
proof -
  have s: "start_relayer env \<lparr>boot_trace = [], deferred = []\<rparr> = (Inl (BootFatal ''failed to start indexer''), b)"
    using up assms(2,3)
    by (simp add: start_relayer_def run_all_append then_cmd_def start_optional_def start_indexer_def ret_def stop_def)
  have "RpcNode \<in> set (started_in (boot_trace b))"
    using server_up [of env] up by (auto simp: adds_def)
  then show ?thesis using start_closes_nothing [OF s] by (simp add: StartCmd_def s)
qed

lemma run_deferred_panic:
  "\<forall>c \<in> set cs. close_component env c = Ret () \<or> close_component env c = Panic k \<Longrightarrow>
   p = Some k \<or> p = None \<and> (\<exists>c \<in> set cs. close_component env c = Panic k) \<Longrightarrow>
   fst (run_deferred env cs tr p) = CrashedWith k"
  by (induction env cs tr p rule: run_deferred.induct) (auto split: outcome.split)

text \<open>
  A signal before the first block crashes the process: \<open>Close\<close> of the running indexer dereferences
  the missing block number; the components before it, down to the database, are closed all the same.
\<close>

theorem signal_without_blocks_crashes:
  assumes started: "start_relayer env \<lparr>boot_trace = [], deferred = []\<rparr> = (Inr (), b)"
    and "\<forall>c. lib_Close env c = Ret ()" "CloseAccount (at_signal_account env) = Ret acc"
    and "started (idx_s (sys_i (at_signal_indexer env)))"
    and "fst (BlockNumber (env_handler env) (dbh (sys_w (at_signal_indexer env)))) = None"
  shows "fst (StartCmd env) = CrashedWith NilDeref \<and> Closed StoreHandler \<in> set (snd (StartCmd env))"
proof -
  have cl: "close_component env c = (if c = BlockIndexer then Panic NilDeref else Ret ())" for c
    using assms(2-5) by (cases c) (simp_all add: close_component_def split_beta Let_def CloseIndexer_def stop_state_def)
  have "StartCmd env = run_deferred env (deferred b) (boot_trace b) None"
    using started by (simp add: StartCmd_def)
  then show ?thesis
    using run_deferred_panic [of "deferred b" env NilDeref None "boot_trace b"]
      run_deferred_trace [of "deferred b" env "boot_trace b" None] start_components(1) [OF started] cl
    by simp
qed

section \<open>A concrete relayer\<close>

definition demo_near_lib :: "unit near_lib" where
  "demo_near_lib = \<lparr>LoadAccount = (\<lambda>_ _ _. Inr ()), GetVerifiedAccessKeys = (\<lambda>_. [])\<rparr>"

definition demo_relayer :: "Config \<Rightarrow> (unit, u64, u64 list) relayer_env" where
  "demo_relayer cfg =
     \<lparr>new_BlockHandler = None, new_FilterHandler = None, new_node = None, has_Broker = True,
      engine_lib = demo_near_lib, engine_config = demo_config,
      read_filter = (\<lambda>_. (Some PathError, [], [])), filter_path = [],
      register = (\<lambda>_ _. None), new_tar = Inr False, env_handler = demo_handler, env_db = [],
      idx_config = cfg, new_prehistory = Inr True, at_signal_indexer = demo_isys,
      at_signal_account = \<lparr>acc_config = demo_config, nearArchivalAccount = (), nearAccount = (),
        txnProcessor = NewTxnProcessor demo_config []\<rparr>,
      at_signal_client = newRPCClient ''unix'' ''/tmp/refiner.sock'' 5,
      lib_Close = (\<lambda>_. Ret ())\<rparr>"

lemma demo_server:
  "\<exists>b. run_all (start_server (demo_relayer cfg)) \<lparr>boot_trace = [], deferred = []\<rparr> = (Inr (), b)"
proof -
  have e: "make_engine (demo_relayer cfg) = defer_close Engine"
    by (simp add: make_engine_def NewEngineEth_def NewAccount_def demo_relayer_def demo_config_def
        demo_near_lib_def Let_def)
  have f: "make_filter (demo_relayer cfg) = act (AddMiddleware ''FilterIP'')"
    by (simp add: make_filter_def FilterIP_def demo_relayer_def)
  have o: "or_fatal None m = ret ()" for m by (simp add: or_fatal_def)
  have r: "RegisterEndpoints (demo_relayer cfg) (ns, ep, msg) = then_cmd (ret ()) (\<lambda>_. act (Registered ns ep))" for ns ep msg
    by (simp add: RegisterEndpoints_def demo_relayer_def or_fatal_def)
  have n: "new_BlockHandler (demo_relayer cfg) = None" "new_FilterHandler (demo_relayer cfg) = None"
    "new_node (demo_relayer cfg) = None" "register (demo_relayer cfg) ns ep = None" for ns ep
    by (simp_all add: demo_relayer_def)
  show ?thesis
    unfolding start_server_def registrations_def
    by (simp add: e f r n o then_cmd_def start_and_defer_def act_def defer_close_def ret_def)
qed

lemma demo_start:
  "\<exists>b. start_relayer (demo_relayer demo_cfg) \<lparr>boot_trace = [], deferred = []\<rparr> = (Inr (), b)"
proof -
  obtain b where b: "run_all (start_server (demo_relayer demo_cfg)) \<lparr>boot_trace = [], deferred = []\<rparr> = (Inr (), b)"
    using demo_server by blast
  obtain i where "new_indexer (demo_relayer demo_cfg) = Ret (Inr i)"
    by (simp add: new_indexer_def demo_relayer_def NewWithBroker_def New_def NewIndexer_def Let_def
        demo_cfg_def first_block_def demo_handler_def)
  then show ?thesis
    using b by (simp add: start_relayer_def run_all_append then_cmd_def start_optional_def start_indexer_def
        start_and_defer_def act_def defer_close_def ret_def demo_relayer_def)
qed

theorem relayer_stops_in_reverse_witness:
  "\<exists>tr. StartCmd (demo_relayer demo_cfg) =
     (Stopped, tr @ map Closed [Prehistory, BlockIndexer, RpcNode, Engine, ProxyClient, StoreHandler])"
proof -
  let ?env = "demo_relayer demo_cfg"
  let ?cs = "[Prehistory, BlockIndexer, RpcNode, Engine, ProxyClient, StoreHandler]"
  obtain b where b: "start_relayer ?env \<lparr>boot_trace = [], deferred = []\<rparr> = (Inr (), b)"
    using demo_start by blast
  have cs: "?cs = there (new_prehistory ?env) Prehistory @ [BlockIndexer] @ there (new_tar ?env) TarIndexer @
      [RpcNode, Engine, ProxyClient, StoreHandler]"
    by (simp add: there_def demo_relayer_def)
  have cl: "close_component ?env c = Ret ()" for c
    by (cases c) (simp_all add: close_component_def split_beta Let_def CloseIndexer_def CloseAccount_def Close_def demo_relayer_def
        demo_isys_def demo_indexer_def NewTxnProcessor_def)
  from relayer_stops_in_reverse [OF b cs] cl
  have "snd (StartCmd ?env) = boot_trace b @ map Closed ?cs" "fst (StartCmd ?env) = Stopped" by auto
  then show ?thesis by (metis prod.collapse)
qed

theorem fatal_start_leaves_open_witness:
  "\<exists>tr. StartCmd (demo_relayer (demo_cfg\<lparr>FromBlock := 9\<rparr>)) = (FatalExit ''failed to start indexer'', tr) \<and>
     RpcNode \<in> set (started_in tr)"
proof -
  let ?env = "demo_relayer (demo_cfg\<lparr>FromBlock := 9\<rparr>)"
  obtain b where b: "run_all (start_server ?env) \<lparr>boot_trace = [], deferred = []\<rparr> = (Inr (), b)"
    using demo_server by blast
  obtain e where e: "new_indexer ?env = Ret (Inl e)"
    by (simp add: new_indexer_def demo_relayer_def NewWithBroker_def New_def NewIndexer_def Let_def
        demo_cfg_def first_block_def demo_handler_def)
  have "new_tar ?env = Inr False" by (simp add: demo_relayer_def)
  from fatal_start_leaves_open [OF b this e] show ?thesis by blast
qed

end
