(* ===== verification/Spec2Isabelle.thy ===== *)
theory Spec2Isabelle
  imports TxnRefine TxnClose IndexerFaults EngineEth EventsEth Middleware StandaloneProxy Keys Relayer
begin

text \<open>
  A model of the Aurora relayer (\<open>relayer2-public\<close>), a server that answers Ethereum JSON-RPC calls
  from a local database and from an engine contract on NEAR, forwards signed Ethereum transactions
  to that contract, and fills its database from block files.

  \<^bold>\<open>The program and the theories.\<close>  Paths are under \<open>src/\<close>; a definition has the name of the Go
  function or type it models, a suffix or prefix where Isabelle or another file has taken it.

  \<^item> \<open>account/txnQ.go\<close> is \<open>TxnQueue\<close>: the record \<open>txnq\<close> is the channel with its capacity, the
    closed flag and the context; \<open>TryEnqueue\<close>, \<open>Enqueue\<close>, \<open>receive\<close>, \<open>close_queue\<close>, \<open>Cancel\<close> are
    the methods; \<open>qstep\<close> interleaves a worker, a closer and producers.
  \<^item> \<open>account/txnError.go\<close> is \<open>TxnError\<close>: statuses, the table of actions, and the two functions of
    \<open>txnProcessor.go\<close> that read a response, on dynamic values (\<open>goval\<close> of \<open>Prelude\<close>).
  \<^item> \<open>account/txnMapper.go\<close> is \<open>TxnMapper\<close>: the mappers from senders to keys, with CRC-32.
  \<^item> \<open>account/txnReqResp.go\<close> is \<open>TxnReqResp\<close>: requests, responses, expiry and the blocking \<open>Get\<close>.
  \<^item> \<open>account/txnProcessor.go\<close> is \<open>NonceCache\<close> (the two caches and their refresh), \<open>TxnProcessor\<close>
    (the record \<open>proc\<close>; construction, admission, \<open>sort\<close>, \<open>send\<close>, \<open>eval\<close>, \<open>Submit\<close>, \<open>Close\<close>, one
    function each), \<open>TxnSystem\<close> (the same code as its goroutines run it: \<open>fire\<close> computes one
    event, one per statement another goroutine can observe) and \<open>TxnClose\<close> (\<open>Close\<close> beside them: the
    closing of each queue and the wait for its worker).  Requests are shared by pointer, so they
    live in a store and queues, timers and calls hold their addresses.
  \<^item> \<open>account/account.go\<close> is \<open>Account\<close>; \<open>endpoint/engineEth.go\<close> and \<open>engineNet.go\<close> are \<open>EngineEth\<close>,
    which calls it; \<open>endpoint/eventsEth.go\<close> is \<open>EventsEth\<close>.
  \<^item> \<open>indexer/config.go\<close> and \<open>indexer/indexer.go\<close> are \<open>Indexer\<close> (one constructor of \<open>idx_state\<close> per
    state function, \<open>run_state\<close> its call) and \<open>IndexerRun\<close> (the loop with \<open>Start\<close>, \<open>Close\<close> and other
    processes as the step relation \<open>istep\<close>).
  \<^item> \<open>middleware/filterIP.go\<close> is \<open>IPFilter\<close> over \<open>IPNet\<close> (addresses and networks of Go's \<open>net\<close>);
    \<open>middleware/proxy.go\<close> is \<open>Middleware\<close>.
  \<^item> \<open>standaloneproxy/proxy.go\<close> is \<open>ProxyWire\<close> (connection and framing) and \<open>StandaloneProxy\<close> (request
    text, responses and the endpoint processor).
  \<^item> \<open>cmd/keys.go\<close> is \<open>Keys\<close>, commands over a file system as a small state monad, on \<open>GoPath\<close> and
    \<open>GoGlob\<close> (paths and patterns of Go's \<open>path/filepath\<close>).
  \<^item> \<open>main.go\<close> is \<open>Relayer\<close>: the start command with its fatal exits and its deferred calls, over the
    constructors and the \<open>Close\<close> functions of the theories above.

  A caller's transaction goes from \<open>EngineEth\<close> through \<open>Account.SendRawTransaction\<close> into
  \<open>TxnProcessor.Submit\<close>, through the unordered queue of its key to \<open>sort\<close>, through the ordered
  queue to \<open>send\<close>, and its response comes back through the channel of the request to \<open>eval\<close>, which
  retries or answers.

  \<^bold>\<open>What the lemmas show.\<close>
  \<^item> Queues and locks: \<open>TxnQueue\<close> (order, capacity, draining on \<open>Close\<close>), \<open>TxnProgress\<close> (per key,
    sorting and evaluating exclude each other; no deadlock).
  \<^item> Delivery: \<open>TxnDelivery\<close> (the locale \<open>delivery\<close>: each operation moves a request to exactly one
    place), \<open>TxnTokens\<close> (the invariant of the running system), \<open>TxnGuarantees\<close> (what follows for
    every run until \<open>Close\<close>, and the circuit breaker cleared too early), \<open>TxnClose\<close> (which panics
    are left with \<open>Close\<close> running, by a simulation in which no queue was ever closed, and what \<open>Close\<close>
    has drained when it returns).
  \<^item> \<open>TxnEval\<close>: when a response is retried, answered, or crashes the process.
  \<^item> \<open>TxnRefine\<close>: the atomic operations of \<open>TxnProcessor\<close> are runs of \<open>TxnSystem\<close>.
  \<^item> \<open>IndexerRun\<close> and \<open>IndexerFaults\<close>: the indexer takes the block numbers in order and inserts
    what it read from each number's file (whether a file holds that height is not checked by the
    code, and is a condition where heights are spoken of), retries are bounded, removal ends, and
    the configurations \<open>New\<close> accepts.
  \<^item> The other theories close with the properties of their component: choice of the node, error
    values, framing round trip, entries of the filter, subscriptions, key files, the order of
    closing.

  Interfaces are locales, each interpreted on the model: \<open>fifo_queue\<close> and \<open>bounded_queue\<close>,
  \<open>key_mapper\<close>, \<open>rate_limited_refresh\<close>, \<open>delivery\<close> and \<open>prompt_delivery\<close>, \<open>transition_system\<close> (every
  step relation with its invariant), \<open>rpc_client\<close>, \<open>cmd_frame\<close>.

  \<^bold>\<open>Conventions.\<close>  A call returns, blocks or panics (\<open>outcome\<close>); a pair of value and error is a sum;
  machine integers are words; times are integers in nanoseconds and the clock is an argument.  No
  definition uses fuel: loops are structural or come with a termination proof, and loops that
  may run for ever are step relations.

  \<^bold>\<open>Parameters.\<close>  Code outside the repository is an argument of the definitions that call it: the
  NEAR client and the engine's response types (\<open>near_api\<close>, \<open>account_api\<close>, \<open>near_lib\<close>,
  \<open>keys_env\<close>), Ethereum transactions (\<open>eth_api\<close>), the database handler and the broker (\<open>handler\<close>,
  \<open>db_reads\<close>), block and call types (\<open>base_types\<close>), the JSON libraries (\<open>refiner_lib\<close>), viper,
  fasthttp.  What the operating system does in a call is an argument too (\<open>io\<close>, \<open>call_io\<close>,
  \<open>fs_faults\<close>).

  \<^bold>\<open>Not modelled.\<close>  The command line of \<open>main.go\<close> and its handler of configuration changes, which
  only call \<open>relayer2-base\<close>.  Logging, the indexer's timing statistics, and sleeps
  beyond the ordering of events.  The watcher that triggers a reload of the filter.  The race of
  two first connections to the refiner (the check is outside the lock) and of the two maps written
  by several workers (Go aborts).  In \<open>TxnClose\<close> the workers are counted in their wait groups before
  \<open>Close\<close>, which is called once; \<open>TxnQueue\<close> has the window before.  The invariant of \<open>TxnTokens\<close>
  counts the places of a request that was answered once more at the end of an evaluation (the
  \<open>RespondWithStatus\<close> of \<open>eval\<close>) as one stray answer.  The pointer to the loop variable
  \<open>EventsEth.Logs\<close> hands to its notifier is recorded as the log it points to at the call.
  \<open>SendRawTransaction\<close> takes the handle of \<open>Submit\<close> as its goroutine has left it when \<open>Get\<close> runs.

  \<^bold>\<open>Open.\<close>  A caller's transaction followed from \<open>EngineEth\<close> to its answer across the theories, in
  one system.
\<close>

end
